(* ===== verification/OS161_Prelude.thy ===== *)
theory OS161_Prelude
  imports Main "HOL-Library.Word"
begin

text \<open>
  Shared vocabulary of the development: machine words and pages of the MIPS r3000 that
  System/161 simulates, the error codes the kernel returns, the outcome of a kernel call
  (a value, a panic, undefined behaviour, going to sleep or looping forever), physical
  memory as bytes, and the counting loop that every table search of the kernel is written
  with. The lemmas below are the ones all components use.
\<close>

unbundle bit_operations_syntax

named_theorems kern_simps \<open>outcomes of kernel calls under their preconditions\<close>

section \<open>Types and platform constants\<close>

type_synonym w32 = "32 word"
type_synonym paddr_t = "32 word"
type_synonym vaddr_t = "32 word"
type_synonym byte = "8 word"
type_synonym memory = "32 word \<Rightarrow> 8 word"

text \<open>
  Values of the platform headers (\<open>machine/vm.h\<close>): pages of 4 KB, the direct-mapped kernel
  segment and the top of the user stack, both at \<open>0x80000000\<close>.
\<close>

definition PAGE_SIZE :: w32 where
  "PAGE_SIZE = 4096"

definition PAGE_FRAME :: w32 where
  "PAGE_FRAME = 0xFFFFF000"

definition MIPS_KSEG0 :: w32 where
  "MIPS_KSEG0 = 0x80000000"

definition USERSTACK :: w32 where
  "USERSTACK = 0x80000000"

definition PADDR_TO_KVADDR :: "paddr_t \<Rightarrow> vaddr_t" where
  "PADDR_TO_KVADDR p = p + MIPS_KSEG0"

text \<open>\<open>DIVROUNDUP(a, b)\<close> of \<open>lib.h\<close>, on 32-bit unsigned values.\<close>

definition DIVROUNDUP :: "w32 \<Rightarrow> w32 \<Rightarrow> w32" where
  "DIVROUNDUP a b = (a + b - 1) div b"

definition ALLIGN_NEXT_ADDR :: "paddr_t \<Rightarrow> paddr_t" where
  "ALLIGN_NEXT_ADDR paddr =
     (if paddr mod PAGE_SIZE = 0 then paddr else (paddr div PAGE_SIZE + 1) * PAGE_SIZE)"

text \<open>
  Error codes. The numbers are those of \<open>kern/errno.h\<close>, which only user level sees, so the
  codes are constructors; \<open>Eother\<close> is any code a file system or device returns. A C function
  that returns \<open>0\<close> for success is modelled with \<open>None\<close> for that \<open>0\<close>.
\<close>

datatype errno = ENOMEM | EFAULT | EINVAL | ENOENT | ENOEXEC | ENOSYS | ENFILE | EMFILE
  | E2BIG | ENOSPC | Eother nat

type_synonym kerr = "errno option"

section \<open>Outcomes of kernel calls\<close>

text \<open>
  \<open>Ret\<close> is a normal return. \<open>Panic\<close> is \<open>panic()\<close> or a failed \<open>KASSERT\<close>, with its message;
  \<open>Undef\<close> is undefined behaviour of C (an index outside an array, a null dereference);
  \<open>Sleeps\<close> is a thread that blocks in \<open>wchan_sleep\<close>, so that its call does not return until
  another thread wakes it; \<open>Diverges\<close> is a loop that never ends.
\<close>

datatype 'a kres = Ret 'a | Panic string | Undef | Sleeps | Diverges

fun kbind :: "'a kres \<Rightarrow> ('a \<Rightarrow> 'b kres) \<Rightarrow> 'b kres" where
  "kbind (Ret x) f = f x"
| "kbind (Panic m) f = Panic m"
| "kbind Undef f = Undef"
| "kbind Sleeps f = Sleeps"
| "kbind Diverges f = Diverges"

definition KASSERT :: "bool \<Rightarrow> 'a kres \<Rightarrow> 'a kres" where
  "KASSERT c k = (if c then k else Panic ''KASSERT'')"

section \<open>The counting loop\<close>

text \<open>
  \<open>for (i = a; i < a + n; i++) if (P(i)) break;\<close> with the index at the break, or \<open>None\<close> when
  the loop runs to its end.
\<close>

fun first_idx :: "(nat \<Rightarrow> bool) \<Rightarrow> nat \<Rightarrow> nat \<Rightarrow> nat option" where
  "first_idx P a 0 = None"
| "first_idx P a (Suc n) = (if P a then Some a else first_idx P (Suc a) n)"

section \<open>Physical memory as bytes\<close>

definition mem_read :: "paddr_t \<Rightarrow> nat \<Rightarrow> memory \<Rightarrow> byte list" where
  "mem_read p n m = map (\<lambda>i. m (p + of_nat i)) [0..<n]"

definition mem_write :: "paddr_t \<Rightarrow> byte list \<Rightarrow> memory \<Rightarrow> memory" where
  "mem_write p bs m = (\<lambda>a. if unat (a - p) < length bs then bs ! unat (a - p) else m a)"

definition bzero :: "paddr_t \<Rightarrow> nat \<Rightarrow> memory \<Rightarrow> memory" where
  "bzero p n m = mem_write p (replicate n 0) m"

section \<open>Lemmas on outcomes\<close>

lemma kbind_eq_Ret [simp]: "kbind m f = Ret y \<longleftrightarrow> (\<exists>x. m = Ret x \<and> f x = Ret y)"
  by (cases m) auto

lemma Ret_eq_kbind [simp]: "Ret y = kbind m f \<longleftrightarrow> (\<exists>x. m = Ret x \<and> f x = Ret y)"
  by (cases m) auto

lemma kbind_assoc [simp]: "kbind (kbind m f) g = kbind m (\<lambda>x. kbind (f x) g)"
  by (cases m) auto

lemma KASSERT_True [simp]: "KASSERT True k = k"
  by (simp add: KASSERT_def)

lemma KASSERT_False [simp]: "KASSERT False k = Panic ''KASSERT''"
  by (simp add: KASSERT_def)

lemma KASSERT_eq_Ret [simp]: "KASSERT c k = Ret y \<longleftrightarrow> c \<and> k = Ret y"
  by (simp add: KASSERT_def)

section \<open>Lemmas on the counting loop\<close>

lemma first_idx_Some_iff:
  "first_idx P a n = Some i \<longleftrightarrow> a \<le> i \<and> i < a + n \<and> P i \<and> (\<forall>k. a \<le> k \<and> k < i \<longrightarrow> \<not> P k)"
proof (induction n arbitrary: a)
  case 0
  then show ?case by auto
next
  case (Suc n)
  show ?case
  proof (cases "P a")
    case True
    then show ?thesis by (auto intro: le_neq_trans)
  next
    case False
    then have "first_idx P a (Suc n) = first_idx P (Suc a) n" by simp
    with False Suc show ?thesis
      by (metis Suc_leD Suc_leI add_Suc_right add_Suc_shift le_neq_implies_less)
  qed
qed

lemma first_idx_None_iff:
  "first_idx P a n = None \<longleftrightarrow> (\<forall>k. a \<le> k \<and> k < a + n \<longrightarrow> \<not> P k)"
proof (induction n arbitrary: a)
  case 0
  then show ?case by auto
next
  case (Suc n)
  show ?case
  proof (cases "P a")
    case True
    then show ?thesis by auto
  next
    case False
    with Suc show ?thesis
      by (metis Suc_leD Suc_leI add_Suc_right add_Suc_shift first_idx.simps(2) le_neq_implies_less)
  qed
qed

lemma first_idx_SomeD:
  assumes "first_idx P a n = Some i"
  shows "a \<le> i" "i < a + n" "P i"
  using assms by (auto simp: first_idx_Some_iff)

lemma first_idx_cong:
  "(\<And>k. a \<le> k \<Longrightarrow> k < a + n \<Longrightarrow> P k = Q k) \<Longrightarrow> first_idx P a n = first_idx Q a n"
  by (induction n arbitrary: a) auto

section \<open>Lemmas on pages\<close>

lemma unat_PAGE_SIZE [simp]: "unat PAGE_SIZE = 4096"
  by (simp add: PAGE_SIZE_def)

lemma PAGE_FRAME_eq: "PAGE_FRAME = NOT (mask 12)"
  by (simp add: PAGE_FRAME_def mask_eq_exp_minus_1)

lemma and_PAGE_FRAME: "x AND PAGE_FRAME = push_bit 12 (drop_bit 12 x)"
  by (rule bit_word_eqI) (auto simp: PAGE_FRAME_eq bit_simps not_less)

lemma unat_and_PAGE_FRAME: "unat (x AND PAGE_FRAME) = unat x div 4096 * 4096"
proof -
  have "unat x < 2 ^ 32" using unsigned_less [of x] by simp
  then have "unat x div 4096 * 4096 < 2 ^ 32" by linarith
  then show ?thesis
    by (simp add: and_PAGE_FRAME push_bit_eq_mult unat_word_ariths unat_drop_bit_eq
        drop_bit_eq_div)
qed

lemma unat_and_not_PAGE_FRAME: "unat (x AND NOT PAGE_FRAME) = unat x mod 4096"
  by (simp add: PAGE_FRAME_eq take_bit_eq_mask [symmetric] take_bit_eq_mod unat_mod_distrib)

section \<open>Lemmas on memory\<close>

lemma length_mem_read [simp]: "length (mem_read p n m) = n"
  by (simp add: mem_read_def)

lemma mem_read_write_same:
  assumes "length bs \<le> 2 ^ 32"
  shows "mem_read p (length bs) (mem_write p bs m) = bs"
  using assms by (auto intro!: nth_equalityI simp: mem_read_def mem_write_def unat_of_nat)

lemma mem_write_other: "length bs \<le> unat (a - p) \<Longrightarrow> mem_write p bs m a = m a"
  by (simp add: mem_write_def)

end
