(* ===== verification/Threads.thy ===== *)
theory Threads
  imports OS161_Prelude
begin

text \<open>
  The thread system's data and its run queues and wait channels (\<open>kern/thread/thread.c\<close>).
  The state record holds the threads, the CPUs and which of them are current; every later
  component extends it, so that a call deep inside the VM system runs the same code that the
  thread system runs. \<open>threadlist\<close> and \<open>cpuarray\<close> are lists. A spinlock is only counted
  (\<open>curcpu->c_spinlocks\<close> is the number of spinlocks the CPU holds). \<open>kmalloc\<close> is outside the
  repository: the state carries the outcomes it will give (\<open>kmem\<close>) and the number of blocks
  allocated and not yet freed (\<open>kheap\<close>).
\<close>

section \<open>Data\<close>

datatype threadstate = S_RUN | S_READY | S_SLEEP | S_ZOMBIE

type_synonym tid = nat

record thread =
  t_name :: string
  t_wchan_name :: "string option"
  t_state :: threadstate
  t_stack :: "w32 list option"
  t_cpu :: "nat option"
  t_proc :: "nat option"
  t_in_interrupt :: bool
  t_curspl :: nat
  t_iplhigh_count :: nat

record cpu =
  c_number :: nat
  c_hardware_number :: nat
  c_curthread :: "tid option"
  c_zombies :: "tid list"
  c_hardclocks :: nat
  c_spinlocks :: nat
  c_isidle :: bool
  c_runqueue :: "tid list"
  c_ipi_pending :: w32
  c_numshootdown :: nat
  c_shootdown :: "w32 list"

record sched =
  threads :: "tid \<Rightarrow> thread"
  allcpus :: "cpu list"
  curcpu :: nat
  curthread :: tid
  curcpu_exists :: bool
  kmem :: "bool list"
  kheap :: nat

record wchan =
  wc_name :: string
  wc_threads :: "tid list"

definition IPI_PANIC :: nat where "IPI_PANIC = 0"
definition IPI_OFFLINE :: nat where "IPI_OFFLINE = 1"
definition IPI_UNIDLE :: nat where "IPI_UNIDLE = 2"
definition IPI_TLBSHOOTDOWN :: nat where "IPI_TLBSHOOTDOWN = 3"

section \<open>Access to the current CPU and thread\<close>

definition upd_thread :: "tid \<Rightarrow> (thread \<Rightarrow> thread) \<Rightarrow> 'a sched_scheme \<Rightarrow> 'a sched_scheme" where
  "upd_thread t f s = s\<lparr>threads := (threads s)(t := f (threads s t))\<rparr>"

definition upd_cpu :: "nat \<Rightarrow> (cpu \<Rightarrow> cpu) \<Rightarrow> 'a sched_scheme \<Rightarrow> 'a sched_scheme" where
  "upd_cpu c f s = s\<lparr>allcpus := (allcpus s)[c := f (allcpus s ! c)]\<rparr>"

definition cur_cpu :: "'a sched_scheme \<Rightarrow> cpu" where
  "cur_cpu s = allcpus s ! curcpu s"

definition in_interrupt :: "'a sched_scheme \<Rightarrow> bool" where
  "in_interrupt s = t_in_interrupt (threads s (curthread s))"

definition spinlock_acquire :: "'a sched_scheme \<Rightarrow> 'a sched_scheme" where
  "spinlock_acquire s = upd_cpu (curcpu s) (\<lambda>c. c\<lparr>c_spinlocks := c_spinlocks c + 1\<rparr>) s"

definition spinlock_release :: "'a sched_scheme \<Rightarrow> 'a sched_scheme" where
  "spinlock_release s = upd_cpu (curcpu s) (\<lambda>c. c\<lparr>c_spinlocks := c_spinlocks c - 1\<rparr>) s"

definition kmalloc :: "'a sched_scheme \<Rightarrow> bool \<times> 'a sched_scheme" where
  "kmalloc s = (case kmem s of
       [] \<Rightarrow> (False, s)
     | ok # rest \<Rightarrow> (ok, s\<lparr>kmem := rest, kheap := (if ok then kheap s + 1 else kheap s)\<rparr>))"

definition kfree :: "'a sched_scheme \<Rightarrow> 'a sched_scheme" where
  "kfree s = s\<lparr>kheap := kheap s - 1\<rparr>"

text \<open>\<open>can_sleep\<close> and \<open>checkcanLock\<close> of \<open>kern/vm/addrspace.c\<close>.\<close>

definition can_sleep :: "'a sched_scheme \<Rightarrow> 'b kres \<Rightarrow> 'b kres" where
  "can_sleep s k =
     (if curcpu_exists s
      then KASSERT (c_spinlocks (cur_cpu s) = 0) (KASSERT (\<not> in_interrupt s) k)
      else k)"

definition checkcanLock :: "'a sched_scheme \<Rightarrow> int" where
  "checkcanLock s =
     (if curcpu_exists s \<and> c_spinlocks (cur_cpu s) = 0 \<and> \<not> in_interrupt s then 0 else 1)"

section \<open>Interprocessor interrupts and the run queues\<close>

definition ipi_send :: "nat \<Rightarrow> nat \<Rightarrow> 'a sched_scheme \<Rightarrow> 'a sched_scheme kres" where
  "ipi_send target code s =
     KASSERT (code < 32)
       (Ret (upd_cpu target
          (\<lambda>c. c\<lparr>c_ipi_pending := c_ipi_pending c OR push_bit code 1\<rparr>) s))"

definition thread_make_runnable :: "tid \<Rightarrow> bool \<Rightarrow> 'a sched_scheme \<Rightarrow> 'a sched_scheme kres" where
  "thread_make_runnable target already_have_lock s =
     (case t_cpu (threads s target) of
        None \<Rightarrow> Undef
      | Some targetcpu \<Rightarrow>
          let s1 = (if already_have_lock then s else spinlock_acquire s);
              s2 = upd_thread target (\<lambda>t. t\<lparr>t_state := S_READY\<rparr>) s1;
              s3 = upd_cpu targetcpu (\<lambda>c. c\<lparr>c_runqueue := c_runqueue c @ [target]\<rparr>) s2
          in kbind
               (if c_isidle (allcpus s3 ! targetcpu) \<and> targetcpu \<noteq> curcpu s3
                then ipi_send targetcpu IPI_UNIDLE s3 else Ret s3)
               (\<lambda>s4. Ret (if already_have_lock then s4 else spinlock_release s4)))"

section \<open>Wait channels\<close>

definition wchan_create :: "string \<Rightarrow> 'a sched_scheme \<Rightarrow> wchan option \<times> 'a sched_scheme" where
  "wchan_create name s =
     (let (ok, s1) = kmalloc s
      in if \<not> ok then (None, s1) else (Some \<lparr>wc_name = name, wc_threads = []\<rparr>, s1))"

definition wchan_destroy :: "wchan \<Rightarrow> 'a sched_scheme \<Rightarrow> 'a sched_scheme kres" where
  "wchan_destroy wc s = KASSERT (wc_threads wc = []) (Ret (kfree s))"

text \<open>
  \<open>wchan_sleep\<close> checks that the thread may sleep and switches away from it; in the calling
  thread nothing follows until somebody wakes it.
\<close>

definition wchan_sleep :: "'a sched_scheme \<Rightarrow> 'b kres" where
  "wchan_sleep s =
     KASSERT (\<not> in_interrupt s) (KASSERT (c_spinlocks (cur_cpu s) = 1) Sleeps)"

definition wchan_wakeone :: "wchan \<Rightarrow> 'a sched_scheme \<Rightarrow> (wchan \<times> 'a sched_scheme) kres" where
  "wchan_wakeone wc s =
     (case wc_threads wc of
        [] \<Rightarrow> Ret (wc, s)
      | target # rest \<Rightarrow>
          kbind (thread_make_runnable target False s)
            (\<lambda>s1. Ret (wc\<lparr>wc_threads := rest\<rparr>, s1)))"

fun make_all_runnable :: "tid list \<Rightarrow> 'a sched_scheme \<Rightarrow> 'a sched_scheme kres" where
  "make_all_runnable [] s = Ret s"
| "make_all_runnable (target # rest) s =
     kbind (thread_make_runnable target False s) (make_all_runnable rest)"

definition wchan_wakeall :: "wchan \<Rightarrow> 'a sched_scheme \<Rightarrow> (wchan \<times> 'a sched_scheme) kres" where
  "wchan_wakeall wc s =
     kbind (make_all_runnable (wc_threads wc) s) (\<lambda>s1. Ret (wc\<lparr>wc_threads := []\<rparr>, s1))"

definition wchan_isempty :: "wchan \<Rightarrow> bool" where
  "wchan_isempty wc = (wc_threads wc = [])"

section \<open>Lemmas\<close>

text \<open>\<open>sched_ok\<close>: there is a current CPU in the CPU array.\<close>

definition sched_ok :: "'a sched_scheme \<Rightarrow> bool" where
  "sched_ok s \<longleftrightarrow> curcpu_exists s \<and> curcpu s < length (allcpus s)"

lemma spinlock_release_acquire [simp]: "spinlock_release (spinlock_acquire s) = s"
  by (simp add: spinlock_release_def spinlock_acquire_def upd_cpu_def)
     (cases "curcpu s < length (allcpus s)"; simp add: list_update_beyond)

lemma c_spinlocks_acquire [simp]:
  "sched_ok s \<Longrightarrow> c_spinlocks (cur_cpu (spinlock_acquire s)) = c_spinlocks (cur_cpu s) + 1"
  by (simp add: spinlock_acquire_def upd_cpu_def cur_cpu_def sched_ok_def)

lemma in_interrupt_spinlock [simp]:
  "in_interrupt (spinlock_acquire s) = in_interrupt s"
  "in_interrupt (spinlock_release s) = in_interrupt s"
  by (simp_all add: in_interrupt_def spinlock_acquire_def spinlock_release_def upd_cpu_def)

lemma curthread_spinlock [simp]:
  "curthread (spinlock_acquire s) = curthread s"
  "curthread (spinlock_release s) = curthread s"
  by (simp_all add: spinlock_acquire_def spinlock_release_def upd_cpu_def)

lemma sched_ok_spinlock [simp]:
  "sched_ok (spinlock_acquire s) = sched_ok s"
  "sched_ok (spinlock_release s) = sched_ok s"
  by (simp_all add: sched_ok_def spinlock_acquire_def spinlock_release_def upd_cpu_def)

lemma wchan_wakeone_empty [simp]: "wc_threads wc = [] \<Longrightarrow> wchan_wakeone wc s = Ret (wc, s)"
  by (simp add: wchan_wakeone_def)

end
