(* ===== verification/Synch.thy ===== *)
theory Synch
  imports Threads
begin

text \<open>
  Semaphores, sleep locks and condition variables (\<open>kern/thread/synch.c\<close>, \<open>include/synch.h\<close>),
  built with \<open>OPT_SYNCH\<close> and \<open>USE_SEMAPHORE_FOR_LOCK\<close>: a lock is a binary semaphore and the
  thread that owns it. A primitive takes the object and the kernel state and returns the new
  object; where the C code would block, the outcome is \<open>Sleeps\<close>.
\<close>

section \<open>Data\<close>

record semaphore =
  sem_name :: string
  sem_wchan :: wchan
  sem_count :: w32

record lock =
  lk_name :: string
  lk_sem :: semaphore
  lk_owner :: "tid option"

record cv =
  cv_name :: string
  cv_wchan :: wchan

section \<open>Semaphores\<close>

definition sem_create ::
  "string \<Rightarrow> w32 \<Rightarrow> 'a sched_scheme \<Rightarrow> semaphore option \<times> 'a sched_scheme" where
  "sem_create name initial_count s =
     (let (ok, s1) = kmalloc s in
      if \<not> ok then (None, s1) else
      let (ok, s2) = kmalloc s1 in
      if \<not> ok then (None, kfree s2) else
      let (wc, s3) = wchan_create name s2 in
      case wc of
        None \<Rightarrow> (None, kfree (kfree s3))
      | Some wc \<Rightarrow>
          (Some \<lparr>sem_name = name, sem_wchan = wc, sem_count = initial_count\<rparr>, s3))"

definition sem_destroy :: "semaphore \<Rightarrow> 'a sched_scheme \<Rightarrow> 'a sched_scheme kres" where
  "sem_destroy sem s = kbind (wchan_destroy (sem_wchan sem) s) (\<lambda>s1. Ret (kfree (kfree s1)))"

text \<open>
  \<open>P\<close>: the loop \<open>while (sem->sem_count == 0) wchan_sleep(...)\<close> either falls through at once or
  puts the thread to sleep.
\<close>

definition sem_P :: "'a sched_scheme \<Rightarrow> semaphore \<Rightarrow> semaphore kres" where
  "sem_P s sem =
     KASSERT (\<not> in_interrupt s)
       (let s1 = spinlock_acquire s in
        if sem_count sem = 0 then wchan_sleep s1
        else KASSERT (sem_count sem > 0) (Ret (sem\<lparr>sem_count := sem_count sem - 1\<rparr>)))"

definition sem_V ::
  "'a sched_scheme \<Rightarrow> semaphore \<Rightarrow> (semaphore \<times> 'a sched_scheme) kres" where
  "sem_V s sem =
     (let s1 = spinlock_acquire s;
          sem1 = sem\<lparr>sem_count := sem_count sem + 1\<rparr>
      in KASSERT (sem_count sem1 > 0)
           (kbind (wchan_wakeone (sem_wchan sem1) s1)
             (\<lambda>(wc, s2). Ret (sem1\<lparr>sem_wchan := wc\<rparr>, spinlock_release s2))))"

section \<open>Locks\<close>

definition lock_create :: "string \<Rightarrow> 'a sched_scheme \<Rightarrow> lock option \<times> 'a sched_scheme" where
  "lock_create name s =
     (let (ok, s1) = kmalloc s in
      if \<not> ok then (None, s1) else
      let (ok, s2) = kmalloc s1 in
      if \<not> ok then (None, kfree s2) else
      let (sem, s3) = sem_create name 1 s2 in
      case sem of
        None \<Rightarrow> (None, kfree (kfree s3))
      | Some sem \<Rightarrow> (Some \<lparr>lk_name = name, lk_sem = sem, lk_owner = None\<rparr>, s3))"

definition lock_destroy :: "lock \<Rightarrow> 'a sched_scheme \<Rightarrow> 'a sched_scheme kres" where
  "lock_destroy lk s = kbind (sem_destroy (lk_sem lk) s) (\<lambda>s1. Ret (kfree (kfree s1)))"

definition lock_do_i_hold :: "'a sched_scheme \<Rightarrow> lock \<Rightarrow> bool" where
  "lock_do_i_hold s lk = (lk_owner lk = Some (curthread s))"

definition lock_acquire :: "'a sched_scheme \<Rightarrow> lock \<Rightarrow> lock kres" where
  "lock_acquire s lk =
     KASSERT (\<not> lock_do_i_hold s lk)
       (KASSERT (\<not> in_interrupt s)
         (kbind (sem_P s (lk_sem lk))
           (\<lambda>sem. KASSERT (lk_owner lk = None)
              (Ret (lk\<lparr>lk_sem := sem, lk_owner := Some (curthread s)\<rparr>)))))"

definition lock_release :: "'a sched_scheme \<Rightarrow> lock \<Rightarrow> (lock \<times> 'a sched_scheme) kres" where
  "lock_release s lk =
     KASSERT (lock_do_i_hold s lk)
       (let s1 = spinlock_acquire s in
        kbind (sem_V s1 (lk_sem lk))
          (\<lambda>(sem, s2). Ret (lk\<lparr>lk_sem := sem, lk_owner := None\<rparr>, spinlock_release s2)))"

section \<open>Condition variables\<close>

definition cv_create :: "string \<Rightarrow> 'a sched_scheme \<Rightarrow> cv option \<times> 'a sched_scheme" where
  "cv_create name s =
     (let (ok, s1) = kmalloc s in
      if \<not> ok then (None, s1) else
      let (ok, s2) = kmalloc s1 in
      if \<not> ok then (None, kfree s2) else
      let (wc, s3) = wchan_create name s2 in
      case wc of
        None \<Rightarrow> (None, kfree (kfree s3))
      | Some wc \<Rightarrow> (Some \<lparr>cv_name = name, cv_wchan = wc\<rparr>, s3))"

definition cv_destroy :: "cv \<Rightarrow> 'a sched_scheme \<Rightarrow> 'a sched_scheme kres" where
  "cv_destroy cv s = kbind (wchan_destroy (cv_wchan cv) s) (\<lambda>s1. Ret (kfree (kfree s1)))"

text \<open>
  The first half of \<open>cv_wait\<close>, up to the point where the thread sleeps: the lock is given up
  with the spinlock of the condition variable held, and the thread waits on its channel.
\<close>

definition cv_wait_enter ::
  "'a sched_scheme \<Rightarrow> cv \<Rightarrow> lock \<Rightarrow> (cv \<times> lock \<times> 'a sched_scheme) kres" where
  "cv_wait_enter s cv lk =
     KASSERT (lock_do_i_hold s lk)
       (let s1 = spinlock_acquire s in
        kbind (lock_release s1 lk)
          (\<lambda>(lk1, s2).
             KASSERT (\<not> in_interrupt s2)
              (KASSERT (c_spinlocks (cur_cpu s2) = 1)
                (Ret (cv\<lparr>cv_wchan :=
                   (cv_wchan cv)\<lparr>wc_threads := wc_threads (cv_wchan cv) @ [curthread s2]\<rparr>\<rparr>,
                  lk1,
                  spinlock_release
                    (upd_thread (curthread s2) (\<lambda>t. t\<lparr>t_state := S_SLEEP\<rparr>) s2))))))"

text \<open>
  The second half, when the thread has been woken: \<open>wchan_sleep\<close> takes the spinlock again, \<open>cv_wait\<close> gives it
  up and waits for the lock.
\<close>

definition cv_wait_resume :: "'a sched_scheme \<Rightarrow> lock \<Rightarrow> lock kres" where
  "cv_wait_resume s lk = (let s1 = spinlock_acquire s in lock_acquire (spinlock_release s1) lk)"

definition cv_signal ::
  "'a sched_scheme \<Rightarrow> cv \<Rightarrow> lock \<Rightarrow> (cv \<times> 'a sched_scheme) kres" where
  "cv_signal s cv lk =
     KASSERT (lock_do_i_hold s lk)
       (kbind (wchan_wakeone (cv_wchan cv) (spinlock_acquire s))
         (\<lambda>(wc, s1). Ret (cv\<lparr>cv_wchan := wc\<rparr>, spinlock_release s1)))"

definition cv_broadcast ::
  "'a sched_scheme \<Rightarrow> cv \<Rightarrow> lock \<Rightarrow> (cv \<times> 'a sched_scheme) kres" where
  "cv_broadcast s cv lk =
     KASSERT (lock_do_i_hold s lk)
       (kbind (wchan_wakeall (cv_wchan cv) (spinlock_acquire s))
         (\<lambda>(wc, s1). Ret (cv\<lparr>cv_wchan := wc\<rparr>, spinlock_release s1)))"

section \<open>States of a lock\<close>

text \<open>
  \<open>lock_idle\<close> is a lock nobody holds or waits for, \<open>lock_by t\<close> the same lock after thread \<open>t\<close>
  has acquired it.
\<close>

definition lock_idle :: "lock \<Rightarrow> bool" where
  "lock_idle lk \<longleftrightarrow>
     lk_owner lk = None \<and> sem_count (lk_sem lk) = 1 \<and> wc_threads (sem_wchan (lk_sem lk)) = []"

definition lock_by :: "tid \<Rightarrow> lock \<Rightarrow> lock" where
  "lock_by t lk = lk\<lparr>lk_sem := (lk_sem lk)\<lparr>sem_count := 0\<rparr>, lk_owner := Some t\<rparr>"

section \<open>The contract of a mutual exclusion lock\<close>

text \<open>
  What the VM system relies on: a free lock can be taken by a thread that may block, the
  thread then holds it, nobody can take it twice, and releasing it gives back the lock and
  leaves the rest of the kernel alone. \<open>may\<close> says when a thread may call the lock at all.
\<close>

locale mutex =
  fixes acquire :: "'s \<Rightarrow> 'l \<Rightarrow> 'l kres"
    and release :: "'s \<Rightarrow> 'l \<Rightarrow> ('l \<times> 's) kres"
    and holds :: "'s \<Rightarrow> 'l \<Rightarrow> bool"
    and idle :: "'l \<Rightarrow> bool"
    and taken :: "'s \<Rightarrow> 'l \<Rightarrow> 'l"
    and may :: "'s \<Rightarrow> bool"
  assumes acquire_idle: "may s \<Longrightarrow> idle l \<Longrightarrow> acquire s l = Ret (taken s l)"
    and taken_holds: "idle l \<Longrightarrow> holds s (taken s l)"
    and release_taken: "idle l \<Longrightarrow> release s (taken s l) = Ret (l, s)"
    and acquire_held: "holds s l \<Longrightarrow> acquire s l = Panic ''KASSERT''"
    and release_not_held: "\<not> holds s l \<Longrightarrow> release s l = Panic ''KASSERT''"
    and idle_not_held: "idle l \<Longrightarrow> \<not> holds s l"
begin

text \<open>A critical section whose body keeps the state's ability to lock returns the lock as it was.\<close>

lemma section_restores:
  assumes "may s" "idle l"
  shows "kbind (acquire s l) (\<lambda>l1. kbind (release s l1) f) = f (l, s)"
  using assms by (simp add: acquire_idle release_taken)

lemma no_reentry:
  assumes "may s" "idle l"
  shows "kbind (acquire s l) (acquire s) = Panic ''KASSERT''"
  using assms by (simp add: acquire_idle acquire_held taken_holds)

lemma leak_blocks:
  assumes "may s" "idle l" "acquire s l = Ret l1"
  shows "acquire s l1 = Panic ''KASSERT''"
  using assms by (metis acquire_held acquire_idle kres.inject(1) taken_holds)

end

section \<open>Lemmas\<close>

lemma word_gt_zero_succ: "(0 :: w32) < x \<longleftrightarrow> x \<noteq> 0"
  by (simp add: word_greater_zero_iff)

lemma sem_P_positive [kern_simps]:
  "\<not> in_interrupt s \<Longrightarrow> sem_count sem \<noteq> 0 \<Longrightarrow>
     sem_P s sem = Ret (sem\<lparr>sem_count := sem_count sem - 1\<rparr>)"
  by (simp add: sem_P_def word_gt_zero_succ Let_def)

lemma sem_V_no_waiter [kern_simps]:
  "sem_count sem + 1 \<noteq> 0 \<Longrightarrow> wc_threads (sem_wchan sem) = [] \<Longrightarrow>
     sem_V s sem = Ret (sem\<lparr>sem_count := sem_count sem + 1\<rparr>, s)"
  by (simp add: sem_V_def word_gt_zero_succ Let_def)

lemma lock_acquire_idle [kern_simps]:
  "\<not> in_interrupt s \<Longrightarrow> lock_idle lk \<Longrightarrow> lock_acquire s lk = Ret (lock_by (curthread s) lk)"
  by (simp add: lock_acquire_def lock_idle_def lock_do_i_hold_def kern_simps lock_by_def)

lemma lock_by_holds [simp]: "lock_do_i_hold s (lock_by t lk) \<longleftrightarrow> t = curthread s"
  by (auto simp: lock_do_i_hold_def lock_by_def)

lemma lock_release_by [kern_simps]:
  assumes "lock_idle lk" "t = curthread s"
  shows "lock_release s (lock_by t lk) = Ret (lk, s)"
proof -
  have "lk\<lparr>lk_sem := (lk_sem lk)\<lparr>sem_count := 1\<rparr>, lk_owner := None\<rparr> = lk"
    using assms(1) by (simp add: lock_idle_def)
  then show ?thesis
    using assms
    by (simp add: lock_release_def Let_def kern_simps lock_idle_def)
       (simp add: lock_by_def kern_simps)
qed

interpretation lk: mutex lock_acquire lock_release lock_do_i_hold lock_idle
  "\<lambda>s. lock_by (curthread s)" "\<lambda>s. \<not> in_interrupt s"
proof unfold_locales
  fix s :: "'a sched_scheme" and l :: lock
  show "lock_do_i_hold s l \<Longrightarrow> lock_acquire s l = Panic ''KASSERT''"
    by (simp add: lock_acquire_def)
  show "\<not> lock_do_i_hold s l \<Longrightarrow> lock_release s l = Panic ''KASSERT''"
    by (simp add: lock_release_def)
  show "lock_idle l \<Longrightarrow> \<not> lock_do_i_hold s l"
    by (simp add: lock_idle_def lock_do_i_hold_def)
qed (simp_all add: kern_simps)

end
