(* ===== verification/Proc.thy ===== *)
theory Proc
  imports Synch
begin

text \<open>
  Processes (\<open>kern/proc/proc.c\<close>, \<open>include/proc.h\<close>), built with \<open>OPT_WAITPID\<close> and
  \<open>USE_SEMAPHORE_FOR_WAITPID\<close>: the process structure, the table of pids, the threads of a
  process, its address space and the semaphore its parent waits on. A \<open>struct proc *\<close> is the
  number of a block; \<open>next_proc\<close> is the number \<open>kmalloc\<close> gives to the next one.
\<close>

section \<open>Data\<close>

record proc =
  p_name :: string
  p_numthreads :: nat
  p_addrspace :: "nat option"
  p_cwd :: "nat option"
  p_status :: int
  p_pid :: nat
  p_sem :: "semaphore option"

definition MAX_PROC :: nat where
  "MAX_PROC = 100"

record procs_st = sched +
  procs :: "nat \<Rightarrow> proc"
  next_proc :: nat
  kproc :: "nat option"
  ptab_active :: bool
  ptab_proc :: "nat option list"
  ptab_last_i :: nat

definition upd_proc :: "nat \<Rightarrow> (proc \<Rightarrow> proc) \<Rightarrow> 'a procs_st_scheme \<Rightarrow> 'a procs_st_scheme" where
  "upd_proc p f s = s\<lparr>procs := (procs s)(p := f (procs s p))\<rparr>"

definition curproc :: "'a procs_st_scheme \<Rightarrow> nat option" where
  "curproc s = t_proc (threads s (curthread s))"

section \<open>The table of pids\<close>

definition ptab_next :: "nat \<Rightarrow> nat" where
  "ptab_next i = (if i + 1 > MAX_PROC then 1 else i + 1)"

text \<open>
  The search of \<open>proc_init_waitpid\<close>: from the slot after the last one given out, around the
  table, until a free slot is found (\<open>Some (Some i)\<close>) or the search is back at the last one
  (\<open>Some None\<close>).
\<close>

partial_function (option) pid_search :: "nat option list \<Rightarrow> nat \<Rightarrow> nat \<Rightarrow> nat option option" where
  "pid_search tab last_i i =
     (if i = last_i then Some None
      else if tab ! i = None then Some (Some i)
      else pid_search tab last_i (ptab_next i))"

definition proc_init_waitpid ::
  "nat \<Rightarrow> string \<Rightarrow> 'a procs_st_scheme \<Rightarrow> 'a procs_st_scheme kres" where
  "proc_init_waitpid proc name s =
     (let s0 = upd_proc proc (\<lambda>p. p\<lparr>p_pid := 0\<rparr>) s in
      case pid_search (ptab_proc s0) (ptab_last_i s0) (ptab_next (ptab_last_i s0)) of
        None \<Rightarrow> Diverges
      | Some None \<Rightarrow> Panic ''too many processes. proc table is full''
      | Some (Some i) \<Rightarrow>
          let s1 = s0\<lparr>ptab_proc := (ptab_proc s0)[i := Some proc], ptab_last_i := i\<rparr>;
              s2 = upd_proc proc (\<lambda>p. p\<lparr>p_pid := i, p_status := 0\<rparr>) s1;
              (sem, s3) = sem_create name 0 s2
          in Ret (upd_proc proc (\<lambda>p. p\<lparr>p_sem := sem\<rparr>) s3))"

definition proc_end_waitpid :: "nat \<Rightarrow> 'a procs_st_scheme \<Rightarrow> 'a procs_st_scheme kres" where
  "proc_end_waitpid proc s =
     (let i = p_pid (procs s proc) in
      KASSERT (i > 0 \<and> i \<le> MAX_PROC)
        (let s1 = s\<lparr>ptab_proc := (ptab_proc s)[i := None]\<rparr> in
         case p_sem (procs s1 proc) of
           None \<Rightarrow> Panic ''KASSERT''
         | Some sem \<Rightarrow> sem_destroy sem s1))"

definition proc_search_pid :: "int \<Rightarrow> 'a procs_st_scheme \<Rightarrow> nat option kres" where
  "proc_search_pid pid s =
     KASSERT (pid \<ge> 0 \<and> pid < int MAX_PROC)
       (case ptab_proc s ! nat pid of
          None \<Rightarrow> Undef
        | Some p \<Rightarrow> KASSERT (int (p_pid (procs s p)) = pid) (Ret (Some p)))"

section \<open>Creation\<close>

definition proc_create ::
  "string \<Rightarrow> 'a procs_st_scheme \<Rightarrow> (nat option \<times> 'a procs_st_scheme) kres" where
  "proc_create name s =
     (let (ok, s1) = kmalloc s in
      if \<not> ok then Ret (None, s1) else
      let proc = next_proc s1;
          s2 = s1\<lparr>next_proc := proc + 1\<rparr>;
          (ok, s3) = kmalloc s2 in
      if \<not> ok then Ret (None, kfree s3) else
      let s4 = upd_proc proc
            (\<lambda>p. p\<lparr>p_name := name, p_numthreads := 0, p_addrspace := None, p_cwd := None\<rparr>) s3
      in kbind (proc_init_waitpid proc name s4) (\<lambda>s5. Ret (Some proc, s5)))"

definition proc_bootstrap :: "'a procs_st_scheme \<Rightarrow> 'a procs_st_scheme kres" where
  "proc_bootstrap s =
     kbind (proc_create ''[kernel]'' s)
       (\<lambda>(p, s1). case p of
           None \<Rightarrow> Panic ''proc_create for kproc failed''
         | Some k \<Rightarrow> Ret (s1\<lparr>kproc := Some k, ptab_active := True\<rparr>))"

definition proc_create_runprogram ::
  "string \<Rightarrow> 'a procs_st_scheme \<Rightarrow> (nat option \<times> 'a procs_st_scheme) kres" where
  "proc_create_runprogram name s =
     kbind (proc_create name s)
       (\<lambda>(p, s1). case p of
           None \<Rightarrow> Ret (None, s1)
         | Some newproc \<Rightarrow>
             let s2 = upd_proc newproc (\<lambda>p. p\<lparr>p_addrspace := None\<rparr>) s1 in
             case curproc s2 of
               None \<Rightarrow> Undef
             | Some c \<Rightarrow>
                 Ret (Some newproc,
                   (case p_cwd (procs s2 c) of
                      None \<Rightarrow> s2
                    | Some d \<Rightarrow> upd_proc newproc (\<lambda>p. p\<lparr>p_cwd := Some d\<rparr>) s2)))"

section \<open>Threads of a process and its address space\<close>

definition proc_addthread :: "nat \<Rightarrow> tid \<Rightarrow> 'a procs_st_scheme \<Rightarrow> 'a procs_st_scheme kres" where
  "proc_addthread proc t s =
     KASSERT (t_proc (threads s t) = None)
       (Ret (upd_thread t (\<lambda>th. th\<lparr>t_proc := Some proc\<rparr>)
          (upd_proc proc (\<lambda>p. p\<lparr>p_numthreads := p_numthreads p + 1\<rparr>) s)))"

definition proc_remthread :: "tid \<Rightarrow> 'a procs_st_scheme \<Rightarrow> 'a procs_st_scheme kres" where
  "proc_remthread t s =
     (case t_proc (threads s t) of
        None \<Rightarrow> Panic ''KASSERT''
      | Some proc \<Rightarrow>
          KASSERT (p_numthreads (procs s proc) > 0)
            (Ret (upd_thread t (\<lambda>th. th\<lparr>t_proc := None\<rparr>)
               (upd_proc proc (\<lambda>p. p\<lparr>p_numthreads := p_numthreads p - 1\<rparr>) s))))"

definition proc_getas :: "'a procs_st_scheme \<Rightarrow> nat option" where
  "proc_getas s = (case curproc s of None \<Rightarrow> None | Some p \<Rightarrow> p_addrspace (procs s p))"

definition proc_setas ::
  "nat option \<Rightarrow> 'a procs_st_scheme \<Rightarrow> (nat option \<times> 'a procs_st_scheme) kres" where
  "proc_setas newas s =
     (case curproc s of
        None \<Rightarrow> Panic ''KASSERT''
      | Some p \<Rightarrow>
          Ret (p_addrspace (procs s p), upd_proc p (\<lambda>pr. pr\<lparr>p_addrspace := newas\<rparr>) s))"

definition proc_signal_end :: "nat \<Rightarrow> 'a procs_st_scheme \<Rightarrow> 'a procs_st_scheme kres" where
  "proc_signal_end proc s =
     (case p_sem (procs s proc) of
        None \<Rightarrow> Panic ''KASSERT''
      | Some sem \<Rightarrow>
          kbind (sem_V s sem) (\<lambda>(sem1, s1). Ret (upd_proc proc (\<lambda>p. p\<lparr>p_sem := Some sem1\<rparr>) s1)))"

end
