(* ===== verification/VM_Stats.thy ===== *)
theory VM_Stats
  imports Proc
begin

text \<open>
  The statistics counters of the VM system (\<open>kern/vm/vmstats.c\<close>, \<open>include/vmstats.h\<close>): ten
  unsigned counters behind a sleep lock that is only taken where the caller may sleep, and the
  consistency checks \<open>vm_stats_print\<close> makes on them at shutdown.
\<close>

section \<open>Data\<close>

definition TLB_FAULT :: nat where "TLB_FAULT = 0"
definition TLB_FAULT_WITH_FREE :: nat where "TLB_FAULT_WITH_FREE = 1"
definition TLB_FAULT_WITH_REPLACE :: nat where "TLB_FAULT_WITH_REPLACE = 2"
definition TLB_INVALIDATION :: nat where "TLB_INVALIDATION = 3"
definition TLB_RELOAD :: nat where "TLB_RELOAD = 4"
definition PAGE_FAULT_ZEROED :: nat where "PAGE_FAULT_ZEROED = 5"
definition PAGE_FAULT_DISK :: nat where "PAGE_FAULT_DISK = 6"
definition ELF_READ :: nat where "ELF_READ = 7"
definition SWAP_READ :: nat where "SWAP_READ = 8"
definition SWAP_WRITE :: nat where "SWAP_WRITE = 9"
definition STATS_TOT :: nat where "STATS_TOT = 10"

lemmas stat_index_defs = TLB_FAULT_def TLB_FAULT_WITH_FREE_def TLB_FAULT_WITH_REPLACE_def
  TLB_INVALIDATION_def TLB_RELOAD_def PAGE_FAULT_ZEROED_def PAGE_FAULT_DISK_def ELF_READ_def
  SWAP_READ_def SWAP_WRITE_def STATS_TOT_def

record stats_st = procs_st +
  counters :: "w32 list"
  stats_lock :: lock

section \<open>Operations\<close>

definition vm_stats_init :: "'a stats_st_scheme \<Rightarrow> 'a stats_st_scheme kres" where
  "vm_stats_init s =
     (let s1 = s\<lparr>counters := replicate STATS_TOT 0\<rparr>;
          (l, s2) = lock_create ''STATS_lock'' s1
      in case l of
           None \<Rightarrow> Panic ''Stats lock was not created succesfully''
         | Some lk \<Rightarrow> Ret (s2\<lparr>stats_lock := lk\<rparr>))"

definition vm_stats_inc_unlocked :: "nat \<Rightarrow> 'a stats_st_scheme \<Rightarrow> 'a stats_st_scheme kres" where
  "vm_stats_inc_unlocked index s =
     KASSERT (index < STATS_TOT)
       (Ret (s\<lparr>counters := (counters s)[index := counters s ! index + 1]\<rparr>))"

definition vm_stats_inc :: "nat \<Rightarrow> 'a stats_st_scheme \<Rightarrow> 'a stats_st_scheme kres" where
  "vm_stats_inc index s =
     (if checkcanLock s = 0 then
        kbind (lock_acquire s (stats_lock s)) (\<lambda>l1.
        kbind (vm_stats_inc_unlocked index (s\<lparr>stats_lock := l1\<rparr>)) (\<lambda>s1.
        kbind (lock_release s1 (stats_lock s1)) (\<lambda>(l2, s2).
        Ret (s2\<lparr>stats_lock := l2\<rparr>))))
      else vm_stats_inc_unlocked index s)"

text \<open>
  What \<open>vm_stats_print\<close> prints beside the counters themselves: the three sums, and for each
  whether the line \<open>INCONSISTENCY\<close> follows it. It then destroys the lock.
\<close>

record stats_report =
  tot_tlb :: w32
  tlb_inconsistent :: bool
  dzr_sum :: w32
  dzr_inconsistent :: bool
  disk_sum :: w32
  disk_inconsistent :: bool

definition stats_report_of :: "w32 list \<Rightarrow> stats_report" where
  "stats_report_of c =
     (let faults = c ! TLB_FAULT;
          tot = c ! TLB_FAULT_WITH_FREE + c ! TLB_FAULT_WITH_REPLACE;
          dzr = c ! PAGE_FAULT_DISK + c ! PAGE_FAULT_ZEROED + c ! TLB_RELOAD;
          dsum = c ! ELF_READ + c ! SWAP_READ;
          disk = c ! PAGE_FAULT_DISK
      in \<lparr>tot_tlb = tot, tlb_inconsistent = (faults \<noteq> tot),
          dzr_sum = dzr, dzr_inconsistent = (faults \<noteq> dzr),
          disk_sum = dsum, disk_inconsistent = (disk \<noteq> dsum)\<rparr>)"

definition vm_stats_print ::
  "'a stats_st_scheme \<Rightarrow> (stats_report \<times> 'a stats_st_scheme) kres" where
  "vm_stats_print s =
     kbind (lock_acquire s (stats_lock s)) (\<lambda>l1.
       let s1 = s\<lparr>stats_lock := l1\<rparr>; r = stats_report_of (counters s1) in
       kbind (lock_release s1 (stats_lock s1)) (\<lambda>(l2, s2).
       kbind (lock_destroy l2 (s2\<lparr>stats_lock := l2\<rparr>)) (\<lambda>s3. Ret (r, s3))))"

section \<open>Readiness and the effect of counting\<close>

text \<open>
  \<open>can_lock s\<close>: a running CPU with no spinlock held and no interrupt being handled, which is
  when the kernel may block. \<open>stats_ok\<close>: ten counters, and nobody holds their lock.
\<close>

definition can_lock :: "'a sched_scheme \<Rightarrow> bool" where
  "can_lock s \<longleftrightarrow> sched_ok s \<and> c_spinlocks (cur_cpu s) = 0 \<and> \<not> in_interrupt s"

definition stats_ok :: "'a stats_st_scheme \<Rightarrow> bool" where
  "stats_ok s \<longleftrightarrow> length (counters s) = STATS_TOT \<and> lock_idle (stats_lock s)"

definition bump :: "nat \<Rightarrow> 'a stats_st_scheme \<Rightarrow> 'a stats_st_scheme" where
  "bump index s = s\<lparr>counters := (counters s)[index := counters s ! index + 1]\<rparr>"

text \<open>The three identities between the counters that \<open>vm_stats_print\<close> checks.\<close>

definition stats_consistent :: "'a stats_st_scheme \<Rightarrow> bool" where
  "stats_consistent s \<longleftrightarrow>
     (let r = stats_report_of (counters s)
      in \<not> tlb_inconsistent r \<and> \<not> dzr_inconsistent r \<and> \<not> disk_inconsistent r)"

section \<open>Lemmas\<close>

lemma checkcanLock_can_lock: "can_lock s \<Longrightarrow> checkcanLock s = 0"
  by (simp add: checkcanLock_def can_lock_def sched_ok_def)

lemma can_lockD:
  assumes "can_lock s"
  shows "sched_ok s" "\<not> in_interrupt s" "c_spinlocks (cur_cpu s) = 0"
  using assms by (simp_all add: can_lock_def)

lemma vm_stats_inc_ready [kern_simps]:
  assumes "stats_ok s" "index < STATS_TOT"
  shows "vm_stats_inc index s = Ret (bump index s)"
proof (cases "checkcanLock s = 0")
  case True
  then have "\<not> in_interrupt s" by (auto simp: checkcanLock_def split: if_splits)
  then have "lock_acquire s (stats_lock s) = Ret (lock_by (curthread s) (stats_lock s))"
    using assms by (simp add: kern_simps stats_ok_def)
  moreover have "lock_release t (lock_by (curthread s) (stats_lock s)) = Ret (stats_lock s, t)"
    if "curthread t = curthread s" for t :: "'a stats_st_scheme"
    using assms that by (simp add: kern_simps stats_ok_def)
  ultimately show ?thesis
    using True assms
    by (simp add: vm_stats_inc_def vm_stats_inc_unlocked_def bump_def)
next
  case False
  with assms show ?thesis
    by (simp add: vm_stats_inc_def vm_stats_inc_unlocked_def bump_def)
qed

lemma stats_ok_bump [simp]: "stats_ok (bump i s) = stats_ok s"
  by (simp add: stats_ok_def bump_def)

lemma can_lock_bump [simp]: "can_lock (bump i s) = can_lock s"
  by (simp add: can_lock_def bump_def sched_ok_def cur_cpu_def in_interrupt_def)

lemma counters_bump: "counters (bump i s) = (counters s)[i := counters s ! i + 1]"
  by (simp add: bump_def)

end
