(* ===== verification/VM_TLB.thy ===== *)
theory VM_TLB
  imports VM_Stats
begin

text \<open>
  Management of the software-loaded TLB (\<open>kern/vm/vm_tlb.c\<close>, \<open>include/vm_tlb.h\<close>). The three
  instructions on the TLB itself (\<open>tlb_read\<close>, \<open>tlb_write\<close>, \<open>tlb_probe\<close>) are a parameter, as is
  the type \<open>'h\<close> of the hardware's state; \<open>tlb_laws\<close> is what \<open>mips/tlb.h\<close> documents of them.
  The interrupt level changes that bracket each operation make it atomic and are not modelled.
\<close>

section \<open>The hardware interface\<close>

record 'h tlb_ops =
  tlb_read :: "nat \<Rightarrow> 'h \<Rightarrow> w32 \<times> w32"
  tlb_write :: "w32 \<Rightarrow> w32 \<Rightarrow> nat \<Rightarrow> 'h \<Rightarrow> 'h"
  tlb_probe :: "w32 \<Rightarrow> w32 \<Rightarrow> 'h \<Rightarrow> int"

definition NUM_TLB :: nat where "NUM_TLB = 64"
definition TLBLO_VALID :: w32 where "TLBLO_VALID = 0x200"
definition TLBLO_DIRTY :: w32 where "TLBLO_DIRTY = 0x400"
definition TLBLO_INVALID :: w32 where "TLBLO_INVALID = 0"
definition TLBHI_INVALID :: "nat \<Rightarrow> w32" where
  "TLBHI_INVALID i = push_bit 12 (0x80000 + of_nat i)"

text \<open>
  A write to a slot is what the next read of that slot gives and touches no other slot; a
  probe returns a slot with the wanted page number, or a negative number if there is none.
\<close>

definition tlb_laws :: "('h, 'x) tlb_ops_scheme \<Rightarrow> bool" where
  "tlb_laws T \<longleftrightarrow>
     (\<forall>hi lo i j h. i < NUM_TLB \<longrightarrow> j < NUM_TLB \<longrightarrow>
        tlb_read T j (tlb_write T hi lo i h) = (if j = i then (hi, lo) else tlb_read T j h)) \<and>
     (\<forall>hi lo h. tlb_probe T hi lo h \<ge> 0 \<longrightarrow>
        nat (tlb_probe T hi lo h) < NUM_TLB \<and>
        fst (tlb_read T (nat (tlb_probe T hi lo h)) h) AND PAGE_FRAME = hi AND PAGE_FRAME) \<and>
     (\<forall>hi lo h. tlb_probe T hi lo h < 0 \<longrightarrow>
        (\<forall>i<NUM_TLB. fst (tlb_read T i h) AND PAGE_FRAME \<noteq> hi AND PAGE_FRAME))"

section \<open>State and operations\<close>

record 'h tlb_st = stats_st +
  tlb_hw :: 'h
  tlb_full :: bool
  next_victim :: nat

definition tlb_get_rr_victim :: "('h, 'a) tlb_st_scheme \<Rightarrow> nat \<times> ('h, 'a) tlb_st_scheme" where
  "tlb_get_rr_victim s =
     (next_victim s, s\<lparr>next_victim := (next_victim s + 1) mod NUM_TLB\<rparr>)"

definition tlb_entrylo :: "paddr_t \<Rightarrow> bool \<Rightarrow> w32" where
  "tlb_entrylo paddr readOnly = paddr OR (if readOnly then 0 else TLBLO_DIRTY) OR TLBLO_VALID"

definition tlb_loadentry ::
  "('h, 'x) tlb_ops_scheme \<Rightarrow> vaddr_t \<Rightarrow> paddr_t \<Rightarrow> bool \<Rightarrow> ('h, 'a) tlb_st_scheme \<Rightarrow>
     (kerr \<times> ('h, 'a) tlb_st_scheme) kres" where
  "tlb_loadentry T faultaddress paddr readOnly s =
     (let elo = tlb_entrylo paddr readOnly;
          free = (if tlb_full s then None
                  else first_idx (\<lambda>i. snd (tlb_read T i (tlb_hw s)) AND TLBLO_VALID = 0) 0 NUM_TLB)
      in case free of
           Some i \<Rightarrow>
             kbind (vm_stats_inc TLB_FAULT_WITH_FREE
                     (s\<lparr>tlb_hw := tlb_write T faultaddress elo i (tlb_hw s)\<rparr>))
               (\<lambda>s1. Ret (None, s1))
         | None \<Rightarrow>
             let (k, s1) = tlb_get_rr_victim (s\<lparr>tlb_full := True\<rparr>) in
             kbind (vm_stats_inc TLB_FAULT_WITH_REPLACE
                     (s1\<lparr>tlb_hw := tlb_write T faultaddress elo k (tlb_hw s1)\<rparr>))
               (\<lambda>s2. Ret (None, s2)))"

fun tlb_invalidate_from :: "('h, 'x) tlb_ops_scheme \<Rightarrow> nat \<Rightarrow> nat \<Rightarrow> 'h \<Rightarrow> 'h" where
  "tlb_invalidate_from T i 0 h = h"
| "tlb_invalidate_from T i (Suc n) h =
     tlb_invalidate_from T (Suc i) n (tlb_write T (TLBHI_INVALID i) TLBLO_INVALID i h)"

definition tlb_invalidate ::
  "('h, 'x) tlb_ops_scheme \<Rightarrow> ('h, 'a) tlb_st_scheme \<Rightarrow> ('h, 'a) tlb_st_scheme kres" where
  "tlb_invalidate T s =
     vm_stats_inc TLB_INVALIDATION (s\<lparr>tlb_hw := tlb_invalidate_from T 0 NUM_TLB (tlb_hw s)\<rparr>)"

definition tlb_invalidate_vaddr ::
  "('h, 'x) tlb_ops_scheme \<Rightarrow> vaddr_t \<Rightarrow> ('h, 'a) tlb_st_scheme \<Rightarrow> ('h, 'a) tlb_st_scheme" where
  "tlb_invalidate_vaddr T vaddr s =
     (let va = vaddr AND PAGE_FRAME; i = tlb_probe T va 0 (tlb_hw s) in
      if i \<ge> 0
      then s\<lparr>tlb_hw := tlb_write T (TLBHI_INVALID (nat i)) TLBLO_INVALID (nat i) (tlb_hw s)\<rparr>
      else s)"

definition vm_tlbshootdown :: "w32 \<Rightarrow> 'b kres" where
  "vm_tlbshootdown ts = Panic ''dumbvm tried to do tlb shootdown?!''"

section \<open>What the TLB translates\<close>

text \<open>
  \<open>tlb_wf\<close>: every slot holds either the invalid entry of that slot or a valid mapping of a user
  page, and no page is mapped twice. \<open>tlb_lookup va\<close> is the entry the hardware would use for
  the page at \<open>va\<close>.
\<close>

definition tlb_slot :: "('h, 'x) tlb_ops_scheme \<Rightarrow> ('h, 'a) tlb_st_scheme \<Rightarrow> nat \<Rightarrow> w32 \<times> w32" where
  "tlb_slot T s i = tlb_read T i (tlb_hw s)"

definition user_page :: "vaddr_t \<Rightarrow> bool" where
  "user_page va \<longleftrightarrow> va < 0x80000000 \<and> va AND PAGE_FRAME = va"

definition slot_valid :: "w32 \<times> w32 \<Rightarrow> bool" where
  "slot_valid e \<longleftrightarrow> snd e AND TLBLO_VALID \<noteq> 0"

definition tlb_wf :: "('h, 'x) tlb_ops_scheme \<Rightarrow> ('h, 'a) tlb_st_scheme \<Rightarrow> bool" where
  "tlb_wf T s \<longleftrightarrow>
     next_victim s < NUM_TLB \<and>
     (\<forall>i<NUM_TLB. tlb_slot T s i = (TLBHI_INVALID i, TLBLO_INVALID) \<or>
        slot_valid (tlb_slot T s i) \<and> user_page (fst (tlb_slot T s i))) \<and>
     (\<forall>i<NUM_TLB. \<forall>j<NUM_TLB. slot_valid (tlb_slot T s i) \<longrightarrow> slot_valid (tlb_slot T s j) \<longrightarrow>
        fst (tlb_slot T s i) = fst (tlb_slot T s j) \<longrightarrow> i = j)"

definition tlb_lookup :: "('h, 'x) tlb_ops_scheme \<Rightarrow> ('h, 'a) tlb_st_scheme \<Rightarrow> vaddr_t \<rightharpoonup> w32" where
  "tlb_lookup T s va =
     map_option (\<lambda>i. snd (tlb_slot T s i))
       (first_idx (\<lambda>i. slot_valid (tlb_slot T s i) \<and> fst (tlb_slot T s i) = va) 0 NUM_TLB)"

text \<open>The slot a load writes: the first invalid one as long as the TLB has never been full.\<close>

definition tlb_free :: "('h, 'x) tlb_ops_scheme \<Rightarrow> ('h, 'a) tlb_st_scheme \<Rightarrow> nat option" where
  "tlb_free T s = (if tlb_full s then None
     else first_idx (\<lambda>i. snd (tlb_read T i (tlb_hw s)) AND TLBLO_VALID = 0) 0 NUM_TLB)"

definition tlb_target :: "('h, 'x) tlb_ops_scheme \<Rightarrow> ('h, 'a) tlb_st_scheme \<Rightarrow> nat" where
  "tlb_target T s = (case tlb_free T s of Some i \<Rightarrow> i | None \<Rightarrow> next_victim s)"

text \<open>The victims of \<open>n\<close> replacements in a row.\<close>

fun rr_victims :: "nat \<Rightarrow> ('h, 'a) tlb_st_scheme \<Rightarrow> nat list" where
  "rr_victims 0 s = []"
| "rr_victims (Suc n) s =
     (let (k, s1) = tlb_get_rr_victim s in k # rr_victims n s1)"

section \<open>Lemmas\<close>

lemma tlb_read_write:
  assumes "tlb_laws T" "i < NUM_TLB" "j < NUM_TLB"
  shows "tlb_read T j (tlb_write T hi lo i h) = (if j = i then (hi, lo) else tlb_read T j h)"
  using assms unfolding tlb_laws_def by blast

lemma tlb_slot_write:
  assumes "tlb_laws T" "i < NUM_TLB" "j < NUM_TLB"
  shows "tlb_slot T (s\<lparr>tlb_hw := tlb_write T hi lo i h\<rparr>) j = (if j = i then (hi, lo) else tlb_read T j h)"
  using assms by (simp add: tlb_slot_def tlb_read_write)

lemma tlb_entrylo_valid: "tlb_entrylo p ro AND TLBLO_VALID \<noteq> 0"
proof -
  have "tlb_entrylo p ro AND TLBLO_VALID = TLBLO_VALID"
    unfolding tlb_entrylo_def by (rule bit_word_eqI) (auto simp: bit_simps)
  then show ?thesis by (simp add: TLBLO_VALID_def)
qed

lemma slot_valid_entrylo [simp]: "slot_valid (hi, tlb_entrylo p ro)"
  by (simp add: slot_valid_def tlb_entrylo_valid)

lemma slot_valid_invalid [simp]: "\<not> slot_valid (hi, TLBLO_INVALID)"
  by (simp add: slot_valid_def TLBLO_INVALID_def)

lemma TLBHI_INVALID_not_user:
  assumes "i < NUM_TLB"
  shows "\<not> TLBHI_INVALID i < 0x80000000"
proof -
  have "TLBHI_INVALID i = of_nat ((0x80000 + i) * 4096)"
    by (simp add: TLBHI_INVALID_def push_bit_eq_mult)
  then have "unat (TLBHI_INVALID i) = (0x80000 + i) * 4096"
    using assms by (simp only: unat_of_nat) (simp add: NUM_TLB_def)
  then show ?thesis by (simp add: word_less_nat_alt)
qed

lemma TLBHI_INVALID_aligned: "TLBHI_INVALID i AND PAGE_FRAME = TLBHI_INVALID i"
proof -
  have "push_bit 12 x AND PAGE_FRAME = push_bit 12 x" for x :: w32
    by (rule bit_word_eqI) (auto simp: bit_simps PAGE_FRAME_eq)
  then show ?thesis by (simp only: TLBHI_INVALID_def)
qed

lemma tlb_wf_unique:
  assumes "tlb_wf T s" "i < NUM_TLB" "j < NUM_TLB" "slot_valid (tlb_slot T s i)"
    "slot_valid (tlb_slot T s j)" "fst (tlb_slot T s i) = fst (tlb_slot T s j)"
  shows "i = j"
  using assms unfolding tlb_wf_def by blast

lemma tlb_lookup_Some_iff:
  assumes "tlb_wf T s"
  shows "tlb_lookup T s va = Some e \<longleftrightarrow>
    (\<exists>i<NUM_TLB. slot_valid (tlb_slot T s i) \<and> tlb_slot T s i = (va, e))"
proof -
  let ?P = "\<lambda>i. slot_valid (tlb_slot T s i) \<and> fst (tlb_slot T s i) = va"
  have "first_idx ?P 0 NUM_TLB = Some i \<longleftrightarrow> i < NUM_TLB \<and> ?P i" for i
  proof
    assume i: "i < NUM_TLB \<and> ?P i"
    have "\<not> ?P k" if "k < i" for k
      using tlb_wf_unique [OF assms, of k i] i that by auto
    with i show "first_idx ?P 0 NUM_TLB = Some i" by (simp add: first_idx_Some_iff)
  qed (simp add: first_idx_Some_iff)
  then show ?thesis
    unfolding tlb_lookup_def map_option_eq_Some by (simp only: prod_eq_iff fst_conv snd_conv) blast
qed

lemma tlb_lookup_None_iff:
  "tlb_lookup T s va = None \<longleftrightarrow>
    (\<forall>i<NUM_TLB. slot_valid (tlb_slot T s i) \<longrightarrow> fst (tlb_slot T s i) \<noteq> va)"
  by (auto simp: tlb_lookup_def first_idx_None_iff)

subsection \<open>Loading an entry\<close>

lemma stats_ok_tlb_upd [simp]:
  "stats_ok (s\<lparr>tlb_hw := h\<rparr>) = stats_ok s"
  "stats_ok (s\<lparr>tlb_full := b\<rparr>) = stats_ok s"
  "stats_ok (s\<lparr>next_victim := n\<rparr>) = stats_ok s"
  by (simp_all add: stats_ok_def)

lemma tlb_loadentry_eq:
  assumes "stats_ok s"
  shows "tlb_loadentry T fa p ro s = Ret (None,
     (case tlb_free T s of
        Some i \<Rightarrow> bump TLB_FAULT_WITH_FREE (s\<lparr>tlb_hw := tlb_write T fa (tlb_entrylo p ro) i (tlb_hw s)\<rparr>)
      | None \<Rightarrow> bump TLB_FAULT_WITH_REPLACE
          (s\<lparr>tlb_full := True, next_victim := (next_victim s + 1) mod NUM_TLB,
             tlb_hw := tlb_write T fa (tlb_entrylo p ro) (next_victim s) (tlb_hw s)\<rparr>)))"
  using assms
  by (simp add: tlb_loadentry_def tlb_free_def [symmetric] tlb_get_rr_victim_def Let_def kern_simps
      stat_index_defs split: option.splits)

lemma tlb_target_bound:
  assumes "tlb_wf T s"
  shows "tlb_target T s < NUM_TLB"
  using assms
  by (auto simp: tlb_target_def tlb_free_def tlb_wf_def dest: first_idx_SomeD split: option.splits if_splits)

lemma tlb_loadentry_slot:
  assumes "stats_ok s" "tlb_laws T" "tlb_wf T s" "tlb_loadentry T fa p ro s = Ret (r, s')" "j < NUM_TLB"
  shows "tlb_slot T s' j = (if j = tlb_target T s then (fa, tlb_entrylo p ro) else tlb_slot T s j)"
  using assms tlb_target_bound [OF assms(3)]
  by (auto simp: tlb_loadentry_eq tlb_target_def bump_def tlb_slot_def tlb_read_write split: option.splits)

lemma tlb_loadentry_next_victim:
  assumes "stats_ok s" "tlb_wf T s" "tlb_loadentry T fa p ro s = Ret (r, s')"
  shows "next_victim s' < NUM_TLB"
  using assms
  by (auto simp: tlb_loadentry_eq bump_def tlb_wf_def NUM_TLB_def split: option.splits)

lemma tlb_loadentry_wf:
  assumes "stats_ok s" "tlb_laws T" "tlb_wf T s" "tlb_loadentry T fa p ro s = Ret (r, s')"
    and "user_page fa" "tlb_lookup T s fa = None"
  shows "tlb_wf T s'"
proof -
  note slot = tlb_loadentry_slot [OF assms(1-4)]
  have none: "slot_valid (tlb_slot T s i) \<longrightarrow> fst (tlb_slot T s i) \<noteq> fa" if "i < NUM_TLB" for i
    using assms(6) that by (simp add: tlb_lookup_None_iff)
  show ?thesis
    unfolding tlb_wf_def
  proof (intro conjI allI impI)
    show "next_victim s' < NUM_TLB"
      using assms(1,3,4) by (rule tlb_loadentry_next_victim)
  next
    fix i assume i: "i < NUM_TLB"
    show "tlb_slot T s' i = (TLBHI_INVALID i, TLBLO_INVALID) \<or>
        slot_valid (tlb_slot T s' i) \<and> user_page (fst (tlb_slot T s' i))"
      using assms(3,5) i by (auto simp: slot tlb_wf_def)
  next
    fix i j assume "i < NUM_TLB" "j < NUM_TLB" "slot_valid (tlb_slot T s' i)"
      "slot_valid (tlb_slot T s' j)" "fst (tlb_slot T s' i) = fst (tlb_slot T s' j)"
    then show "i = j"
      using assms(3) none unfolding tlb_wf_def by (auto simp: slot split: if_splits)
  qed
qed

lemma tlb_loadentry_lookup:
  assumes "stats_ok s" "tlb_laws T" "tlb_wf T s" "tlb_loadentry T fa p ro s = Ret (r, s')"
    and "user_page fa" "tlb_lookup T s fa = None"
  shows "tlb_lookup T s' = (\<lambda>va. if va = fa then Some (tlb_entrylo p ro)
      else if slot_valid (tlb_slot T s (tlb_target T s)) \<and> fst (tlb_slot T s (tlb_target T s)) = va
      then None else tlb_lookup T s va)"
proof (rule ext)
  fix va
  note slot = tlb_loadentry_slot [OF assms(1-4)]
  note wf' = tlb_loadentry_wf [OF assms]
  note tb = tlb_target_bound [OF assms(3)]
  have self: "tlb_lookup T s' fa = Some (tlb_entrylo p ro)"
    using tb slot [OF tb] by (auto simp: tlb_lookup_Some_iff [OF wf'])
  have other: "tlb_lookup T s' va = Some e \<longleftrightarrow> (\<exists>i<NUM_TLB. i \<noteq> tlb_target T s \<and>
      slot_valid (tlb_slot T s i) \<and> tlb_slot T s i = (va, e))" if "va \<noteq> fa" for e
    using that by (auto simp: tlb_lookup_Some_iff [OF wf'] slot split: if_splits)
  have uniq: "i = j" if "i < NUM_TLB" "j < NUM_TLB" "slot_valid (tlb_slot T s i)"
      "slot_valid (tlb_slot T s j)" "fst (tlb_slot T s i) = fst (tlb_slot T s j)" for i j
    using assms(3) that unfolding tlb_wf_def by blast
  show "tlb_lookup T s' va = (if va = fa then Some (tlb_entrylo p ro)
      else if slot_valid (tlb_slot T s (tlb_target T s)) \<and> fst (tlb_slot T s (tlb_target T s)) = va
      then None else tlb_lookup T s va)"
  proof (cases "va = fa")
    case True
    with self show ?thesis by simp
  next
    case False
    show ?thesis
    proof (rule option.exhaust [of "tlb_lookup T s' va"])
      assume none: "tlb_lookup T s' va = None"
      then have "tlb_lookup T s va = None"
        if "\<not> (slot_valid (tlb_slot T s (tlb_target T s)) \<and> fst (tlb_slot T s (tlb_target T s)) = va)"
        using that False other tlb_lookup_Some_iff [OF assms(3)]
        by (metis fst_conv option.distinct(1) option.exhaust)
      with False none show ?thesis by simp
    next
      fix e assume e: "tlb_lookup T s' va = Some e"
      then have "tlb_lookup T s va = Some e"
        using False other tlb_lookup_Some_iff [OF assms(3)] by blast
      then show ?thesis
        using False e other uniq tb by (metis fst_conv)
    qed
  qed
qed

subsection \<open>Invalidation\<close>

lemma tlb_invalidate_from_read:
  assumes "tlb_laws T" "i + n \<le> NUM_TLB" "j < NUM_TLB"
  shows "tlb_read T j (tlb_invalidate_from T i n h) =
    (if i \<le> j \<and> j < i + n then (TLBHI_INVALID j, TLBLO_INVALID) else tlb_read T j h)"
  using assms
proof (induction n arbitrary: i h)
  case 0
  then show ?case by auto
next
  case (Suc n)
  then show ?case by (auto simp: tlb_read_write)
qed

lemma tlb_invalidate_eq:
  assumes "stats_ok s"
  shows "tlb_invalidate T s =
    Ret (bump TLB_INVALIDATION (s\<lparr>tlb_hw := tlb_invalidate_from T 0 NUM_TLB (tlb_hw s)\<rparr>))"
  using assms by (simp add: tlb_invalidate_def kern_simps stat_index_defs)

lemma tlb_invalidate_slot:
  assumes "stats_ok s" "tlb_laws T" "tlb_invalidate T s = Ret s'" "j < NUM_TLB"
  shows "tlb_slot T s' j = (TLBHI_INVALID j, TLBLO_INVALID)"
  using assms
  by (auto simp: tlb_invalidate_eq tlb_slot_def bump_def tlb_invalidate_from_read)

lemma tlb_invalidate_wf:
  assumes "stats_ok s" "tlb_laws T" "tlb_invalidate T s = Ret s'" "next_victim s < NUM_TLB"
  shows "tlb_wf T s'" "tlb_lookup T s' = Map.empty"
proof -
  have nv: "next_victim s' = next_victim s"
    using assms(1,3) by (auto simp: tlb_invalidate_eq bump_def)
  show "tlb_wf T s'"
    using assms nv by (auto simp: tlb_wf_def tlb_invalidate_slot)
  show "tlb_lookup T s' = Map.empty"
    using assms by (auto simp: tlb_lookup_None_iff tlb_invalidate_slot fun_eq_iff)
qed

lemma tlb_invalidate_vaddr_slot:
  assumes "tlb_laws T" "tlb_wf T s" "user_page va" "j < NUM_TLB"
  shows "tlb_slot T (tlb_invalidate_vaddr T va s) j =
    (if slot_valid (tlb_slot T s j) \<and> fst (tlb_slot T s j) = va
     then (TLBHI_INVALID j, TLBLO_INVALID) else tlb_slot T s j)"
proof -
  have va: "va AND PAGE_FRAME = va" using assms(3) by (simp add: user_page_def)
  let ?p = "tlb_probe T va 0 (tlb_hw s)"
  show ?thesis
  proof (cases "?p \<ge> 0")
    case True
    then have hit: "nat ?p < NUM_TLB" "fst (tlb_slot T s (nat ?p)) AND PAGE_FRAME = va"
      using assms(1) va unfolding tlb_laws_def tlb_slot_def by metis+
    have "TLBHI_INVALID (nat ?p) AND PAGE_FRAME \<noteq> va"
      using assms(3) TLBHI_INVALID_not_user [OF hit(1)]
      by (auto simp: TLBHI_INVALID_aligned user_page_def)
    then have "slot_valid (tlb_slot T s (nat ?p))" "fst (tlb_slot T s (nat ?p)) = va"
      using assms(2) hit unfolding tlb_wf_def user_page_def by (metis fst_conv)+
    then have "slot_valid (tlb_slot T s j) \<and> fst (tlb_slot T s j) = va \<longleftrightarrow> j = nat ?p"
      using assms(2,4) hit(1) unfolding tlb_wf_def by metis
    with True hit assms(1,4) va show ?thesis
      by (simp add: tlb_invalidate_vaddr_def Let_def tlb_slot_write) (simp add: tlb_slot_def)
  next
    case False
    then have "fst (tlb_slot T s j) AND PAGE_FRAME \<noteq> va"
      using assms(1,4) va unfolding tlb_laws_def tlb_slot_def by (metis linorder_not_less)
    with False va show ?thesis
      by (auto simp: tlb_invalidate_vaddr_def Let_def)
  qed
qed

lemma tlb_invalidate_vaddr_wf:
  assumes "tlb_laws T" "tlb_wf T s" "user_page va"
  shows "tlb_wf T (tlb_invalidate_vaddr T va s)"
    and "tlb_lookup T (tlb_invalidate_vaddr T va s) = (tlb_lookup T s)(va := None)"
proof -
  let ?s = "tlb_invalidate_vaddr T va s"
  note slot = tlb_invalidate_vaddr_slot [OF assms]
  have "next_victim ?s = next_victim s" by (simp add: tlb_invalidate_vaddr_def Let_def)
  then show wf: "tlb_wf T ?s"
    using assms(2) unfolding tlb_wf_def by (auto simp: slot split: if_splits)
  show "tlb_lookup T ?s = (tlb_lookup T s)(va := None)"
  proof (rule ext)
    fix x
    have "tlb_lookup T ?s x = Some e \<longleftrightarrow> ((tlb_lookup T s)(va := None)) x = Some e" for e
      unfolding tlb_lookup_Some_iff [OF wf]
      by (auto simp: slot tlb_lookup_Some_iff [OF assms(2)] cong: conj_cong split: if_splits)
         (metis fst_conv)
    then show "tlb_lookup T ?s x = ((tlb_lookup T s)(va := None)) x"
      by (metis option.exhaust)
  qed
qed

subsection \<open>Round robin\<close>

lemma rr_victims_eq:
  assumes "next_victim s < NUM_TLB"
  shows "rr_victims n s = map (\<lambda>k. (next_victim s + k) mod NUM_TLB) [0..<n]"
  using assms
proof (induction n arbitrary: s)
  case 0
  then show ?case by simp
next
  case (Suc n)
  let ?s = "s\<lparr>next_victim := (next_victim s + 1) mod NUM_TLB\<rparr>"
  have "rr_victims n ?s = map (\<lambda>k. (next_victim ?s + k) mod NUM_TLB) [0..<n]"
    by (rule Suc.IH) (simp add: NUM_TLB_def)
  also have "\<dots> = map (\<lambda>k. (next_victim s + Suc k) mod NUM_TLB) [0..<n]"
    by (simp add: mod_simps)
  finally show ?case
    using Suc.prems
    by (simp add: tlb_get_rr_victim_def map_upt_Suc del: upt_Suc)
qed

section \<open>The contract of a translation cache\<close>

text \<open>
  What the fault handler relies on. Loading a page that is not yet mapped succeeds and makes the
  page translate to the new entry; every other translation afterwards is one there was before
  (another page may have lost its entry). Dropping a page removes exactly its translation, and
  flushing removes all.
\<close>

locale translation_cache =
  fixes inv :: "'s \<Rightarrow> bool"
    and lookup :: "'s \<Rightarrow> vaddr_t \<Rightarrow> w32 option"
    and load :: "vaddr_t \<Rightarrow> paddr_t \<Rightarrow> bool \<Rightarrow> 's \<Rightarrow> (kerr \<times> 's) kres"
    and drop_page :: "vaddr_t \<Rightarrow> 's \<Rightarrow> 's"
    and flush :: "'s \<Rightarrow> 's kres"
    and entry :: "paddr_t \<Rightarrow> bool \<Rightarrow> w32"
    and page :: "vaddr_t \<Rightarrow> bool"
  assumes load_total: "inv s \<Longrightarrow> \<exists>s'. load va p ro s = Ret (None, s')"
    and load_inv: "inv s \<Longrightarrow> page va \<Longrightarrow> lookup s va = None \<Longrightarrow>
      load va p ro s = Ret (r, s') \<Longrightarrow> inv s'"
    and load_same: "inv s \<Longrightarrow> page va \<Longrightarrow> lookup s va = None \<Longrightarrow>
      load va p ro s = Ret (r, s') \<Longrightarrow> lookup s' va = Some (entry p ro)"
    and load_other: "inv s \<Longrightarrow> page va \<Longrightarrow> lookup s va = None \<Longrightarrow>
      load va p ro s = Ret (r, s') \<Longrightarrow> x \<noteq> va \<Longrightarrow> lookup s' x = Some e \<Longrightarrow> lookup s x = Some e"
    and drop_inv: "inv s \<Longrightarrow> page va \<Longrightarrow> inv (drop_page va s)"
    and drop_lookup: "inv s \<Longrightarrow> page va \<Longrightarrow> lookup (drop_page va s) = (lookup s)(va := None)"
    and flush_inv: "inv s \<Longrightarrow> flush s = Ret s' \<Longrightarrow> inv s'"
    and flush_lookup: "inv s \<Longrightarrow> flush s = Ret s' \<Longrightarrow> lookup s' = Map.empty"
begin

text \<open>
  Coherence with a relation \<open>R\<close> between pages and entries (what the page table says) is kept by
  loading an entry that \<open>R\<close> allows, and survives a change of \<open>R\<close> at one page if that page is
  dropped.
\<close>

lemma load_coherent:
  assumes "inv s" "page va" "lookup s va = None" "load va p ro s = Ret (r, s')"
    and "\<And>x e. lookup s x = Some e \<Longrightarrow> R x e" "R va (entry p ro)"
    and "lookup s' x = Some e"
  shows "R x e"
proof (cases "x = va")
  case True
  with assms load_same [OF assms(1-4)] show ?thesis by simp
next
  case False
  with assms load_other [OF assms(1-4)] show ?thesis by blast
qed

lemma drop_coherent:
  assumes "inv s" "page va"
    and "\<And>x e. lookup s x = Some e \<Longrightarrow> R x e"
    and "\<And>x e. x \<noteq> va \<Longrightarrow> R x e \<Longrightarrow> R' x e"
    and "lookup (drop_page va s) x = Some e"
  shows "R' x e"
  using assms(3-5) by (auto simp: drop_lookup [OF assms(1,2)] split: if_splits)

end

interpretation tlb: translation_cache "\<lambda>s. tlb_laws T \<and> tlb_wf T s \<and> stats_ok s" "tlb_lookup T"
  "tlb_loadentry T" "tlb_invalidate_vaddr T" "tlb_invalidate T" tlb_entrylo user_page for T
proof unfold_locales
  fix s s' :: "('a, 'b) tlb_st_scheme" and va p ro r x e
  assume inv: "tlb_laws T \<and> tlb_wf T s \<and> stats_ok s"
  show "\<exists>s'. tlb_loadentry T va p ro s = Ret (None, s')"
    using inv by (simp add: tlb_loadentry_eq)
  show "tlb_laws T \<and> tlb_wf T (tlb_invalidate_vaddr T va s) \<and> stats_ok (tlb_invalidate_vaddr T va s)"
    if "user_page va"
    using inv that by (simp add: tlb_invalidate_vaddr_wf) (simp add: tlb_invalidate_vaddr_def Let_def)
  show "tlb_lookup T (tlb_invalidate_vaddr T va s) = (tlb_lookup T s)(va := None)" if "user_page va"
    using inv that by (simp add: tlb_invalidate_vaddr_wf)
  show "tlb_laws T \<and> tlb_wf T s' \<and> stats_ok s'" "tlb_lookup T s' = Map.empty"
    if "tlb_invalidate T s = Ret s'"
    using inv that tlb_invalidate_wf [of s T s']
    by (auto simp: tlb_wf_def [of T s] tlb_invalidate_eq)
  assume ld: "user_page va" "tlb_lookup T s va = None" "tlb_loadentry T va p ro s = Ret (r, s')"
  show "tlb_laws T \<and> tlb_wf T s' \<and> stats_ok s'"
    using inv ld tlb_loadentry_wf [of s T va p ro r s'] by (auto simp: tlb_loadentry_eq split: option.splits)
  show "tlb_lookup T s' va = Some (tlb_entrylo p ro)"
    "x \<noteq> va \<Longrightarrow> tlb_lookup T s' x = Some e \<Longrightarrow> tlb_lookup T s x = Some e"
    using inv ld tlb_loadentry_lookup [of s T va p ro r s'] by (auto split: if_splits)
qed

end
