(* ===== verification/Vnode_IO.thy ===== *)
theory Vnode_IO
  imports VM_TLB
begin

text \<open>
  Reading a file into physical memory: \<open>load_segment\<close> of \<open>kern/syscall/loadelf.c\<close>, which both
  the on-demand loader and the swap file use. The vnode operations are a parameter:
  \<open>vop_read v off n d\<close> is the error code and the bytes \<open>VOP_READ\<close> delivers of the \<open>n\<close> asked
  for, \<open>vop_write v off bs d\<close> the error code and the device state after \<open>VOP_WRITE\<close>. The kernel
  reaches physical memory through the direct-mapped segment, so an address handed to a vnode
  operation as \<open>PADDR_TO_KVADDR(p)\<close> is the physical address \<open>p\<close> here.
\<close>

section \<open>The vnode interface\<close>

record ('h, 'd) vnode_ops = "'h tlb_ops" +
  vop_read :: "nat \<Rightarrow> int \<Rightarrow> nat \<Rightarrow> 'd \<Rightarrow> kerr \<times> byte list"
  vop_write :: "nat \<Rightarrow> int \<Rightarrow> byte list \<Rightarrow> 'd \<Rightarrow> kerr \<times> 'd"

text \<open>
  A read delivers at most what was asked for. A write that reports success is seen by later
  reads of that place and of no other place.
\<close>

definition vnode_laws :: "('h, 'd, 'x) vnode_ops_scheme \<Rightarrow> bool" where
  "vnode_laws E \<longleftrightarrow>
     (\<forall>v off n d. length (snd (vop_read E v off n d)) \<le> n) \<and>
     (\<forall>v off bs d d'. vop_write E v off bs d = (None, d') \<longrightarrow>
        vop_read E v off (length bs) d' = (None, bs)) \<and>
     (\<forall>v off bs d d' v' off' n. vop_write E v off bs d = (None, d') \<longrightarrow>
        v' \<noteq> v \<or> off' + int n \<le> off \<or> off + int (length bs) \<le> off' \<longrightarrow>
        vop_read E v' off' n d' = vop_read E v' off' n d)"

section \<open>State and operations\<close>

record ('h, 'd) mem_st = "'h tlb_st" +
  physmem :: memory
  disk :: 'd

definition load_segment ::
  "('h, 'd, 'x) vnode_ops_scheme \<Rightarrow> nat \<Rightarrow> int \<Rightarrow> paddr_t \<Rightarrow> w32 \<Rightarrow> w32 \<Rightarrow>
     ('h, 'd, 'a) mem_st_scheme \<Rightarrow> kerr \<times> ('h, 'd, 'a) mem_st_scheme" where
  "load_segment E v offset paddr memsize filesize s =
     (let fsz = (if filesize > memsize then memsize else filesize);
          (result, bs) = vop_read E v offset (unat fsz) (disk s);
          s1 = s\<lparr>physmem := mem_write paddr bs (physmem s)\<rparr>;
          resid = unat fsz - length bs
      in case result of
           Some e \<Rightarrow> (Some e, s1)
         | None \<Rightarrow> if resid \<noteq> 0 then (Some ENOEXEC, s1) else (None, s1))"

section \<open>Lemmas\<close>

lemma vop_read_length:
  "vnode_laws E \<Longrightarrow> vop_read E v off n d = (r, bs) \<Longrightarrow> length bs \<le> n"
  unfolding vnode_laws_def by (metis snd_conv)

lemma vop_write_same:
  "vnode_laws E \<Longrightarrow> vop_write E v off bs d = (None, d') \<Longrightarrow> vop_read E v off (length bs) d' = (None, bs)"
  unfolding vnode_laws_def by blast

lemma vop_write_other:
  assumes "vnode_laws E" "vop_write E v off bs d = (None, d')"
    and "v' \<noteq> v \<or> off' + int n \<le> off \<or> off + int (length bs) \<le> off'"
  shows "vop_read E v' off' n d' = vop_read E v' off' n d"
  using assms unfolding vnode_laws_def by metis

lemma load_segment_ok:
  assumes "vnode_laws E" "load_segment E v off p memsize filesize s = (None, s')"
  shows "s' = s\<lparr>physmem := physmem s'\<rparr>"
    and "\<exists>bs. vop_read E v off (unat (min filesize memsize)) (disk s) = (None, bs) \<and>
          length bs = unat (min filesize memsize) \<and> physmem s' = mem_write p bs (physmem s)"
proof -
  let ?n = "unat (min filesize memsize)"
  obtain r bs where rd: "vop_read E v off ?n (disk s) = (r, bs)" by fastforce
  then have le: "length bs \<le> ?n" using assms(1) by (rule vop_read_length [rotated])
  have fsz: "(if filesize > memsize then memsize else filesize) = min filesize memsize"
    by (auto simp: min_def)
  show "s' = s\<lparr>physmem := physmem s'\<rparr>"
    using assms(2) rd by (auto simp: load_segment_def Let_def fsz split: option.splits if_splits)
  show "\<exists>bs. vop_read E v off ?n (disk s) = (None, bs) \<and> length bs = ?n \<and>
      physmem s' = mem_write p bs (physmem s)"
    using assms(2) rd le
    by (auto simp: load_segment_def Let_def fsz split: option.splits if_splits)
qed

lemma load_segment_frame:
  "load_segment E v off p memsize filesize s = (r, s') \<Longrightarrow> \<exists>m. s' = s\<lparr>physmem := m\<rparr>"
  by (auto simp: load_segment_def Let_def split: option.splits if_splits prod.splits)

lemma stats_ok_mem_upd [simp]:
  "stats_ok (s\<lparr>physmem := m\<rparr>) = stats_ok s"
  "stats_ok (s\<lparr>disk := d\<rparr>) = stats_ok s"
  by (simp_all add: stats_ok_def)

lemma tlb_wf_mem_upd [simp]:
  "tlb_wf T (s\<lparr>physmem := m\<rparr>) = tlb_wf T s"
  "tlb_wf T (s\<lparr>disk := d\<rparr>) = tlb_wf T s"
  by (simp_all add: tlb_wf_def tlb_slot_def)

end
