(* ===== verification/Swapfile.thy ===== *)
theory Swapfile
  imports Vnode_IO
begin

text \<open>
  The swap file (\<open>kern/vm/swapfile.c\<close>, \<open>include/swapfile.h\<close>): a disk whose page-sized slots are
  given out by a bitmap, behind one sleep lock. The bitmap package is a parameter. A page table
  entry that is swapped out holds the number of its slot in the field of its physical address,
  which is why \<open>swap_in\<close> and \<open>swap_out\<close> take and give back a \<open>paddr_t\<close>.
\<close>

section \<open>The bitmap interface\<close>

record ('h, 'd, 'b) os_ops = "('h, 'd) vnode_ops" +
  bitmap_create :: "nat \<Rightarrow> 'b option"
  bitmap_alloc :: "'b \<Rightarrow> kerr \<times> nat \<times> 'b"
  bitmap_unmark :: "nat \<Rightarrow> 'b \<Rightarrow> 'b"
  bitmap_isset :: "'b \<Rightarrow> nat \<Rightarrow> bool"

text \<open>
  What \<open>bitmap.h\<close> documents, for bitmaps of \<open>n\<close> bits: a new bitmap is clear, allocation sets a
  clear bit and returns its index and fails only when all bits are set, unmarking clears a set
  bit.
\<close>

definition bitmap_laws :: "('h, 'd, 'b, 'x) os_ops_scheme \<Rightarrow> nat \<Rightarrow> bool" where
  "bitmap_laws E n \<longleftrightarrow>
     (\<forall>b i. bitmap_create E n = Some b \<longrightarrow> \<not> bitmap_isset E b i) \<and>
     (\<forall>b i b'. bitmap_alloc E b = (None, i, b') \<longrightarrow>
        i < n \<and> \<not> bitmap_isset E b i \<and>
        (\<forall>j. bitmap_isset E b' j = (j = i \<or> bitmap_isset E b j))) \<and>
     (\<forall>b e i b'. bitmap_alloc E b = (Some e, i, b') \<longrightarrow> (\<forall>j<n. bitmap_isset E b j)) \<and>
     (\<forall>b i j. bitmap_isset E b i \<longrightarrow>
        bitmap_isset E (bitmap_unmark E i b) j = (j \<noteq> i \<and> bitmap_isset E b j))"

section \<open>State and operations\<close>

record ('h, 'd, 'b) swap_st = "('h, 'd) mem_st" +
  swapFile :: nat
  swapFileSize :: int
  swapMap :: 'b
  swap_lock :: lock
  used :: "16 word"

definition open_swapfile ::
  "kerr \<times> nat option \<Rightarrow> kerr \<times> int \<Rightarrow> ('h, 'd, 'b, 'a) swap_st_scheme \<Rightarrow>
     ('h, 'd, 'b, 'a) swap_st_scheme kres" where
  "open_swapfile swapon vstat s =
     (case swapon of
        (None, Some v) \<Rightarrow>
          KASSERT (fst vstat = None \<and> snd vstat mod 4096 = 0)
            (Ret (s\<lparr>swapFile := v, swapFileSize := snd vstat\<rparr>))
      | _ \<Rightarrow> Panic ''KASSERT'')"

definition swapmap_init ::
  "('h, 'd, 'b, 'x) os_ops_scheme \<Rightarrow> kerr \<times> nat option \<Rightarrow> kerr \<times> int \<Rightarrow>
     ('h, 'd, 'b, 'a) swap_st_scheme \<Rightarrow> ('h, 'd, 'b, 'a) swap_st_scheme kres" where
  "swapmap_init E swapon vstat s =
     kbind (open_swapfile swapon vstat s) (\<lambda>s1.
       case bitmap_create E (nat (swapFileSize s1 div 4096)) of
         None \<Rightarrow> Panic ''KASSERT''
       | Some b \<Rightarrow>
           let (l, s2) = lock_create ''SWAP_lock'' (s1\<lparr>swapMap := b\<rparr>) in
           case l of
             None \<Rightarrow> Panic ''Swap lock was not created succesfully''
           | Some lk \<Rightarrow> Ret (s2\<lparr>swap_lock := lk\<rparr>))"

definition close_swapfile ::
  "kerr \<Rightarrow> ('h, 'd, 'b, 'a) swap_st_scheme \<Rightarrow> ('h, 'd, 'b, 'a) swap_st_scheme kres" where
  "close_swapfile swapoff s =
     kbind (lock_acquire s (swap_lock s)) (\<lambda>l1.
       KASSERT (swapoff = None)
         (kbind (lock_release (s\<lparr>swap_lock := l1\<rparr>) l1) (\<lambda>(l2, s1).
            Ret (s1\<lparr>swap_lock := l2\<rparr>))))"

definition swap_in ::
  "('h, 'd, 'b, 'x) os_ops_scheme \<Rightarrow> paddr_t \<Rightarrow> paddr_t \<Rightarrow> bool \<Rightarrow>
     ('h, 'd, 'b, 'a) swap_st_scheme \<Rightarrow> (kerr \<times> paddr_t \<times> ('h, 'd, 'b, 'a) swap_st_scheme) kres" where
  "swap_in E swap_paddr ram_paddr toRemove s =
     kbind (lock_acquire s (swap_lock s)) (\<lambda>l1.
       let s1 = s\<lparr>swap_lock := l1\<rparr>;
           (result, s2) = load_segment E (swapFile s1) (uint (swap_paddr * PAGE_SIZE)) ram_paddr
              PAGE_SIZE PAGE_SIZE s1
       in case result of
            Some e \<Rightarrow> Ret (Some e, swap_paddr, s2)
          | None \<Rightarrow>
              KASSERT (bitmap_isset E (swapMap s2) (unat swap_paddr))
                (let s3 = (if toRemove
                           then s2\<lparr>swapMap := bitmap_unmark E (unat swap_paddr) (swapMap s2),
                                   used := used s2 - 1\<rparr>
                           else s2)
                 in kbind (lock_release s3 (swap_lock s3)) (\<lambda>(l2, s4).
                      Ret (None, ram_paddr, s4\<lparr>swap_lock := l2\<rparr>))))"

definition swap_out ::
  "('h, 'd, 'b, 'x) os_ops_scheme \<Rightarrow> paddr_t \<Rightarrow>
     ('h, 'd, 'b, 'a) swap_st_scheme \<Rightarrow> (kerr \<times> paddr_t \<times> ('h, 'd, 'b, 'a) swap_st_scheme) kres" where
  "swap_out E paddr s =
     kbind (lock_acquire s (swap_lock s)) (\<lambda>l1.
       let s1 = s\<lparr>swap_lock := l1\<rparr> in
       if uint (used s1) = swapFileSize s1 then Ret (Some ENOMEM, paddr, s1) else
       case bitmap_alloc E (swapMap s1) of
         (Some e, _, b) \<Rightarrow>
           kbind (lock_release (s1\<lparr>swapMap := b\<rparr>) (swap_lock s1)) (\<lambda>(l2, s2).
             Ret (Some e, paddr, s2\<lparr>swap_lock := l2\<rparr>))
       | (None, i, b) \<Rightarrow>
           let (result, d) = vop_write E (swapFile s1) (uint ((of_nat i :: w32) * PAGE_SIZE))
                 (mem_read paddr 4096 (physmem s1)) (disk s1);
               s2 = s1\<lparr>swapMap := b, disk := d\<rparr>
           in KASSERT (result = None)
                (let s3 = s2\<lparr>used := used s2 + 1\<rparr> in
                 kbind (lock_release s3 (swap_lock s3)) (\<lambda>(l2, s4).
                   Ret (None, of_nat i, s4\<lparr>swap_lock := l2\<rparr>))))"

definition clear_swap ::
  "('h, 'd, 'b, 'x) os_ops_scheme \<Rightarrow> paddr_t \<Rightarrow>
     ('h, 'd, 'b, 'a) swap_st_scheme \<Rightarrow> ('h, 'd, 'b, 'a) swap_st_scheme kres" where
  "clear_swap E paddr s =
     kbind (lock_acquire s (swap_lock s)) (\<lambda>l1.
       let s1 = s\<lparr>swap_lock := l1, swapMap := bitmap_unmark E (unat paddr) (swapMap s),
                  used := used s - 1\<rparr>
       in kbind (lock_release s1 (swap_lock s1)) (\<lambda>(l2, s2). Ret (s2\<lparr>swap_lock := l2\<rparr>)))"

definition getAvailableSwap ::
  "('h, 'd, 'b, 'a) swap_st_scheme \<Rightarrow> (w32 \<times> ('h, 'd, 'b, 'a) swap_st_scheme) kres" where
  "getAvailableSwap s =
     kbind (lock_acquire s (swap_lock s)) (\<lambda>l1.
       let s1 = s\<lparr>swap_lock := l1\<rparr>;
           sz = word_of_int (swapFileSize s1 - uint (used s1))
       in kbind (lock_release s1 (swap_lock s1)) (\<lambda>(l2, s2). Ret (sz, s2\<lparr>swap_lock := l2\<rparr>)))"

section \<open>The swap file as a store of pages\<close>

text \<open>
  \<open>swap_ok\<close>: \<open>n\<close> slots that fill the file, whose byte offsets are 32-bit numbers; \<open>used\<close> counts
  the slots in use; nobody holds the lock. \<open>slot_data\<close> is what a read of a slot delivers.
\<close>

definition swap_slots :: "('h, 'd, 'b, 'x) os_ops_scheme \<Rightarrow> ('h, 'd, 'b, 'a) swap_st_scheme \<Rightarrow> nat set" where
  "swap_slots E s = {i. bitmap_isset E (swapMap s) i}"

definition swap_ok ::
  "('h, 'd, 'b, 'x) os_ops_scheme \<Rightarrow> nat \<Rightarrow> ('h, 'd, 'b, 'a) swap_st_scheme \<Rightarrow> bool" where
  "swap_ok E n s \<longleftrightarrow>
     swapFileSize s = int n * 4096 \<and> n < 65536 \<and>
     swap_slots E s \<subseteq> {..<n} \<and> unat (used s) = card (swap_slots E s) \<and>
     lock_idle (swap_lock s) \<and> \<not> in_interrupt s"

definition slot_data ::
  "('h, 'd, 'b, 'x) os_ops_scheme \<Rightarrow> ('h, 'd, 'b, 'a) swap_st_scheme \<Rightarrow> nat \<Rightarrow> kerr \<times> byte list" where
  "slot_data E s i = vop_read E (swapFile s) (int i * 4096) 4096 (disk s)"

section \<open>Lemmas\<close>

lemma slot_offset: "i < 65536 \<Longrightarrow> uint ((of_nat i :: w32) * PAGE_SIZE) = int i * 4096"
  by (simp add: PAGE_SIZE_def uint_word_ariths unsigned_of_nat take_bit_eq_mod)

lemma slot_offset_word: "unat a < 65536 \<Longrightarrow> uint (a * PAGE_SIZE) = int (unat a) * 4096"
  using slot_offset [of "unat a"] by simp

lemma in_interrupt_upd [simp]:
  "in_interrupt (s\<lparr>physmem := m\<rparr>) = in_interrupt s"
  "in_interrupt (s\<lparr>disk := d\<rparr>) = in_interrupt s"
  "in_interrupt (t\<lparr>swap_lock := l\<rparr>) = in_interrupt t"
  "in_interrupt (t\<lparr>swapMap := b\<rparr>) = in_interrupt t"
  "in_interrupt (t\<lparr>used := u\<rparr>) = in_interrupt t"
  by (simp_all add: in_interrupt_def)

lemma bitmap_alloc_Some:
  assumes "bitmap_laws E n" "bitmap_alloc E b = (None, i, b')"
  shows "i < n" "\<not> bitmap_isset E b i" "bitmap_isset E b' j = (j = i \<or> bitmap_isset E b j)"
  using assms unfolding bitmap_laws_def by blast+

lemma bitmap_alloc_fail:
  assumes "bitmap_laws E n" "bitmap_alloc E b = (Some e, i, b')" "j < n"
  shows "bitmap_isset E b j"
  using assms unfolding bitmap_laws_def by blast

lemma bitmap_unmark_isset:
  assumes "bitmap_laws E n" "bitmap_isset E b i"
  shows "bitmap_isset E (bitmap_unmark E i b) j = (j \<noteq> i \<and> bitmap_isset E b j)"
  using assms unfolding bitmap_laws_def by blast

lemma swap_ok_finite: "swap_ok E n s \<Longrightarrow> finite (swap_slots E s)"
  by (auto simp: swap_ok_def intro: finite_subset)

lemma swap_ok_used_le: "swap_ok E n s \<Longrightarrow> unat (used s) \<le> n"
  using card_mono [of "{..<n}" "swap_slots E s"] by (simp add: swap_ok_def)

text \<open>The check against the size of the file compares pages with bytes and is never met.\<close>

lemma used_ne_size:
  assumes "swap_ok E n s" "0 < n"
  shows "uint (used s) \<noteq> swapFileSize s"
proof -
  have "uint (used s) = int (unat (used s))" by (rule uint_nat)
  also have "\<dots> \<le> int n" using swap_ok_used_le [OF assms(1)] by (simp only: of_nat_le_iff)
  finally show ?thesis using assms by (auto simp: swap_ok_def)
qed

lemma swap_lock_acquire:
  "swap_ok E n s \<Longrightarrow> lock_acquire s (swap_lock s) = Ret (lock_by (curthread s) (swap_lock s))"
  by (simp add: kern_simps swap_ok_def)

lemma swap_lock_release:
  "swap_ok E n s \<Longrightarrow> curthread t = curthread s \<Longrightarrow>
     lock_release t (lock_by (curthread s) (swap_lock s)) = Ret (swap_lock s, t)"
  by (simp add: kern_simps swap_ok_def)

lemma swap_out_ok:
  assumes ok: "swap_ok E n s" and n: "0 < n"
    and alloc: "bitmap_alloc E (swapMap s) = (None, i, b)"
    and wr: "vop_write E (swapFile s) (uint ((of_nat i :: w32) * PAGE_SIZE))
      (mem_read p 4096 (physmem s)) (disk s) = (None, d)"
  shows "swap_out E p s = Ret (None, of_nat i, s\<lparr>swapMap := b, disk := d, used := used s + 1\<rparr>)"
proof -
  note lks = swap_lock_acquire [OF ok] swap_lock_release [OF ok]
  show ?thesis
    using alloc wr used_ne_size [OF ok n] by (simp add: swap_out_def lks Let_def)
qed

lemma swap_out_full:
  assumes ok: "swap_ok E n s" and n: "0 < n"
    and alloc: "bitmap_alloc E (swapMap s) = (Some e, i, b)"
  shows "swap_out E p s = Ret (Some e, p, s\<lparr>swapMap := b\<rparr>)"
proof -
  note lks = swap_lock_acquire [OF ok] swap_lock_release [OF ok]
  show ?thesis
    using alloc used_ne_size [OF ok n] by (simp add: swap_out_def lks Let_def)
qed

lemma swap_in_ok:
  assumes ok: "swap_ok E n s" and slot: "unat a \<in> swap_slots E s"
    and rd: "slot_data E s (unat a) = (None, bs)" "length bs = 4096"
  shows "swap_in E a ram True s = Ret (None, ram, s\<lparr>physmem := mem_write ram bs (physmem s),
      swapMap := bitmap_unmark E (unat a) (swapMap s), used := used s - 1\<rparr>)"
    and "swap_in E a ram False s = Ret (None, ram, s\<lparr>physmem := mem_write ram bs (physmem s)\<rparr>)"
proof -
  note lks = swap_lock_acquire [OF ok] swap_lock_release [OF ok]
  have "unat a < 65536" using ok slot by (auto simp: swap_ok_def)
  note off = slot_offset_word [OF this]
  show "swap_in E a ram True s = Ret (None, ram, s\<lparr>physmem := mem_write ram bs (physmem s),
      swapMap := bitmap_unmark E (unat a) (swapMap s), used := used s - 1\<rparr>)"
    "swap_in E a ram False s = Ret (None, ram, s\<lparr>physmem := mem_write ram bs (physmem s)\<rparr>)"
    using rd slot
    by (simp_all add: swap_in_def lks Let_def load_segment_def off slot_data_def swap_slots_def)
qed

lemma swap_in_error:
  assumes ok: "swap_ok E n s" and a: "unat a < n" and rd: "slot_data E s (unat a) = (Some e, bs)"
  shows "swap_in E a ram toRemove s = Ret (Some e, a,
      s\<lparr>swap_lock := lock_by (curthread s) (swap_lock s), physmem := mem_write ram bs (physmem s)\<rparr>)"
proof -
  note lks = swap_lock_acquire [OF ok] swap_lock_release [OF ok]
  have "unat a < 65536" using ok a by (auto simp: swap_ok_def)
  note off = slot_offset_word [OF this]
  show ?thesis
    using rd by (simp add: swap_in_def lks Let_def load_segment_def off slot_data_def)
qed

lemma clear_swap_ok:
  assumes ok: "swap_ok E n s"
  shows "clear_swap E a s =
    Ret (s\<lparr>swapMap := bitmap_unmark E (unat a) (swapMap s), used := used s - 1\<rparr>)"
proof -
  note lks = swap_lock_acquire [OF ok] swap_lock_release [OF ok]
  show ?thesis by (simp add: clear_swap_def lks Let_def)
qed

lemma getAvailableSwap_ok:
  assumes ok: "swap_ok E n s"
  shows "getAvailableSwap s = Ret (word_of_int (swapFileSize s - uint (used s)), s)"
proof -
  note lks = swap_lock_acquire [OF ok] swap_lock_release [OF ok]
  show ?thesis by (simp add: getAvailableSwap_def lks Let_def)
qed

section \<open>The contract of a page store\<close>

text \<open>
  What the page table relies on: putting a page away gives a name that was not in use and under
  which exactly that page is kept; getting it back writes it to the frame asked for and frees
  the name; discarding frees the name. No operation changes what other names hold.
\<close>

locale page_store =
  fixes inv :: "'s \<Rightarrow> bool"
    and kept :: "'s \<Rightarrow> nat \<Rightarrow> byte list option"
    and mem :: "'s \<Rightarrow> memory"
    and put :: "paddr_t \<Rightarrow> 's \<Rightarrow> (kerr \<times> paddr_t \<times> 's) kres"
    and get :: "paddr_t \<Rightarrow> paddr_t \<Rightarrow> bool \<Rightarrow> 's \<Rightarrow> (kerr \<times> paddr_t \<times> 's) kres"
    and discard :: "paddr_t \<Rightarrow> 's \<Rightarrow> 's kres"
  assumes kept_length: "inv s \<Longrightarrow> kept s i = Some bs \<Longrightarrow> length bs = 4096"
    and put_inv: "inv s \<Longrightarrow> put p s = Ret (None, a, s') \<Longrightarrow> inv s'"
    and put_fresh: "inv s \<Longrightarrow> put p s = Ret (None, a, s') \<Longrightarrow> kept s (unat a) = None"
    and put_kept: "inv s \<Longrightarrow> put p s = Ret (None, a, s') \<Longrightarrow>
      kept s' = (kept s)(unat a \<mapsto> mem_read p 4096 (mem s)) \<and> mem s' = mem s"
    and get_total: "inv s \<Longrightarrow> kept s (unat a) = Some bs \<Longrightarrow> \<exists>s'. get a ram rm s = Ret (None, ram, s')"
    and get_inv: "inv s \<Longrightarrow> kept s (unat a) = Some bs \<Longrightarrow> get a ram rm s = Ret (r, x, s') \<Longrightarrow> inv s'"
    and get_kept: "inv s \<Longrightarrow> kept s (unat a) = Some bs \<Longrightarrow> get a ram rm s = Ret (r, x, s') \<Longrightarrow>
      kept s' = (if rm then (kept s)(unat a := None) else kept s) \<and>
      mem s' = mem_write ram bs (mem s)"
    and discard_ok: "inv s \<Longrightarrow> kept s (unat a) = Some bs \<Longrightarrow>
      \<exists>s'. discard a s = Ret s' \<and> inv s' \<and> kept s' = (kept s)(unat a := None) \<and> mem s' = mem s"
begin

lemma kept_across_put:
  assumes "inv s" "kept s i = Some bs" "put p s = Ret (None, a, s')"
  shows "kept s' i = Some bs" "unat a \<noteq> i"
  using put_fresh [OF assms(1,3)] put_kept [OF assms(1,3)] assms(2) by auto

lemma kept_across_get:
  assumes "inv s" "kept s i = Some bs" "kept s (unat a) = Some cs" "unat a \<noteq> i"
    and "get a ram rm s = Ret (r, x, s')"
  shows "kept s' i = Some bs"
  using get_kept [OF assms(1,3,5)] assms(2,4) by auto

text \<open>A page put away and fetched into any frame is the page it was, and the store is as before.\<close>

lemma put_get:
  assumes "inv s" "put p s = Ret (None, a, s1)"
  shows "\<exists>s2. get a ram True s1 = Ret (None, ram, s2) \<and> inv s2 \<and> kept s2 = kept s \<and>
    mem_read ram 4096 (mem s2) = mem_read p 4096 (mem s)"
proof -
  let ?bs = "mem_read p 4096 (mem s)"
  have inv1: "inv s1" using assms by (rule put_inv)
  have k: "kept s1 = (kept s)(unat a \<mapsto> ?bs)" "kept s (unat a) = None"
    using put_kept [OF assms] put_fresh [OF assms] by simp_all
  then have k1: "kept s1 (unat a) = Some ?bs" by simp
  obtain s2 where g: "get a ram True s1 = Ret (None, ram, s2)"
    using get_total [OF inv1 k1] by blast
  have "kept s2 = kept s" using get_kept [OF inv1 k1 g] k by (simp add: fun_upd_idem)
  moreover have "mem_read ram 4096 (mem s2) = ?bs"
    using get_kept [OF inv1 k1 g] mem_read_write_same [of ?bs ram "mem s1"] by simp
  ultimately show ?thesis using g get_inv [OF inv1 k1 g] by blast
qed

end

section \<open>The swap file meets the contract\<close>

text \<open>
  \<open>swap_inv\<close> adds to \<open>swap_ok\<close> that the packages obey their documentation and that every slot in
  use can be read; \<open>slot_bytes\<close> is what the slots in use hold.
\<close>

definition slot_bytes ::
  "('h, 'd, 'b, 'x) os_ops_scheme \<Rightarrow> ('h, 'd, 'b, 'a) swap_st_scheme \<Rightarrow> nat \<rightharpoonup> byte list" where
  "slot_bytes E s i =
     (if bitmap_isset E (swapMap s) i then Some (snd (slot_data E s i)) else None)"

definition swap_inv ::
  "('h, 'd, 'b, 'x) os_ops_scheme \<Rightarrow> nat \<Rightarrow> ('h, 'd, 'b, 'a) swap_st_scheme \<Rightarrow> bool" where
  "swap_inv E n s \<longleftrightarrow>
     vnode_laws E \<and> bitmap_laws E n \<and> 0 < n \<and> swap_ok E n s \<and>
     (\<forall>i. bitmap_isset E (swapMap s) i \<longrightarrow>
        fst (slot_data E s i) = None \<and> length (snd (slot_data E s i)) = 4096)"

lemma swap_invD:
  assumes "swap_inv E n s"
  shows "vnode_laws E" "bitmap_laws E n" "0 < n" "swap_ok E n s"
    "bitmap_isset E (swapMap s) i \<Longrightarrow> fst (slot_data E s i) = None"
    "bitmap_isset E (swapMap s) i \<Longrightarrow> length (snd (slot_data E s i)) = 4096"
  using assms by (auto simp: swap_inv_def)

lemma swap_slot_bound: "swap_ok E n s \<Longrightarrow> bitmap_isset E (swapMap s) i \<Longrightarrow> i < n \<and> i < 65536"
  by (auto simp: swap_ok_def swap_slots_def)

lemma unat_used_inc:
  assumes "swap_ok E n s" "\<not> bitmap_isset E (swapMap s) i" "i < n"
  shows "unat (used s + 1) = Suc (card (swap_slots E s))"
proof -
  have "insert i (swap_slots E s) \<subseteq> {..<n}" using assms by (auto simp: swap_ok_def)
  then have "card (insert i (swap_slots E s)) \<le> n" using card_mono [of "{..<n}"] by fastforce
  then have "Suc (card (swap_slots E s)) \<le> n"
    using assms(2) swap_ok_finite [OF assms(1)] by (simp add: swap_slots_def)
  moreover have "n < 65536" "unat (used s) = card (swap_slots E s)"
    using assms(1) by (simp_all add: swap_ok_def)
  ultimately show ?thesis by (simp add: unat_word_ariths)
qed

lemma unat_used_dec:
  assumes "swap_ok E n s" "i \<in> swap_slots E s"
  shows "unat (used s - 1) = card (swap_slots E s) - 1"
proof -
  have "card (swap_slots E s) > 0"
    using assms swap_ok_finite [OF assms(1)] by (auto simp: card_gt_0_iff)
  moreover have "unat (used s) = card (swap_slots E s)"
    using assms(1) by (simp add: swap_ok_def)
  ultimately have "1 \<le> used s" by (simp add: word_le_nat_alt)
  then show ?thesis using assms(1) by (simp add: unat_sub swap_ok_def)
qed

text \<open>Every successful call of \<open>swap_out\<close> is the one of \<open>swap_out_ok\<close>.\<close>

lemma swap_out_NoneD:
  assumes "swap_inv E n s" "swap_out E p s = Ret (None, a, s')"
  obtains i b d where "bitmap_alloc E (swapMap s) = (None, i, b)" "a = of_nat i" "unat a = i" "i < n"
    "vop_write E (swapFile s) (int i * 4096) (mem_read p 4096 (physmem s)) (disk s) = (None, d)"
    "s' = s\<lparr>swapMap := b, disk := d, used := used s + 1\<rparr>"
proof -
  note D = swap_invD [OF assms(1)]
  obtain r i b where al: "bitmap_alloc E (swapMap s) = (r, i, b)" by (metis prod.collapse)
  have r: "r = None"
    using assms(2) al swap_out_full [OF D(4,3), of _ i b p] by (cases r) auto
  then have i: "i < n" using bitmap_alloc_Some(1) [OF D(2)] al by blast
  then have i': "i < 65536" using D(4) by (simp add: swap_ok_def)
  obtain r' d where wr: "vop_write E (swapFile s) (uint ((of_nat i :: w32) * PAGE_SIZE))
      (mem_read p 4096 (physmem s)) (disk s) = (r', d)" by (metis prod.collapse)
  have r': "r' = None"
    using assms(2) al r wr used_ne_size [OF D(4,3)] swap_lock_acquire [OF D(4)]
    by (auto simp: swap_out_def Let_def)
  have "swap_out E p s = Ret (None, of_nat i, s\<lparr>swapMap := b, disk := d, used := used s + 1\<rparr>)"
    using swap_out_ok [OF D(4,3)] al wr r r' by simp
  then show thesis
    using that [of i b d] assms(2) al wr r r' i i' slot_offset [OF i'] by (simp add: unat_of_nat)
qed

text \<open>With a free slot and a disk that accepts writes, \<open>swap_out\<close> succeeds.\<close>

definition writes_ok :: "('h, 'd, 'x) vnode_ops_scheme \<Rightarrow> bool" where
  "writes_ok E \<longleftrightarrow> (\<forall>v off bs d. fst (vop_write E v off bs d) = None)"

lemma swap_out_total:
  assumes "swap_inv E n s" "writes_ok E" "i < n" "\<not> bitmap_isset E (swapMap s) i"
  shows "\<exists>a s'. swap_out E p s = Ret (None, a, s')"
proof -
  note D = swap_invD [OF assms(1)]
  obtain r j b where al: "bitmap_alloc E (swapMap s) = (r, j, b)" by (metis prod.collapse)
  have "r = None"
    using bitmap_alloc_fail [OF D(2), of "swapMap s" _ j b i] al assms(3,4) by (cases r) auto
  moreover obtain r' d where wr: "vop_write E (swapFile s) (uint ((of_nat j :: w32) * PAGE_SIZE))
      (mem_read p 4096 (physmem s)) (disk s) = (r', d)" by (metis prod.collapse)
  moreover have "r' = None" using assms(2) wr unfolding writes_ok_def by (metis fst_conv)
  ultimately show ?thesis using swap_out_ok [OF D(4,3), of j b p d] al by blast
qed

lemma swap_out_inv:
  assumes inv: "swap_inv E n s" and out: "swap_out E p s = Ret (None, a, s')"
  shows "swap_inv E n s'"
    and "slot_bytes E s (unat a) = None"
    and "slot_bytes E s' = (slot_bytes E s)(unat a \<mapsto> mem_read p 4096 (physmem s))"
    and "physmem s' = physmem s"
proof -
  note D = swap_invD [OF inv]
  obtain i b d where al: "bitmap_alloc E (swapMap s) = (None, i, b)" and a: "unat a = i" and i: "i < n"
    and wr: "vop_write E (swapFile s) (int i * 4096) (mem_read p 4096 (physmem s)) (disk s) = (None, d)"
    and s': "s' = s\<lparr>swapMap := b, disk := d, used := used s + 1\<rparr>"
    using swap_out_NoneD [OF inv out] by metis
  note A = bitmap_alloc_Some [OF D(2) al]
  have slots: "swap_slots E s' = insert i (swap_slots E s)"
    using A(3) by (auto simp: swap_slots_def s')
  have same: "slot_data E s' i = (None, mem_read p 4096 (physmem s))"
    using vop_write_same [OF D(1) wr] by (simp add: slot_data_def s')
  have other: "slot_data E s' j = slot_data E s j" if "j \<noteq> i" for j
  proof -
    have "int j * 4096 + int 4096 \<le> int i * 4096 \<or> int i * 4096 + 4096 \<le> int j * 4096"
      using that by linarith
    then show ?thesis using vop_write_other [OF D(1) wr] by (simp add: slot_data_def s')
  qed
  have "swap_ok E n s'"
    using D(4) A i slots unat_used_inc [OF D(4) A(2) i] swap_ok_finite [OF D(4)]
    by (simp add: swap_ok_def s') (simp add: swap_slots_def)
  moreover have "fst (slot_data E s' j) = None \<and> length (snd (slot_data E s' j)) = 4096"
    if "bitmap_isset E (swapMap s') j" for j
    using that A(3) [of j] D(5,6) [of j] same other [of j] by (cases "j = i") (simp_all add: s')
  ultimately show "swap_inv E n s'" using D(1-3) by (simp add: swap_inv_def)
  show "slot_bytes E s (unat a) = None" using A(2) a by (simp add: slot_bytes_def)
  have "slot_bytes E s' j = ((slot_bytes E s)(i \<mapsto> mem_read p 4096 (physmem s))) j" for j
    using A(3) [of j] same other [of j] by (cases "j = i") (simp_all add: s' slot_bytes_def)
  then show "slot_bytes E s' = (slot_bytes E s)(unat a \<mapsto> mem_read p 4096 (physmem s))"
    using a by auto
  show "physmem s' = physmem s" by (simp add: s')
qed

lemma unmark_inv:
  assumes inv: "swap_inv E n s" and i: "bitmap_isset E (swapMap s) i"
    and s': "s' = s\<lparr>physmem := m, swapMap := bitmap_unmark E i (swapMap s), used := used s - 1\<rparr>"
  shows "swap_inv E n s'" "slot_bytes E s' = (slot_bytes E s)(i := None)"
proof -
  note D = swap_invD [OF inv]
  note U = bitmap_unmark_isset [OF D(2) i]
  have slots: "swap_slots E s' = swap_slots E s - {i}" using U by (auto simp: swap_slots_def s')
  have ii: "i \<in> swap_slots E s" using i by (simp add: swap_slots_def)
  have "swap_ok E n s'"
    using D(4) slots unat_used_dec [OF D(4) ii] ii swap_ok_finite [OF D(4)]
    by (auto simp: swap_ok_def s')
  moreover have data: "slot_data E s' j = slot_data E s j" for j by (simp add: slot_data_def s')
  ultimately show "swap_inv E n s'"
    using D U by (auto simp: swap_inv_def s')
  have "slot_bytes E s' j = ((slot_bytes E s)(i := None)) j" for j
    using U [of j] data [of j] by (simp add: slot_bytes_def s')
  then show "slot_bytes E s' = (slot_bytes E s)(i := None)" by blast
qed

lemma slot_bytes_SomeD:
  assumes "swap_inv E n s" "slot_bytes E s i = Some bs"
  shows "bitmap_isset E (swapMap s) i" "slot_data E s i = (None, bs)" "length bs = 4096"
  using assms swap_invD(5,6) [OF assms(1), of i]
  by (auto simp: slot_bytes_def prod_eq_iff split: if_splits)

lemma swap_in_bytes:
  assumes inv: "swap_inv E n s" and a: "slot_bytes E s (unat a) = Some bs"
  shows "swap_in E a ram rm s = Ret (None, ram,
     if rm then s\<lparr>physmem := mem_write ram bs (physmem s),
        swapMap := bitmap_unmark E (unat a) (swapMap s), used := used s - 1\<rparr>
     else s\<lparr>physmem := mem_write ram bs (physmem s)\<rparr>)"
  using swap_in_ok [OF swap_invD(4) [OF inv], of a bs ram] slot_bytes_SomeD [OF inv a]
  by (cases rm) (simp_all add: swap_slots_def)

lemma swap_inv_mem [simp]:
  "swap_inv E n (s\<lparr>physmem := m\<rparr>) = swap_inv E n s"
  "slot_bytes E (s\<lparr>physmem := m\<rparr>) = slot_bytes E s"
  by (simp_all add: swap_inv_def swap_ok_def swap_slots_def slot_data_def slot_bytes_def fun_eq_iff)

interpretation swap: page_store
  "swap_inv E n :: ('h, 'd, 'b, 'a) swap_st_scheme \<Rightarrow> bool" "slot_bytes E" physmem
  "swap_out E" "swap_in E" "clear_swap E" for E :: "('h, 'd, 'b, 'x) os_ops_scheme" and n
proof unfold_locales
  fix s s' :: "('h, 'd, 'b, 'a) swap_st_scheme" and i bs p a ram rm r x
  assume inv: "swap_inv E n s"
  show "slot_bytes E s i = Some bs \<Longrightarrow> length bs = 4096"
    using slot_bytes_SomeD [OF inv] by blast
  show "swap_inv E n s'" "slot_bytes E s (unat a) = None"
    "slot_bytes E s' = (slot_bytes E s)(unat a \<mapsto> mem_read p 4096 (physmem s)) \<and> physmem s' = physmem s"
    if "swap_out E p s = Ret (None, a, s')"
    using swap_out_inv [OF inv that] by simp_all
  assume a: "slot_bytes E s (unat a) = Some bs"
  note set = slot_bytes_SomeD(1) [OF inv a]
  show "\<exists>s'. swap_in E a ram rm s = Ret (None, ram, s')"
    using swap_in_bytes [OF inv a] by simp
  show "swap_inv E n s'"
    "slot_bytes E s' = (if rm then (slot_bytes E s)(unat a := None) else slot_bytes E s) \<and>
      physmem s' = mem_write ram bs (physmem s)"
    if "swap_in E a ram rm s = Ret (r, x, s')"
    using swap_in_bytes [OF inv a, of ram rm] that inv unmark_inv [OF inv set]
    by (auto split: if_splits)
  show "\<exists>s'. clear_swap E a s = Ret s' \<and> swap_inv E n s' \<and>
      slot_bytes E s' = (slot_bytes E s)(unat a := None) \<and> physmem s' = physmem s"
    using clear_swap_ok [OF swap_invD(4) [OF inv], of a]
      unmark_inv [OF inv set, where m = "physmem s"] by simp
qed

end
