(* ===== verification/Sim_Machine.thy ===== *)
theory Sim_Machine
  imports Swapfile
begin

text \<open>
  A concrete machine for the parameters of the model: a TLB of 64 slots with a linear probe, a
  disk that is an array of bytes for each vnode and never fails, and a bitmap of \<open>n\<close> bits
  searched from its start. It obeys the laws the development assumes of the packages outside
  the repository, so those laws can hold, and the definitions run on it.
\<close>

type_synonym sim_tlb = "nat \<Rightarrow> w32 \<times> w32"
type_synonym sim_disk = "nat \<Rightarrow> int \<Rightarrow> byte"
type_synonym sim_bitmap = "nat \<Rightarrow> bool"

definition sim_probe :: "w32 \<Rightarrow> w32 \<Rightarrow> sim_tlb \<Rightarrow> int" where
  "sim_probe hi lo h =
     (case first_idx (\<lambda>i. fst (h i) AND PAGE_FRAME = hi AND PAGE_FRAME) 0 NUM_TLB of
        Some i \<Rightarrow> int i | None \<Rightarrow> - 1)"

definition sim_read :: "nat \<Rightarrow> int \<Rightarrow> nat \<Rightarrow> sim_disk \<Rightarrow> kerr \<times> byte list" where
  "sim_read v off n d = (None, map (\<lambda>i. d v (off + int i)) [0..<n])"

definition sim_write :: "nat \<Rightarrow> int \<Rightarrow> byte list \<Rightarrow> sim_disk \<Rightarrow> kerr \<times> sim_disk" where
  "sim_write v off bs d =
     (None, d(v := \<lambda>x. if off \<le> x \<and> x < off + int (length bs) then bs ! nat (x - off) else d v x))"

definition sim_alloc :: "nat \<Rightarrow> sim_bitmap \<Rightarrow> kerr \<times> nat \<times> sim_bitmap" where
  "sim_alloc n b = (case first_idx (\<lambda>i. \<not> b i) 0 n of
       Some i \<Rightarrow> (None, i, b(i := True)) | None \<Rightarrow> (Some ENOSPC, 0, b))"

definition sim_opsx :: "nat \<Rightarrow> 'x \<Rightarrow> (sim_tlb, sim_disk, sim_bitmap, 'x) os_ops_scheme" where
  "sim_opsx n x = \<lparr>tlb_read = (\<lambda>i h. h i), tlb_write = (\<lambda>hi lo i h. h(i := (hi, lo))),
     tlb_probe = sim_probe, vop_read = sim_read, vop_write = sim_write,
     bitmap_create = (\<lambda>_. Some (\<lambda>_. False)), bitmap_alloc = sim_alloc n,
     bitmap_unmark = (\<lambda>i b. b(i := False)), bitmap_isset = (\<lambda>b i. b i), \<dots> = x\<rparr>"

abbreviation sim_ops :: "nat \<Rightarrow> (sim_tlb, sim_disk, sim_bitmap) os_ops" where
  "sim_ops n \<equiv> sim_opsx n ()"

lemma sim_ops_simps [simp]:
  "tlb_read (sim_opsx n x) i h = h i"
  "tlb_write (sim_opsx n x) hi lo i h = h(i := (hi, lo))"
  "tlb_probe (sim_opsx n x) = sim_probe"
  "vop_read (sim_opsx n x) = sim_read"
  "vop_write (sim_opsx n x) = sim_write"
  "bitmap_create (sim_opsx n x) k = Some (\<lambda>_. False)"
  "bitmap_alloc (sim_opsx n x) = sim_alloc n"
  "bitmap_unmark (sim_opsx n x) i b = b(i := False)"
  "bitmap_isset (sim_opsx n x) b i = b i"
  by (simp_all add: sim_opsx_def)

lemma sim_tlb_laws [simp]: "tlb_laws (sim_opsx n x)"
proof -
  have "nat (sim_probe hi lo h) < NUM_TLB \<and>
      fst (h (nat (sim_probe hi lo h))) AND PAGE_FRAME = hi AND PAGE_FRAME"
    if "sim_probe hi lo h \<ge> 0" for hi lo h
    using that by (auto simp: sim_probe_def dest: first_idx_SomeD split: option.splits)
  moreover have "fst (h i) AND PAGE_FRAME \<noteq> hi AND PAGE_FRAME"
    if "sim_probe hi lo h < 0" "i < NUM_TLB" for hi lo h i
    using that by (auto simp: sim_probe_def first_idx_None_iff split: option.splits)
  ultimately show ?thesis unfolding tlb_laws_def by simp
qed

lemma sim_vnode_laws [simp]: "vnode_laws (sim_opsx n x)"
  by (auto simp: vnode_laws_def sim_read_def sim_write_def intro!: nth_equalityI)

lemma sim_bitmap_laws [simp]: "bitmap_laws (sim_opsx n x) n"
  by (auto simp: bitmap_laws_def sim_alloc_def first_idx_None_iff dest: first_idx_SomeD
      split: option.splits)

lemma sim_writes_ok [simp]: "writes_ok (sim_opsx n x)"
  by (simp add: writes_ok_def sim_write_def)

section \<open>A machine after boot\<close>

text \<open>
  One CPU that runs thread 0 of process 0, nothing locked, an empty TLB, memory and disk
  all zero. \<open>sim_boot ss m\<close> has the swap slots \<open>ss\<close> in use and the fields of the later
  components from \<open>m\<close>.
\<close>

definition sim_lock :: "string \<Rightarrow> lock" where
  "sim_lock name = \<lparr>lk_name = name,
     lk_sem = \<lparr>sem_name = name, sem_wchan = \<lparr>wc_name = name, wc_threads = []\<rparr>, sem_count = 1\<rparr>,
     lk_owner = None\<rparr>"

definition sim_thread :: thread where
  "sim_thread = \<lparr>t_name = ''boot'', t_wchan_name = None, t_state = S_RUN, t_stack = None,
     t_cpu = Some 0, t_proc = Some 0, t_in_interrupt = False, t_curspl = 0, t_iplhigh_count = 0\<rparr>"

definition sim_cpu :: cpu where
  "sim_cpu = \<lparr>c_number = 0, c_hardware_number = 0, c_curthread = Some 0, c_zombies = [],
     c_hardclocks = 0, c_spinlocks = 0, c_isidle = False, c_runqueue = [], c_ipi_pending = 0,
     c_numshootdown = 0, c_shootdown = []\<rparr>"

definition sim_proc :: proc where
  "sim_proc = \<lparr>p_name = ''p'', p_numthreads = 1, p_addrspace = Some 0, p_cwd = None,
     p_status = 0, p_pid = 1, p_sem = None\<rparr>"

definition sim_boot ::
  "nat \<Rightarrow> nat list \<Rightarrow> 'a \<Rightarrow> (sim_tlb, sim_disk, sim_bitmap, 'a) swap_st_scheme" where
  "sim_boot n ss m =
     \<lparr>threads = (\<lambda>_. sim_thread), allcpus = [sim_cpu], curcpu = 0, curthread = 0,
      curcpu_exists = True, kmem = replicate 20 True, kheap = 0,
      procs = (\<lambda>_. sim_proc), next_proc = 1, kproc = Some 0, ptab_active = True,
      ptab_proc = replicate 101 None, ptab_last_i = 0,
      counters = replicate 10 0, stats_lock = sim_lock ''STATS_lock'',
      tlb_hw = (\<lambda>i. (TLBHI_INVALID i, TLBLO_INVALID)), tlb_full = False, next_victim = 0,
      physmem = (\<lambda>_. 0), disk = (\<lambda>_ _. 0),
      swapFile = 0, swapFileSize = int n * 4096, swapMap = (\<lambda>i. i \<in> set ss),
      swap_lock = sim_lock ''SWAP_lock'', used = of_nat (length (remdups ss)), \<dots> = m\<rparr>"

lemma lock_idle_sim [simp]: "lock_idle (sim_lock nm)"
  by (simp add: sim_lock_def lock_idle_def)

lemma sim_boot_fields [simp]:
  "threads (sim_boot n ss m) = (\<lambda>_. sim_thread)"
  "allcpus (sim_boot n ss m) = [sim_cpu]"
  "curcpu (sim_boot n ss m) = 0"
  "curthread (sim_boot n ss m) = 0"
  "curcpu_exists (sim_boot n ss m)"
  "kmem (sim_boot n ss m) = replicate 20 True"
  "procs (sim_boot n ss m) = (\<lambda>_. sim_proc)"
  "counters (sim_boot n ss m) = replicate 10 0"
  "tlb_hw (sim_boot n ss m) = (\<lambda>i. (TLBHI_INVALID i, TLBLO_INVALID))"
  "\<not> tlb_full (sim_boot n ss m)"
  "next_victim (sim_boot n ss m) = 0"
  "physmem (sim_boot n ss m) = (\<lambda>_. 0)"
  "disk (sim_boot n ss m) = (\<lambda>_ _. 0)"
  "swapFile (sim_boot n ss m) = 0"
  "swapMap (sim_boot n ss m) = (\<lambda>i. i \<in> set ss)"
  by (simp_all add: sim_boot_def)

lemma sim_boot_ready [simp]:
  "\<not> in_interrupt (sim_boot n ss m)"
  "can_lock (sim_boot n ss m)"
  "stats_ok (sim_boot n ss m)"
  by (simp_all add: in_interrupt_def can_lock_def sched_ok_def stats_ok_def sim_boot_def
      sim_thread_def sim_cpu_def cur_cpu_def STATS_TOT_def)

lemma sim_boot_tlb_wf [simp]: "tlb_wf (sim_opsx k x) (sim_boot n ss m)"
  by (simp add: tlb_wf_def tlb_slot_def sim_boot_def NUM_TLB_def)

lemma sim_boot_swap_ok:
  assumes "n < 65536" "\<And>i. i \<in> set ss \<Longrightarrow> i < n"
  shows "swap_ok (sim_opsx n x) n (sim_boot n ss m)"
proof -
  have slots: "swap_slots (sim_opsx n x) (sim_boot n ss m) = set ss"
    by (auto simp: swap_slots_def sim_boot_def)
  have "card (set ss) \<le> n"
    using card_mono [of "{..<n}" "set ss"] assms(2) by auto
  then have "unat (of_nat (length (remdups ss)) :: 16 word) = card (set ss)"
    using assms(1) by (simp add: unat_of_nat length_remdups_card_conv)
  then show ?thesis
    using assms sim_boot_ready(1) [of n ss m] slots by (auto simp: swap_ok_def sim_boot_def)
qed

lemma sim_boot_swap_inv:
  assumes "0 < n" "n < 65536" "\<And>i. i \<in> set ss \<Longrightarrow> i < n"
  shows "swap_inv (sim_opsx n x) n (sim_boot n ss m)"
  using assms sim_boot_swap_ok [OF assms(2,3)]
  by (simp add: swap_inv_def slot_data_def sim_read_def)

end
