(* ===== verification/Page_Table.thy ===== *)
theory Page_Table
  imports Sim_Machine
begin

text \<open>
  Address spaces and their page tables as data (\<open>include/addrspace.h\<close>, \<open>include/pt.h\<close>,
  \<open>include/segment.h\<close>) and the lookups of \<open>kern/vm/pt.c\<close>. A \<open>struct addrspace *\<close> is the number
  of a block. The page table is an array in frames of its own: \<open>as_pt\<close> is its kernel address
  (0 for NULL) and \<open>as_ptab\<close> its entries; nothing else is stored in those frames, so their bytes
  are not part of \<open>physmem\<close>. An index past the end of the array is undefined behaviour. The
  list of segments is the linked list.
\<close>

section \<open>Data\<close>

record pt_entry =
  pte_paddr :: paddr_t
  pte_vaddr :: vaddr_t
  in_mem :: bool
  in_swap :: bool
  pte_rwx :: w32

record segment_t =
  seg_start :: vaddr_t
  seg_size :: w32
  seg_filesize :: w32
  seg_npages :: w32
  seg_rwx :: w32
  seg_offset :: int
  initoffset :: w32

record addrspace =
  as_pt :: vaddr_t
  as_ptab :: "pt_entry list"
  as_segment :: "segment_t list"
  as_v :: nat
  npages :: w32
  pt_lock :: lock
  progname :: "string option"

record ('h, 'd, 'b) as_st = "('h, 'd, 'b) swap_st" +
  aspaces :: "nat \<Rightarrow> addrspace"
  next_as :: nat

definition upd_as ::
  "nat \<Rightarrow> (addrspace \<Rightarrow> addrspace) \<Rightarrow> ('h, 'd, 'b, 'a) as_st_scheme \<Rightarrow> ('h, 'd, 'b, 'a) as_st_scheme" where
  "upd_as a f s = s\<lparr>aspaces := (aspaces s)(a := f (aspaces s a))\<rparr>"

definition upd_pte ::
  "nat \<Rightarrow> nat \<Rightarrow> (pt_entry \<Rightarrow> pt_entry) \<Rightarrow> ('h, 'd, 'b, 'a) as_st_scheme \<Rightarrow>
     ('h, 'd, 'b, 'a) as_st_scheme" where
  "upd_pte a j f = upd_as a (\<lambda>x. x\<lparr>as_ptab := (as_ptab x)[j := f (as_ptab x ! j)]\<rparr>)"

abbreviation pte :: "('h, 'd, 'b, 'a) as_st_scheme \<Rightarrow> nat \<Rightarrow> nat \<Rightarrow> pt_entry" where
  "pte s a j \<equiv> as_ptab (aspaces s a) ! j"

text \<open>\<open>lock_acquire(as->pt_lock)\<close> and \<open>lock_release(as->pt_lock)\<close>.\<close>

definition acquire_pt ::
  "nat \<Rightarrow> ('h, 'd, 'b, 'a) as_st_scheme \<Rightarrow> ('h, 'd, 'b, 'a) as_st_scheme kres" where
  "acquire_pt a s =
     kbind (lock_acquire s (pt_lock (aspaces s a)))
       (\<lambda>l. Ret (upd_as a (\<lambda>x. x\<lparr>pt_lock := l\<rparr>) s))"

definition release_pt ::
  "nat \<Rightarrow> ('h, 'd, 'b, 'a) as_st_scheme \<Rightarrow> ('h, 'd, 'b, 'a) as_st_scheme kres" where
  "release_pt a s =
     kbind (lock_release s (pt_lock (aspaces s a)))
       (\<lambda>(l, s1). Ret (upd_as a (\<lambda>x. x\<lparr>pt_lock := l\<rparr>) s1))"

text \<open>
  \<open>for (i = a; i < a + n; i++) if (P(pt[i])) break;\<close> over an array: the index at the break,
  \<open>None\<close> at the end of the loop, undefined behaviour when the loop reads past the array.
\<close>

definition pt_search :: "(pt_entry \<Rightarrow> bool) \<Rightarrow> nat \<Rightarrow> nat \<Rightarrow> pt_entry list \<Rightarrow> nat option kres" where
  "pt_search P a n pt =
     (case first_idx (\<lambda>i. length pt \<le> i \<or> P (pt ! i)) a n of
        None \<Rightarrow> Ret None
      | Some i \<Rightarrow> if length pt \<le> i then Undef else Ret (Some i))"

section \<open>The lookups of pt.c\<close>

text \<open>
  Each returns its \<open>retVal\<close> and the value stored through its pointer argument, \<open>None\<close> when
  nothing is stored. \<open>retVal\<close> is set to 1 in the loop and to -1 after it.
\<close>

definition getPageV ::
  "vaddr_t \<Rightarrow> ('h, 'd, 'b, 'a) as_st_scheme \<Rightarrow> (int \<times> nat option \<times> ('h, 'd, 'b, 'a) as_st_scheme) kres" where
  "getPageV vaddr s =
     (case proc_getas s of
        None \<Rightarrow> Ret (0, None, s)
      | Some a \<Rightarrow>
          kbind (acquire_pt a s) (\<lambda>s1.
          kbind (pt_search (\<lambda>e. pte_vaddr e = vaddr) 0 (unat (npages (aspaces s1 a)))
                  (as_ptab (aspaces s1 a))) (\<lambda>j.
          let retVal = (if j \<noteq> None then 1 else 0 :: int); retVal = - 1 in
          kbind (release_pt a s1) (\<lambda>s2. Ret (retVal, j, s2)))))"

definition getPageP ::
  "paddr_t \<Rightarrow> ('h, 'd, 'b, 'a) as_st_scheme \<Rightarrow> (int \<times> nat option \<times> ('h, 'd, 'b, 'a) as_st_scheme) kres" where
  "getPageP paddr s =
     (case proc_getas s of
        None \<Rightarrow> Ret (0, None, s)
      | Some a \<Rightarrow>
          kbind (acquire_pt a s) (\<lambda>s1.
          kbind (pt_search (\<lambda>e. pte_paddr e = paddr) 0 (unat (npages (aspaces s1 a)))
                  (as_ptab (aspaces s1 a))) (\<lambda>j.
          let retVal = (if j \<noteq> None then 1 else 0 :: int); retVal = - 1 in
          kbind (release_pt a s1) (\<lambda>s2. Ret (retVal, j, s2)))))"

definition getPageVtoP ::
  "vaddr_t \<Rightarrow> ('h, 'd, 'b, 'a) as_st_scheme \<Rightarrow>
     (int \<times> paddr_t option \<times> ('h, 'd, 'b, 'a) as_st_scheme) kres" where
  "getPageVtoP vaddr s =
     (case proc_getas s of
        None \<Rightarrow> Ret (0, None, s)
      | Some a \<Rightarrow>
          let l = checkcanLock s in
          kbind (if l = 0 then acquire_pt a s else Ret s) (\<lambda>s1.
          kbind (pt_search (\<lambda>e. pte_vaddr e = vaddr) 0 (unat (npages (aspaces s1 a)))
                  (as_ptab (aspaces s1 a))) (\<lambda>j.
          let retVal = (if j \<noteq> None then 1 else 0 :: int); retVal = - 1 in
          kbind (if l = 0 then release_pt a s1 else Ret s1) (\<lambda>s2.
          Ret (retVal, map_option (\<lambda>i. pte_paddr (pte s1 a i)) j, s2)))))"

text \<open>\<open>getPagePtoV\<close> has no \<open>break\<close>: it reads the whole table and the last match is stored.\<close>

definition getPagePtoV ::
  "paddr_t \<Rightarrow> ('h, 'd, 'b, 'a) as_st_scheme \<Rightarrow>
     (int \<times> vaddr_t option \<times> ('h, 'd, 'b, 'a) as_st_scheme) kres" where
  "getPagePtoV paddr s =
     (case proc_getas s of
        None \<Rightarrow> Ret (0, None, s)
      | Some a \<Rightarrow>
          kbind (acquire_pt a s) (\<lambda>s1.
          let n = unat (npages (aspaces s1 a)); pt = as_ptab (aspaces s1 a) in
          if length pt < n then Undef else
          let hits = filter (\<lambda>e. pte_paddr e = paddr) (take n pt);
              retVal = (if hits \<noteq> [] then 1 else 0 :: int); retVal = - 1 in
          kbind (release_pt a s1) (\<lambda>s2.
          Ret (retVal, if hits = [] then None else Some (pte_vaddr (last hits)), s2))))"

section \<open>Lemmas\<close>

lemma upd_as_simps [simp]:
  "aspaces (upd_as a f s) b = (if b = a then f (aspaces s a) else aspaces s b)"
  "next_as (upd_as a f s) = next_as s"
  "curthread (upd_as a f s) = curthread s"
  "in_interrupt (upd_as a f s) = in_interrupt s"
  "proc_getas (upd_as a f s) = proc_getas s"
  "can_lock (upd_as a f s) = can_lock s"
  "stats_ok (upd_as a f s) = stats_ok s"
  "checkcanLock (upd_as a f s) = checkcanLock s"
  by (simp_all add: upd_as_def in_interrupt_def proc_getas_def curproc_def can_lock_def sched_ok_def
      cur_cpu_def stats_ok_def checkcanLock_def split: option.split)

lemma upd_as_upd_as: "upd_as a f (upd_as a g s) = upd_as a (f \<circ> g) s"
  by (simp add: upd_as_def)

lemma upd_as_id [simp]: "f (aspaces s a) = aspaces s a \<Longrightarrow> upd_as a f s = s"
  by (simp add: upd_as_def)

text \<open>The page table lock taken and given back, around changes to the table.\<close>

definition pt_locked :: "nat \<Rightarrow> ('h, 'd, 'b, 'a) as_st_scheme \<Rightarrow> ('h, 'd, 'b, 'a) as_st_scheme" where
  "pt_locked a s = upd_as a (\<lambda>x. x\<lparr>pt_lock := lock_by (curthread s) (pt_lock x)\<rparr>) s"

lemma acquire_pt_idle [kern_simps]:
  assumes "\<not> in_interrupt s" "lock_idle (pt_lock (aspaces s a))"
  shows "acquire_pt a s = Ret (pt_locked a s)"
  using assms by (simp add: acquire_pt_def kern_simps pt_locked_def upd_as_def)

lemma release_pt_by:
  assumes "lock_idle lk" "pt_lock (aspaces s a) = lock_by (curthread s) lk"
  shows "release_pt a s = Ret (upd_as a (\<lambda>x. x\<lparr>pt_lock := lk\<rparr>) s)"
  using assms by (simp add: release_pt_def kern_simps)

lemma release_pt_locked [kern_simps]:
  assumes "lock_idle (pt_lock (aspaces s a))"
  shows "release_pt a (pt_locked a s) = Ret s"
  using assms by (simp add: release_pt_by pt_locked_def upd_as_upd_as)

lemma pt_locked_simps [simp]:
  "as_ptab (aspaces (pt_locked a s) b) = as_ptab (aspaces s b)"
  "as_segment (aspaces (pt_locked a s) b) = as_segment (aspaces s b)"
  "as_v (aspaces (pt_locked a s) b) = as_v (aspaces s b)"
  "npages (aspaces (pt_locked a s) b) = npages (aspaces s b)"
  "as_pt (aspaces (pt_locked a s) b) = as_pt (aspaces s b)"
  by (simp_all add: pt_locked_def)

lemma pt_search_eq:
  assumes "a + n \<le> length pt"
  shows "pt_search P a n pt = Ret (first_idx (\<lambda>i. P (pt ! i)) a n)"
proof -
  have "first_idx (\<lambda>i. length pt \<le> i \<or> P (pt ! i)) a n = first_idx (\<lambda>i. P (pt ! i)) a n"
    using assms by (intro first_idx_cong) auto
  moreover have "\<not> length pt \<le> i" if "first_idx (\<lambda>i. P (pt ! i)) a n = Some i" for i
    using first_idx_SomeD(2) [OF that] assms by simp
  ultimately show ?thesis by (auto simp: pt_search_def split: option.split)
qed

text \<open>
  Whenever there is an address space, the lookups deliver the index or address asked for and the
  value -1, whether or not the page is there.
\<close>

lemma getPageV_value:
  "getPageV va s = Ret (r, j, s') \<Longrightarrow> r = (if proc_getas s = None then 0 else - 1)"
  by (auto simp: getPageV_def Let_def split: option.splits)

lemma getPageP_value:
  "getPageP pa s = Ret (r, j, s') \<Longrightarrow> r = (if proc_getas s = None then 0 else - 1)"
  by (auto simp: getPageP_def Let_def split: option.splits)

lemma getPageVtoP_value:
  "getPageVtoP va s = Ret (r, j, s') \<Longrightarrow> r = (if proc_getas s = None then 0 else - 1)"
  by (auto simp: getPageVtoP_def Let_def split: option.splits)

lemma getPagePtoV_value:
  "getPagePtoV pa s = Ret (r, j, s') \<Longrightarrow> r = (if proc_getas s = None then 0 else - 1)"
  by (auto simp: getPagePtoV_def Let_def split: option.splits if_splits)

lemma getPageV_finds:
  assumes "proc_getas s = Some a" "\<not> in_interrupt s" "lock_idle (pt_lock (aspaces s a))"
    and "unat (npages (aspaces s a)) = length (as_ptab (aspaces s a))"
  shows "getPageV va s = Ret (- 1, first_idx (\<lambda>j. pte_vaddr (pte s a j) = va) 0
      (length (as_ptab (aspaces s a))), s)"
  using assms by (simp add: getPageV_def kern_simps pt_search_eq Let_def)

end
