(* ===== verification/Coremap.thy ===== *)
theory Coremap
  imports Page_Table
begin

text \<open>
  The map of physical frames (\<open>kern/vm/coremap.c\<close>, \<open>include/coremap.h\<close>): one entry per frame
  from \<open>firstpaddr\<close> on, the allocation of single frames with eviction of a page of the same
  address space when no frame is free, the allocation of runs of frames, and their release.
  The \<open>spinlock_acquire\<close> and \<open>spinlock_release\<close> calls are those on \<open>coremap_lock\<close>.
\<close>

section \<open>Data\<close>

record c_entry =
  c_vaddr :: vaddr_t
  c_as :: "nat option"
  allocpages :: nat

record ('h, 'd, 'b) core_st = "('h, 'd, 'b) as_st" +
  coremap :: "c_entry list"
  coremapSize :: nat
  ram_used :: nat
  firstpaddr :: paddr_t
  lastpaddr :: paddr_t
  coremapActive :: bool
  next_svic :: nat

text \<open>
  The two macros are logical conjunctions with a non-zero constant, so \<open>CRES\<close> holds as soon as
  one of the two low bits is set.
\<close>

definition CRES :: "c_entry \<Rightarrow> bool" where
  "CRES e \<longleftrightarrow> c_vaddr e AND 0x3 \<noteq> 0 \<and> (1::int) \<noteq> 0"

definition CUSED :: "c_entry \<Rightarrow> bool" where
  "CUSED e \<longleftrightarrow> c_vaddr e AND 0x2 \<noteq> 0 \<and> (2::int) \<noteq> 0"

abbreviation frame_free :: "('h, 'd, 'b, 'a) core_st_scheme \<Rightarrow> nat \<Rightarrow> bool" where
  "frame_free s i \<equiv> \<not> CUSED (coremap s ! i) \<and> \<not> CRES (coremap s ! i)"

definition frame_addr :: "('h, 'd, 'b, 'a) core_st_scheme \<Rightarrow> nat \<Rightarrow> paddr_t" where
  "frame_addr s i = of_nat i * PAGE_SIZE + firstpaddr s"

text \<open>\<open>sizeof(c_entry)\<close> and \<open>sizeof(pt_entry)\<close> on the 32-bit machine: three words each.\<close>

definition sizeof_c_entry :: w32 where "sizeof_c_entry = 12"
definition sizeof_pt_entry :: w32 where "sizeof_pt_entry = 12"

section \<open>Operations\<close>

definition swapvictim ::
  "('h, 'd, 'b, 'a) core_st_scheme \<Rightarrow> nat \<times> ('h, 'd, 'b, 'a) core_st_scheme" where
  "swapvictim s = (next_svic s, s\<lparr>next_svic := (next_svic s + 1) mod coremapSize s\<rparr>)"

definition isCoremapActive :: "('h, 'd, 'b, 'a) core_st_scheme \<Rightarrow> bool" where
  "isCoremapActive s = coremapActive s"

text \<open>
  \<open>ram_getsize()\<close> and \<open>ram_getfirstfree()\<close> are outside the repository: their results are the
  arguments.
\<close>

definition coremap_init ::
  "paddr_t \<Rightarrow> paddr_t \<Rightarrow> ('h, 'd, 'b, 'a) core_st_scheme \<Rightarrow> ('h, 'd, 'b, 'a) core_st_scheme" where
  "coremap_init ramsize firstfree s =
     (let first = ALLIGN_NEXT_ADDR firstfree;
          sz = (ramsize - first) div PAGE_SIZE;
          csize = DIVROUNDUP (sz * sizeof_c_entry) PAGE_SIZE;
          sz = sz - csize
      in s\<lparr>lastpaddr := ramsize, coremapSize := unat sz,
           coremap := replicate (unat sz) \<lparr>c_vaddr = 0, c_as = None, allocpages = 0\<rparr>,
           firstpaddr := first + csize * PAGE_SIZE, coremapActive := True\<rparr>)"

definition upd_core ::
  "nat \<Rightarrow> (c_entry \<Rightarrow> c_entry) \<Rightarrow> ('h, 'd, 'b, 'a) core_st_scheme \<Rightarrow> ('h, 'd, 'b, 'a) core_st_scheme" where
  "upd_core i f s = s\<lparr>coremap := (coremap s)[i := f (coremap s ! i)]\<rparr>"

definition set_coreentry ::
  "nat \<Rightarrow> vaddr_t \<Rightarrow> bool \<Rightarrow> nat option \<Rightarrow> ('h, 'd, 'b, 'a) core_st_scheme \<Rightarrow>
     ('h, 'd, 'b, 'a) core_st_scheme" where
  "set_coreentry i vaddr is_reserved as =
     upd_core i (\<lambda>e. e\<lparr>c_vaddr := vaddr OR (if is_reserved then 0x3 else 0x2),
                       c_as := (if is_reserved then None else as)\<rparr>)"

definition set_empty ::
  "nat \<Rightarrow> ('h, 'd, 'b, 'a) core_st_scheme \<Rightarrow> ('h, 'd, 'b, 'a) core_st_scheme" where
  "set_empty i = upd_core i (\<lambda>e. e\<lparr>c_vaddr := 0, c_as := None\<rparr>)"

definition freeAs ::
  "nat option \<Rightarrow> ('h, 'd, 'b, 'a) core_st_scheme \<Rightarrow> ('h, 'd, 'b, 'a) core_st_scheme" where
  "freeAs as s =
     (let s1 = spinlock_acquire s;
          s2 = fold (\<lambda>i t. if c_as (coremap t ! i) = as then set_empty i t else t)
                 [0..<coremapSize s1] s1
      in spinlock_release s2)"

text \<open>
  The loop \<open>while(1)\<close> of \<open>getPage\<close> over the frames in round robin order, up to one that is not
  reserved and belongs to \<open>as\<close>; \<open>None\<close> is a loop that never ends.
\<close>

definition evictable :: "('h, 'd, 'b, 'a) core_st_scheme \<Rightarrow> nat option \<Rightarrow> nat \<Rightarrow> bool" where
  "evictable s as i \<longleftrightarrow> c_vaddr (coremap s ! i) AND 0x1 = 0 \<and> c_as (coremap s ! i) = as"

partial_function (option) victim_loop ::
  "nat option \<Rightarrow> ('h, 'd, 'b, 'a) core_st_scheme \<Rightarrow> (nat \<times> ('h, 'd, 'b, 'a) core_st_scheme) option" where
  "victim_loop as s =
     (let (i, s1) = swapvictim s in
      if evictable s1 as i then Some (i, s1) else victim_loop as s1)"

text \<open>
  What \<open>getPage\<close> does to the first page table entry with the victim's address, under the lock of
  the page table: the page goes to the swap file if it is writable and is forgotten otherwise.
  The value is the index \<open>addr\<close>, which stays 0 when no entry has the address.
\<close>

definition evict_page ::
  "('h, 'd, 'b, 'x) os_ops_scheme \<Rightarrow> nat \<Rightarrow> nat \<Rightarrow> ('h, 'd, 'b, 'a) core_st_scheme \<Rightarrow>
     (nat \<times> ('h, 'd, 'b, 'a) core_st_scheme) kres" where
  "evict_page E a i s =
     kbind (pt_search (\<lambda>e. pte_paddr e = frame_addr s i) 0 (unat (npages (aspaces s a)))
             (as_ptab (aspaces s a))) (\<lambda>found.
       case found of
         None \<Rightarrow> Ret (0, s)
       | Some j \<Rightarrow>
           kbind (if pte_rwx (pte s a j) AND 2 \<noteq> 0
                  then kbind (swap_out E (pte_paddr (pte s a j)) s) (\<lambda>(r, p, s1).
                       let s2 = upd_pte a j (\<lambda>e. e\<lparr>pte_paddr := p\<rparr>) s1 in
                       KASSERT (r = None)
                         (kbind (vm_stats_inc SWAP_WRITE s2) (\<lambda>s3.
                            Ret (upd_pte a j (\<lambda>e. e\<lparr>in_swap := True\<rparr>) s3))))
                  else Ret (upd_pte a j (\<lambda>e. e\<lparr>pte_paddr := 0\<rparr>) s)) (\<lambda>s4.
           let s5 = upd_pte a j (\<lambda>e. e\<lparr>in_mem := False\<rparr>) s4 in
           Ret (i, tlb_invalidate_vaddr E (pte_vaddr (pte s5 a j)) s5)))"

definition getPage ::
  "('h, 'd, 'b, 'x) os_ops_scheme \<Rightarrow> bool \<Rightarrow> vaddr_t \<Rightarrow> nat option \<Rightarrow>
     ('h, 'd, 'b, 'a) core_st_scheme \<Rightarrow> (paddr_t \<times> ('h, 'd, 'b, 'a) core_st_scheme) kres" where
  "getPage E is_reserved vaddr as s =
     (let s1 = spinlock_acquire s in
      if \<not> coremapActive s1 then Ret (0, spinlock_release s1) else
      case first_idx (frame_free s1) 0 (coremapSize s1) of
        Some i \<Rightarrow>
          let s2 = upd_core i (\<lambda>e. e\<lparr>allocpages := 1\<rparr>) (set_coreentry i vaddr is_reserved as s1)
          in Ret (frame_addr s2 i, spinlock_release s2)
      | None \<Rightarrow>
          (case as of
             None \<Rightarrow> Ret (frame_addr s1 0, s1)
           | Some a \<Rightarrow>
               kbind (getAvailableSwap s1) (\<lambda>(avail, s2).
               if avail = 0 then Panic ''Not enough memory in Swap File'' else
               if coremapSize s2 = 0 then Undef else
               case victim_loop (Some a) s2 of
                 None \<Rightarrow> Diverges
               | Some (i, s3) \<Rightarrow>
                   kbind (acquire_pt a (spinlock_release s3)) (\<lambda>s4.
                   kbind (evict_page E a i s4) (\<lambda>(addr, s5).
                   kbind (release_pt a s5) (\<lambda>s6.
                   Ret (frame_addr s6 addr, s6)))))))"

text \<open>
  The search of \<open>getMultiplePages\<close>: \<open>first\<close> is the start of the run of free frames the loop is
  in. The value is \<open>first\<close> at the break.
\<close>

fun run_scan :: "(nat \<Rightarrow> bool) \<Rightarrow> nat \<Rightarrow> nat \<Rightarrow> nat \<Rightarrow> nat \<Rightarrow> nat option" where
  "run_scan free n first i 0 = None"
| "run_scan free n first i (Suc k) =
     (if free i then
        let first = (if i = 0 \<or> \<not> free (i - 1) then i else first) in
        if i - first + 1 \<ge> n then Some first else run_scan free n first (Suc i) k
      else run_scan free n first (Suc i) k)"

definition getMultiplePages ::
  "nat \<Rightarrow> bool \<Rightarrow> nat option \<Rightarrow> ('h, 'd, 'b, 'a) core_st_scheme \<Rightarrow>
     (paddr_t \<times> ('h, 'd, 'b, 'a) core_st_scheme) kres" where
  "getMultiplePages n is_reserved as s =
     (let s1 = spinlock_acquire s in
      if \<not> coremapActive s1 then Ret (0, spinlock_release s1) else
      case run_scan (frame_free s1) n 0 0 (coremapSize s1) of
        None \<Rightarrow> Panic ''Multiple page swapping is not required for on demand page loading''
      | Some first \<Rightarrow>
          let s2 = upd_core first (\<lambda>e. e\<lparr>allocpages := n\<rparr>) s1;
              s3 = fold (\<lambda>i t. set_coreentry i (PADDR_TO_KVADDR (frame_addr t i)) is_reserved as t)
                     [first..<first + n] s2
          in Ret (frame_addr s3 first, spinlock_release s3))"

definition getPages ::
  "('h, 'd, 'b, 'x) os_ops_scheme \<Rightarrow> int \<Rightarrow> vaddr_t \<Rightarrow> nat option \<Rightarrow>
     ('h, 'd, 'b, 'a) core_st_scheme \<Rightarrow> (paddr_t \<times> ('h, 'd, 'b, 'a) core_st_scheme) kres" where
  "getPages E n vaddr as s =
     (if n > 1 then getMultiplePages (nat n) False as s else getPage E False vaddr as s)"

definition freepages ::
  "paddr_t \<Rightarrow> ('h, 'd, 'b, 'a) core_st_scheme \<Rightarrow> ('h, 'd, 'b, 'a) core_st_scheme kres" where
  "freepages paddr s =
     (if paddr < firstpaddr s then Ret s else
      let i = unat ((paddr - firstpaddr s) div PAGE_SIZE);
          s1 = spinlock_acquire s
      in if length (coremap s1) \<le> i then Undef else
         let n = allocpages (coremap s1 ! i);
             s2 = upd_core i (\<lambda>e. e\<lparr>allocpages := 0\<rparr>) s1
         in if length (coremap s2) < i + n then Undef
            else Ret (spinlock_release (fold set_empty [i..<i + n] s2)))"

definition getAvailableRam :: "('h, 'd, 'b, 'a) core_st_scheme \<Rightarrow> w32" where
  "getAvailableRam s = of_nat (coremapSize s) - of_nat (ram_used s)"

definition ptAlloc ::
  "('h, 'd, 'b, 'x) os_ops_scheme \<Rightarrow> w32 \<Rightarrow> ('h, 'd, 'b, 'a) core_st_scheme \<Rightarrow>
     (paddr_t \<times> ('h, 'd, 'b, 'a) core_st_scheme) kres" where
  "ptAlloc E n s =
     (let numpages = DIVROUNDUP (sizeof_pt_entry * n) PAGE_SIZE in
      if getAvailableRam s > numpages then
        (if numpages > 1 then getMultiplePages (unat numpages) True None s
         else getPage E True 0 None s)
      else Panic ''No available space for pageTable in RAM'')"

section \<open>Lemmas on frames\<close>

lemma spinlock_core_simps [simp]:
  "coremap (spinlock_acquire s) = coremap s"
  "coremapSize (spinlock_acquire s) = coremapSize s"
  "coremapActive (spinlock_acquire s) = coremapActive s"
  "firstpaddr (spinlock_acquire s) = firstpaddr s"
  "next_svic (spinlock_acquire s) = next_svic s"
  "frame_addr (spinlock_acquire s) i = frame_addr s i"
  "spinlock_release ((spinlock_acquire s)\<lparr>coremap := c\<rparr>) = s\<lparr>coremap := c\<rparr>"
  "spinlock_release ((spinlock_acquire s)\<lparr>next_svic := n\<rparr>) = s\<lparr>next_svic := n\<rparr>"
proof -
  show "spinlock_release ((spinlock_acquire s)\<lparr>coremap := c\<rparr>) = s\<lparr>coremap := c\<rparr>"
    "spinlock_release ((spinlock_acquire s)\<lparr>next_svic := n\<rparr>) = s\<lparr>next_svic := n\<rparr>"
    by (cases "curcpu s < length (allcpus s)";
        simp add: spinlock_release_def spinlock_acquire_def upd_cpu_def list_update_beyond)+
qed (simp_all add: spinlock_acquire_def upd_cpu_def frame_addr_def)

lemma frame_addr_upd [simp]:
  "frame_addr (s\<lparr>coremap := c\<rparr>) i = frame_addr s i"
  "frame_addr (s\<lparr>next_svic := n\<rparr>) i = frame_addr s i"
  by (simp_all add: frame_addr_def)

lemma free_bits: "\<not> CUSED e \<and> \<not> CRES e \<longleftrightarrow> c_vaddr e AND 3 = 0"
proof
  assume z: "c_vaddr e AND 3 = 0"
  have "c_vaddr e AND 2 = (c_vaddr e AND 3) AND 2" by (simp add: and.assoc)
  with z show "\<not> CUSED e \<and> \<not> CRES e" by (simp add: CUSED_def CRES_def)
qed (simp add: CRES_def)

text \<open>
  \<open>core_ok\<close>: the map is in use and covers frames that lie within the 32-bit address space, the
  round robin index is one of them, a free frame has no owner, and the frames of an address
  space are in use and not reserved.
\<close>

definition core_ok :: "('h, 'd, 'b, 'a) core_st_scheme \<Rightarrow> bool" where
  "core_ok s \<longleftrightarrow>
     coremapActive s \<and> length (coremap s) = coremapSize s \<and> next_svic s < coremapSize s \<and>
     firstpaddr s \<noteq> 0 \<and> unat (firstpaddr s) mod 4096 = 0 \<and>
     unat (firstpaddr s) + coremapSize s * 4096 \<le> 2 ^ 32 \<and>
     (\<forall>i<coremapSize s. c_as (coremap s ! i) \<noteq> None \<longrightarrow> c_vaddr (coremap s ! i) AND 3 = 2)"

lemma core_okD:
  assumes "core_ok s"
  shows "coremapActive s" "length (coremap s) = coremapSize s" "next_svic s < coremapSize s"
    "firstpaddr s \<noteq> 0" "unat (firstpaddr s) mod 4096 = 0"
    "unat (firstpaddr s) + coremapSize s * 4096 \<le> 2 ^ 32"
    "\<And>i. i < coremapSize s \<Longrightarrow> c_as (coremap s ! i) \<noteq> None \<Longrightarrow> c_vaddr (coremap s ! i) AND 3 = 2"
  using assms by (simp_all add: core_ok_def)

lemma unat_frame_addr:
  assumes "core_ok s" "i < coremapSize s"
  shows "unat (frame_addr s i) = i * 4096 + unat (firstpaddr s)"
proof -
  have "i * 4096 + unat (firstpaddr s) < 2 ^ 32"
    using core_okD(6) [OF assms(1)] assms(2) by linarith
  moreover have "frame_addr s i = of_nat (i * 4096 + unat (firstpaddr s))"
    by (simp add: frame_addr_def PAGE_SIZE_def)
  ultimately show ?thesis by (simp only: unat_of_nat) simp
qed

lemma frame_addr_inj:
  assumes "core_ok s" "i < coremapSize s" "j < coremapSize s"
  shows "frame_addr s i = frame_addr s j \<longleftrightarrow> i = j"
proof
  assume "frame_addr s i = frame_addr s j"
  then have "i * 4096 + unat (firstpaddr s) = j * 4096 + unat (firstpaddr s)"
    using unat_frame_addr [OF assms(1,2)] unat_frame_addr [OF assms(1,3)] by (simp only:)
  then show "i = j" by simp
qed simp

lemma frame_addr_aligned:
  assumes "core_ok s" "i < coremapSize s"
  shows "unat (frame_addr s i) mod 4096 = 0"
proof -
  have "unat (frame_addr s i) mod 4096 = (unat (firstpaddr s) + i * 4096) mod 4096"
    using unat_frame_addr [OF assms] by (simp only: add.commute)
  also have "\<dots> = unat (firstpaddr s) mod 4096" by simp
  finally show ?thesis using core_okD(5) [OF assms(1)] by simp
qed

lemma frame_addr_ge: "core_ok s \<Longrightarrow> i < coremapSize s \<Longrightarrow> firstpaddr s \<le> frame_addr s i"
  by (simp add: word_le_nat_alt unat_frame_addr)

lemma frame_addr_nonzero: "core_ok s \<Longrightarrow> i < coremapSize s \<Longrightarrow> frame_addr s i \<noteq> 0"
  using core_okD(4) [of s] unat_frame_addr [of s i] by (auto simp: unat_eq_zero [symmetric] simp del: unat_eq_zero)

lemma frame_index:
  assumes "core_ok s" "i < coremapSize s"
  shows "unat ((frame_addr s i - firstpaddr s) div PAGE_SIZE) = i"
proof -
  have "frame_addr s i - firstpaddr s = of_nat (i * 4096)"
    by (simp add: frame_addr_def PAGE_SIZE_def)
  moreover have "i * 4096 < 2 ^ 32" using core_okD(6) [OF assms(1)] assms(2) by linarith
  ultimately have "unat (frame_addr s i - firstpaddr s) = i * 4096"
    by (simp only: unat_of_nat) simp
  then show ?thesis by (simp add: unat_div PAGE_SIZE_def)
qed

text \<open>Two frames do not overlap.\<close>

lemma frames_disjoint:
  assumes "core_ok s" "i < coremapSize s" "j < coremapSize s" "i \<noteq> j" "k < 4096"
  shows "4096 \<le> unat (frame_addr s j + of_nat k - frame_addr s i)"
proof -
  define x y :: w32 where "x = of_nat (j * 4096 + k)" and "y = of_nat (i * 4096)"
  have b: "j * 4096 + k < 2 ^ 32" "i * 4096 < 2 ^ 32" "i * 4096 + 4096 \<le> 2 ^ 32"
    using core_okD(6) [OF assms(1)] assms(2,3,5) by linarith+
  have x: "unat x = j * 4096 + k" and y: "unat y = i * 4096"
    unfolding x_def y_def unat_of_nat using b by simp_all
  have "frame_addr s j + of_nat k - frame_addr s i = x - y"
    by (simp add: frame_addr_def PAGE_SIZE_def x_def y_def)
  moreover have "4096 \<le> unat (x - y)"
    unfolding unat_sub_if' x y using assms(4,5) b by auto
  ultimately show ?thesis by (simp only:)
qed

lemma mem_read_other_frame:
  assumes "core_ok s" "i < coremapSize s" "j < coremapSize s" "i \<noteq> j" "length bs \<le> 4096"
  shows "mem_read (frame_addr s j) 4096 (mem_write (frame_addr s i) bs m) =
    mem_read (frame_addr s j) 4096 m"
  unfolding mem_read_def
proof (rule map_cong [OF refl])
  fix k assume "k \<in> set [0..<4096]"
  then have "k < 4096" by (simp only: set_upt atLeastLessThan_iff)
  then have "length bs \<le> unat (frame_addr s j + of_nat k - frame_addr s i)"
    using frames_disjoint [OF assms(1-4)] assms(5) by (meson order_trans)
  then show "mem_write (frame_addr s i) bs m (frame_addr s j + of_nat k) = m (frame_addr s j + of_nat k)"
    by (rule mem_write_other)
qed

section \<open>The search for a victim\<close>

lemma swapvictim_upd [simp]: "evictable (s\<lparr>next_svic := n\<rparr>) as i = evictable s as i"
  by (simp add: evictable_def)

lemma victim_loop_step:
  "victim_loop as s =
     (if evictable s as (next_svic s)
      then Some (next_svic s, s\<lparr>next_svic := (next_svic s + 1) mod coremapSize s\<rparr>)
      else victim_loop as (s\<lparr>next_svic := (next_svic s + 1) mod coremapSize s\<rparr>))"
  by (subst victim_loop.simps) (simp add: swapvictim_def)

text \<open>
  The loop finds the first evictable frame at or after the round robin index, cyclically, and
  leaves the index behind it.
\<close>

lemma victim_loop_finds:
  assumes "next_svic s < coremapSize s"
    and "evictable s as ((next_svic s + d) mod coremapSize s)"
    and "\<And>k. k < d \<Longrightarrow> \<not> evictable s as ((next_svic s + k) mod coremapSize s)"
  shows "victim_loop as s = Some ((next_svic s + d) mod coremapSize s,
      s\<lparr>next_svic := ((next_svic s + d) mod coremapSize s + 1) mod coremapSize s\<rparr>)"
  using assms
proof (induction d arbitrary: s)
  case 0
  then show ?case by (subst victim_loop_step) simp
next
  case (Suc d)
  let ?N = "coremapSize s"
  let ?t = "s\<lparr>next_svic := (next_svic s + 1) mod ?N\<rparr>"
  have "victim_loop as ?t = Some ((next_svic ?t + d) mod coremapSize ?t,
      ?t\<lparr>next_svic := ((next_svic ?t + d) mod coremapSize ?t + 1) mod coremapSize ?t\<rparr>)"
  proof (rule Suc.IH)
    show "next_svic ?t < coremapSize ?t" using Suc.prems(1) by simp
    show "evictable ?t as ((next_svic ?t + d) mod coremapSize ?t)"
      using Suc.prems(2) by (simp add: mod_simps)
    show "\<not> evictable ?t as ((next_svic ?t + k) mod coremapSize ?t)" if "k < d" for k
      using Suc.prems(3) [of "Suc k"] that by (simp add: mod_simps)
  qed
  moreover have "\<not> evictable s as (next_svic s)"
    using Suc.prems(1) Suc.prems(3) [of 0] by simp
  ultimately show ?case by (subst victim_loop_step) (simp add: mod_add_left_eq)
qed

text \<open>With an evictable frame anywhere in memory the loop ends within one round.\<close>

lemma victim_loop_first:
  assumes N: "next_svic s < coremapSize s" and i: "i < coremapSize s" "evictable s as i"
  defines "c \<equiv> \<lambda>d. (next_svic s + d) mod coremapSize s"
  shows "\<exists>d<coremapSize s. evictable s as (c d) \<and> (\<forall>k<d. \<not> evictable s as (c k)) \<and>
    victim_loop as s = Some (c d, s\<lparr>next_svic := (c d + 1) mod coremapSize s\<rparr>)"
proof -
  let ?N = "coremapSize s"
  let ?P = "\<lambda>d. evictable s as (c d)"
  define e where "e = (i + ?N - next_svic s) mod ?N"
  have "c e = i" using N i(1) by (simp add: c_def e_def mod_add_right_eq)
  then have e: "?P e" "e < ?N" using i N by (simp_all add: e_def)
  obtain d where d: "?P d" "\<And>k. k < d \<Longrightarrow> \<not> ?P k" "d \<le> e"
  proof (rule that [of "LEAST d. ?P d"])
    show "?P (LEAST d. ?P d)" using e(1) by (rule LeastI)
    show "\<not> ?P k" if "k < (LEAST d. ?P d)" for k using that by (rule not_less_Least)
    show "(LEAST d. ?P d) \<le> e" using e(1) by (rule Least_le)
  qed
  have "victim_loop as s = Some (c d, s\<lparr>next_svic := (c d + 1) mod ?N\<rparr>)"
    unfolding c_def by (rule victim_loop_finds [OF N d(1,2) [unfolded c_def]])
  moreover have "d < ?N" using d(3) e(2) by simp
  ultimately show ?thesis using d(1,2) by (intro exI [of _ d]) simp
qed

lemma victim_loop_total:
  assumes "next_svic s < coremapSize s" "i < coremapSize s" "evictable s as i"
  shows "\<exists>j<coremapSize s. evictable s as j \<and>
    victim_loop as s = Some (j, s\<lparr>next_svic := (j + 1) mod coremapSize s\<rparr>)"
proof -
  from victim_loop_first [OF assms] obtain d where "evictable s as ((next_svic s + d) mod coremapSize s)"
    "victim_loop as s = Some ((next_svic s + d) mod coremapSize s,
       s\<lparr>next_svic := ((next_svic s + d) mod coremapSize s + 1) mod coremapSize s\<rparr>)" by (elim exE conjE) (rule that)
  then show ?thesis using assms(1) by (intro exI [of _ "(next_svic s + d) mod coremapSize s"]) simp
qed

lemma victim_loop_evictable:
  assumes "victim_loop as s = Some y"
  shows "next_svic s < coremapSize s \<longrightarrow> fst y < coremapSize s \<and> evictable s as (fst y)"
proof (rule victim_loop.raw_induct [OF _ assms])
  fix f as s y
  assume IH: "\<And>as s y. f as s = Some y \<Longrightarrow>
      next_svic s < coremapSize s \<longrightarrow> fst y < coremapSize s \<and> evictable s as (fst y)"
    and step: "(let (i, s1) = swapvictim s in if evictable s1 as i then Some (i, s1) else f as s1) = Some y"
  show "next_svic s < coremapSize s \<longrightarrow> fst y < coremapSize s \<and> evictable s as (fst y)"
    using step IH [of as "s\<lparr>next_svic := (next_svic s + 1) mod coremapSize s\<rparr>" y]
    by (auto simp: swapvictim_def split: if_splits)
qed

lemma victim_loop_diverges:
  assumes "next_svic s < coremapSize s" "\<And>i. i < coremapSize s \<Longrightarrow> \<not> evictable s as i"
  shows "victim_loop as s = None"
proof (rule ccontr)
  assume "victim_loop as s \<noteq> None"
  then obtain y where "victim_loop as s = Some y" by blast
  from victim_loop_evictable [OF this] assms show False by blast
qed

section \<open>Allocation of one frame\<close>

text \<open>The allocation from a free frame.\<close>

definition taken_entry :: "vaddr_t \<Rightarrow> bool \<Rightarrow> nat option \<Rightarrow> c_entry" where
  "taken_entry va res as =
     \<lparr>c_vaddr = va OR (if res then 3 else 2), c_as = (if res then None else as), allocpages = 1\<rparr>"

lemma take_frame:
  assumes "i < length (coremap s)"
  shows "upd_core i (\<lambda>e. e\<lparr>allocpages := 1\<rparr>) (set_coreentry i va res as s) =
    s\<lparr>coremap := (coremap s)[i := taken_entry va res as]\<rparr>"
  using assms by (cases "coremap s ! i") (simp add: set_coreentry_def upd_core_def taken_entry_def)

lemma getPage_free:
  assumes "core_ok s" "first_idx (frame_free s) 0 (coremapSize s) = Some i"
  shows "getPage E res va as s =
    Ret (frame_addr s i, s\<lparr>coremap := (coremap s)[i := taken_entry va res as]\<rparr>)"
proof -
  have "i < length (coremap (spinlock_acquire s))"
    using first_idx_SomeD [OF assms(2)] core_okD(2) [OF assms(1)] by simp
  from take_frame [OF this] show ?thesis
    using assms(2) core_okD(1) [OF assms(1)] by (simp add: getPage_def)
qed

lemma no_free_first: "first_idx (frame_free s) 0 (coremapSize s) = None \<longleftrightarrow>
    (\<forall>i<coremapSize s. \<not> frame_free s i)"
  by (auto simp: first_idx_None_iff)

text \<open>A full map and no owner: the first frame is handed out again, with the spinlock kept.\<close>

lemma getPage_full_no_as:
  assumes "core_ok s" "first_idx (frame_free s) 0 (coremapSize s) = None"
  shows "getPage E res va None s = Ret (firstpaddr s, spinlock_acquire s)"
  using assms core_okD(1) [OF assms(1)] by (simp add: getPage_def frame_addr_def)

section \<open>Allocation of a run of frames\<close>

definition fits :: "(nat \<Rightarrow> bool) \<Rightarrow> nat \<Rightarrow> nat \<Rightarrow> bool" where
  "fits free n f \<longleftrightarrow> (\<forall>k. f \<le> k \<and> k < f + n \<longrightarrow> free k)"

text \<open>
  The state of the scan before index \<open>i\<close>: no run of \<open>n\<close> frames ends there or before, and if the
  frame before \<open>i\<close> is free, \<open>first\<close> is where its run starts.
\<close>

definition scan_ok :: "(nat \<Rightarrow> bool) \<Rightarrow> nat \<Rightarrow> nat \<Rightarrow> nat \<Rightarrow> bool" where
  "scan_ok free n first i \<longleftrightarrow>
     (\<forall>f. f + n \<le> i \<longrightarrow> \<not> fits free n f) \<and>
     (0 < i \<and> free (i - 1) \<longrightarrow>
        first < i \<and> (\<forall>k. first \<le> k \<and> k < i \<longrightarrow> free k) \<and> (first = 0 \<or> \<not> free (first - 1)))"

lemma scan_first:
  assumes "scan_ok free n first i" "free i"
  defines "g \<equiv> (if i = 0 \<or> \<not> free (i - 1) then i else first)"
  shows "g \<le> i" "\<And>k. g \<le> k \<Longrightarrow> k \<le> i \<Longrightarrow> free k" "g = 0 \<or> \<not> free (g - 1)"
  using assms by (auto simp: scan_ok_def le_less split: if_splits)

lemma scan_step_used:
  assumes "scan_ok free n first i" "\<not> free i" "0 < n"
  shows "scan_ok free n first (Suc i)"
proof -
  have "\<not> fits free n f" if "f + n \<le> Suc i" for f
  proof (cases "f + n \<le> i")
    case True
    with assms(1) show ?thesis by (simp add: scan_ok_def)
  next
    case False
    with that have "f + n = Suc i" by simp
    with assms(2,3) show ?thesis unfolding fits_def by (metis Suc_leI add_Suc_right add_le_cancel_left
          less_Suc_eq_le Suc_pred lessI le_add1)
  qed
  with assms(2) show ?thesis by (simp add: scan_ok_def)
qed

lemma scan_step_free:
  assumes "scan_ok free n first i" "free i" "0 < n"
  defines "g \<equiv> (if i = 0 \<or> \<not> free (i - 1) then i else first)"
  assumes "\<not> i - g + 1 \<ge> n"
  shows "scan_ok free n g (Suc i)"
proof -
  note G = scan_first [OF assms(1,2), folded g_def]
  have "\<not> fits free n f" if "f + n \<le> Suc i" for f
  proof (cases "f + n \<le> i")
    case True
    with assms(1) show ?thesis by (simp add: scan_ok_def)
  next
    case False
    with that have f: "f + n = Suc i" by simp
    with assms(5) G(1) have "f \<le> g - 1" "g - 1 < f + n" "g \<noteq> 0" by linarith+
    with G(3) show ?thesis unfolding fits_def by blast
  qed
  then show ?thesis using G by (auto simp: scan_ok_def less_Suc_eq_le)
qed

lemma scan_found:
  assumes "scan_ok free n first i" "free i" "0 < n"
  defines "g \<equiv> (if i = 0 \<or> \<not> free (i - 1) then i else first)"
  assumes "i - g + 1 \<ge> n"
  shows "fits free n g" "g + n = Suc i" "\<And>f. f < g \<Longrightarrow> \<not> fits free n f"
proof -
  note G = scan_first [OF assms(1,2), folded g_def]
  have nofit: "\<not> fits free n f" if "f + n \<le> i" for f
    using assms(1) that by (simp add: scan_ok_def)
  show fit: "fits free n g" unfolding fits_def
  proof (intro allI impI)
    fix k assume "g \<le> k \<and> k < g + n"
    with assms(5) G(1) show "free k" by (intro G(2)) linarith+
  qed
  then have "\<not> g + n \<le> i" using nofit by blast
  with assms(5) G(1) show e: "g + n = Suc i" by linarith
  show "\<not> fits free n f" if "f < g" for f using that e by (intro nofit) linarith
qed

lemma run_scan_spec:
  assumes "scan_ok free n first i" "0 < n"
  shows "case run_scan free n first i k of
      Some f \<Rightarrow> f + n \<le> i + k \<and> fits free n f \<and> (\<forall>g<f. \<not> fits free n g)
    | None \<Rightarrow> \<forall>f. f + n \<le> i + k \<longrightarrow> \<not> fits free n f"
  using assms
proof (induction k arbitrary: first i)
  case 0
  then show ?case by (simp add: scan_ok_def)
next
  case (Suc k)
  define g where "g = (if i = 0 \<or> \<not> free (i - 1) then i else first)"
  consider "\<not> free i" | "free i" "i - g + 1 \<ge> n" | "free i" "\<not> i - g + 1 \<ge> n" by blast
  then show ?case
  proof cases
    case 1
    then show ?thesis
      using Suc.IH [OF scan_step_used [OF Suc.prems(1) 1 Suc.prems(2)] Suc.prems(2)]
      by (simp split: option.splits)
  next
    case 2
    then have "run_scan free n first i (Suc k) = Some g" by (simp add: g_def Let_def)
    then show ?thesis
      using scan_found [OF Suc.prems(1) 2(1) Suc.prems(2), folded g_def] 2(2) by auto
  next
    case 3
    then have "run_scan free n first i (Suc k) = run_scan free n g (Suc i) k"
      by (simp add: g_def Let_def)
    then show ?thesis
      using Suc.IH [OF scan_step_free [OF Suc.prems(1) 3(1) Suc.prems(2), folded g_def] Suc.prems(2)] 3(2)
      by (simp split: option.splits)
  qed
qed

lemma run_scan_first_fit:
  assumes "0 < n"
  shows "run_scan free n 0 0 N = Some f \<longleftrightarrow>
    f + n \<le> N \<and> fits free n f \<and> (\<forall>g<f. \<not> fits free n g)"
proof -
  have ok: "scan_ok free n 0 0" using assms by (simp add: scan_ok_def)
  show ?thesis
  proof (cases "run_scan free n 0 0 N")
    case None
    with run_scan_spec [OF ok assms, of N] show ?thesis by auto
  next
    case (Some h)
    with run_scan_spec [OF ok assms, of N] show ?thesis by (auto intro: linorder_neqE_nat)
  qed
qed

lemma and_3_take_bit: "(x :: w32) AND 3 = take_bit 2 x"
  by (simp add: take_bit_eq_mask mask_eq_exp_minus_1)

lemma and_3_aligned:
  assumes "unat (x :: w32) mod 4096 = 0"
  shows "x AND 3 = 0"
proof -
  have "unat x mod 4 = unat x mod 4096 mod 4" by (simp add: mod_mod_cancel)
  then have "unat x mod 4 = 0" using assms by simp
  then have "unat (x AND 3) = 0" unfolding and_3_take_bit by (simp add: take_bit_eq_mod unat_mod_distrib)
  then show ?thesis by (simp only: unat_eq_zero)
qed

lemma or_2_and_3: "x AND 3 = 0 \<Longrightarrow> ((x :: w32) OR 2) AND 3 = 2"
  by (simp add: bit.conj_disj_distrib2)

lemma kvaddr_low_bits:
  assumes "core_ok s" "i < coremapSize s"
  shows "PADDR_TO_KVADDR (frame_addr s i) AND 3 = 0"
proof -
  let ?x = "unat (frame_addr s i)"
  have "unat (PADDR_TO_KVADDR (frame_addr s i)) mod 4096 = (?x + 0x80000000) mod 2 ^ 32 mod 4096"
    by (simp add: PADDR_TO_KVADDR_def MIPS_KSEG0_def unat_word_ariths)
  also have "\<dots> = (?x + 0x80000000) mod 4096" by (rule mod_mod_cancel) simp
  also have "\<dots> = (?x mod 4096 + 0x80000000 mod 4096) mod 4096" by (simp only: mod_add_eq)
  also have "\<dots> = 0" using frame_addr_aligned [OF assms] by simp
  finally show ?thesis by (rule and_3_aligned)
qed

subsection \<open>Updating a range of the map\<close>

definition upd_range :: "nat \<Rightarrow> nat \<Rightarrow> (nat \<Rightarrow> c_entry \<Rightarrow> c_entry) \<Rightarrow> c_entry list \<Rightarrow> c_entry list" where
  "upd_range f n g cs =
     map (\<lambda>k. if f \<le> k \<and> k < f + n then g k (cs ! k) else cs ! k) [0..<length cs]"

lemma length_upd_range [simp]: "length (upd_range f n g cs) = length cs"
  by (simp add: upd_range_def)

lemma nth_upd_range [simp]:
  "k < length cs \<Longrightarrow> upd_range f n g cs ! k = (if f \<le> k \<and> k < f + n then g k (cs ! k) else cs ! k)"
  by (simp add: upd_range_def)

lemma fold_upd_range:
  assumes "\<And>i c. h i (s\<lparr>coremap := c\<rparr>) = s\<lparr>coremap := c[i := g i (c ! i)]\<rparr>" "f + n \<le> length cs"
  shows "fold h [f..<f + n] (s\<lparr>coremap := cs\<rparr>) = s\<lparr>coremap := upd_range f n g cs\<rparr>"
  using assms(2)
proof (induction n)
  case 0
  have "upd_range f 0 g cs = cs" by (rule nth_equalityI) auto
  then show ?case by simp
next
  case (Suc n)
  have "(upd_range f n g cs)[f + n := g (f + n) (upd_range f n g cs ! (f + n))] = upd_range f (Suc n) g cs"
    using Suc.prems by (intro nth_equalityI) (auto simp: nth_list_update)
  with Suc assms(1) show ?case by simp
qed

text \<open>The map after a run of frames was taken, and after one was given back.\<close>

definition take_run :: "nat \<Rightarrow> nat \<Rightarrow> bool \<Rightarrow> nat option \<Rightarrow> ('h, 'd, 'b, 'a) core_st_scheme \<Rightarrow> c_entry list" where
  "take_run f n res as s = upd_range f n (\<lambda>k e.
     \<lparr>c_vaddr = PADDR_TO_KVADDR (frame_addr s k) OR (if res then 3 else 2),
      c_as = (if res then None else as), allocpages = (if k = f then n else allocpages e)\<rparr>) (coremap s)"

definition give_run :: "nat \<Rightarrow> nat \<Rightarrow> c_entry list \<Rightarrow> c_entry list" where
  "give_run f n cs = upd_range f n (\<lambda>k e.
     \<lparr>c_vaddr = 0, c_as = None, allocpages = (if k = f then 0 else allocpages e)\<rparr>) cs"

lemma getMultiplePages_eq:
  assumes "core_ok s" "0 < n" "run_scan (frame_free s) n 0 0 (coremapSize s) = Some f"
  shows "getMultiplePages n res as s =
    Ret (frame_addr s f, s\<lparr>coremap := take_run f n res as s\<rparr>)"
proof -
  have b: "f + n \<le> length (coremap s)"
    using assms(3) core_okD(2) [OF assms(1)] by (simp add: run_scan_first_fit [OF assms(2)])
  let ?s = "spinlock_acquire s"
  let ?h = "\<lambda>i t. set_coreentry i (PADDR_TO_KVADDR (frame_addr t i)) res as t"
  let ?g = "\<lambda>k e. e\<lparr>c_vaddr := PADDR_TO_KVADDR (frame_addr s k) OR (if res then 3 else 2),
      c_as := (if res then None else as)\<rparr>"
  let ?c = "(coremap s)[f := (coremap s ! f)\<lparr>allocpages := n\<rparr>]"
  have "fold ?h [f..<f + n] (?s\<lparr>coremap := ?c\<rparr>) = ?s\<lparr>coremap := upd_range f n ?g ?c\<rparr>"
    using b by (intro fold_upd_range) (simp_all add: set_coreentry_def upd_core_def)
  moreover have "upd_range f n ?g ?c = take_run f n res as s"
    using b assms(2) unfolding take_run_def by (intro nth_equalityI) (auto simp: nth_list_update)
  ultimately show ?thesis
    using assms(3) core_okD(1) [OF assms(1)]
    by (simp add: getMultiplePages_def upd_core_def del: fold_simps)
qed

lemma getMultiplePages_none:
  assumes "core_ok s" "0 < n" "run_scan (frame_free s) n 0 0 (coremapSize s) = None"
  shows "getMultiplePages n res as s =
    Panic ''Multiple page swapping is not required for on demand page loading''"
  using assms core_okD(1) [OF assms(1)] by (simp add: getMultiplePages_def)

lemma freepages_eq:
  assumes "core_ok s" "f < coremapSize s" "allocpages (coremap s ! f) = n" "f + n \<le> coremapSize s" "0 < n"
  shows "freepages (frame_addr s f) s = Ret (s\<lparr>coremap := give_run f n (coremap s)\<rparr>)"
proof -
  let ?s = "spinlock_acquire s"
  let ?c = "(coremap s)[f := (coremap s ! f)\<lparr>allocpages := 0\<rparr>]"
  let ?g = "\<lambda>k e. e\<lparr>c_vaddr := 0, c_as := None\<rparr>"
  note L = core_okD(2) [OF assms(1)]
  have "fold set_empty [f..<f + n] (?s\<lparr>coremap := ?c\<rparr>) = ?s\<lparr>coremap := upd_range f n ?g ?c\<rparr>"
    using assms L by (intro fold_upd_range) (simp_all add: set_empty_def upd_core_def)
  moreover have "upd_range f n ?g ?c = give_run f n (coremap s)"
    using assms(2-5) L unfolding give_run_def by (intro nth_equalityI) (auto simp: nth_list_update)
  moreover have "\<not> frame_addr s f < firstpaddr s"
    using frame_addr_ge [OF assms(1,2)] by simp
  ultimately show ?thesis
    using assms(2-4) L frame_index [OF assms(1,2)]
    by (simp add: freepages_def upd_core_def Let_def del: fold_simps)
qed

subsection \<open>Every operation keeps the map well formed\<close>

lemma core_ok_upd:
  assumes "core_ok s" "length cs = coremapSize s"
    and "\<And>i. i < coremapSize s \<Longrightarrow> c_as (cs ! i) \<noteq> None \<Longrightarrow> c_vaddr (cs ! i) AND 3 = 2"
  shows "core_ok (s\<lparr>coremap := cs\<rparr>)"
  using assms by (simp add: core_ok_def)

lemma core_ok_take_run:
  assumes "core_ok s"
  shows "core_ok (s\<lparr>coremap := take_run f n res as s\<rparr>)"
proof (rule core_ok_upd [OF assms])
  show "length (take_run f n res as s) = coremapSize s"
    by (simp add: take_run_def core_okD(2) [OF assms])
  fix i assume i: "i < coremapSize s" "c_as (take_run f n res as s ! i) \<noteq> None"
  show "c_vaddr (take_run f n res as s ! i) AND 3 = 2"
    using i core_okD(7) [OF assms i(1)] or_2_and_3 [OF kvaddr_low_bits [OF assms i(1)]]
    by (auto simp: take_run_def core_okD(2) [OF assms] split: if_splits)
qed

lemma core_ok_give_run:
  assumes "core_ok s"
  shows "core_ok (s\<lparr>coremap := give_run f n (coremap s)\<rparr>)"
proof (rule core_ok_upd [OF assms])
  show "length (give_run f n (coremap s)) = coremapSize s"
    by (simp add: give_run_def core_okD(2) [OF assms])
  fix i assume i: "i < coremapSize s" "c_as (give_run f n (coremap s) ! i) \<noteq> None"
  show "c_vaddr (give_run f n (coremap s) ! i) AND 3 = 2"
    using i core_okD(7) [OF assms i(1)]
    by (auto simp: give_run_def core_okD(2) [OF assms] split: if_splits)
qed

lemma core_ok_taken:
  assumes "core_ok s" "va AND 3 = 0"
  shows "core_ok (s\<lparr>coremap := (coremap s)[i := taken_entry va res as]\<rparr>)"
proof (rule core_ok_upd [OF assms(1)])
  show "length ((coremap s)[i := taken_entry va res as]) = coremapSize s"
    by (simp add: core_okD(2) [OF assms(1)])
  fix j assume j: "j < coremapSize s" "c_as ((coremap s)[i := taken_entry va res as] ! j) \<noteq> None"
  show "c_vaddr ((coremap s)[i := taken_entry va res as] ! j) AND 3 = 2"
    using j core_okD(7) [OF assms(1) j(1)] or_2_and_3 [OF assms(2)] core_okD(2) [OF assms(1)]
    by (cases "j = i") (auto simp: taken_entry_def split: if_splits)
qed

definition free_frames :: "('h, 'd, 'b, 'a) core_st_scheme \<Rightarrow> nat set" where
  "free_frames s = {i. i < coremapSize s \<and> frame_free s i}"

lemma free_frames_fits:
  "{f..<f + n} \<subseteq> free_frames s \<longleftrightarrow> fits (frame_free s) n f \<and> (n = 0 \<or> f + n \<le> coremapSize s)"
proof
  assume sub: "{f..<f + n} \<subseteq> free_frames s"
  have "f + n \<le> coremapSize s" if "n \<noteq> 0"
  proof -
    have "f + n - 1 \<in> {f..<f + n}" using that by simp
    then have "f + n - 1 < coremapSize s" using sub by (auto simp: free_frames_def)
    with that show ?thesis by linarith
  qed
  moreover have "fits (frame_free s) n f" using sub by (auto simp: fits_def free_frames_def)
  ultimately show "fits (frame_free s) n f \<and> (n = 0 \<or> f + n \<le> coremapSize s)" by blast
qed (auto simp: fits_def free_frames_def)

text \<open>With a free run there is a first one, which is what the searches find.\<close>

lemma first_free_exists:
  assumes "g \<in> free_frames s"
  shows "\<exists>f. first_idx (frame_free s) 0 (coremapSize s) = Some f \<and> f \<le> g \<and> f < coremapSize s \<and> frame_free s f"
proof -
  have g: "g < coremapSize s" "frame_free s g" using assms by (auto simp: free_frames_def)
  then have "first_idx (frame_free s) 0 (coremapSize s) \<noteq> None" by (auto simp: no_free_first)
  then obtain f where f: "first_idx (frame_free s) 0 (coremapSize s) = Some f" by blast
  have "f \<le> g"
  proof (rule ccontr)
    assume "\<not> f \<le> g"
    then have "g < f" by simp
    with f g(2) show False unfolding first_idx_Some_iff by auto
  qed
  with f first_idx_SomeD [OF f] show ?thesis by auto
qed

lemma run_scan_exists:
  assumes "0 < n" "{g..<g + n} \<subseteq> free_frames s"
  shows "\<exists>f. run_scan (frame_free s) n 0 0 (coremapSize s) = Some f \<and> f \<le> g \<and> {f..<f + n} \<subseteq> free_frames s"
proof -
  have g: "fits (frame_free s) n g" "g + n \<le> coremapSize s"
    using assms free_frames_fits [of g n s] by auto
  define f where "f = (LEAST f. fits (frame_free s) n f)"
  have "fits (frame_free s) n f" unfolding f_def by (rule LeastI [of "fits (frame_free s) n", OF g(1)])
  moreover have "f \<le> g" unfolding f_def by (rule Least_le [of "fits (frame_free s) n", OF g(1)])
  moreover have "\<not> fits (frame_free s) n h" if "h < f" for h
    using that unfolding f_def by (rule not_less_Least)
  ultimately have f: "fits (frame_free s) n f" "f \<le> g" "\<forall>h<f. \<not> fits (frame_free s) n h" by simp_all
  then have "f + n \<le> coremapSize s" using g(2) by linarith
  with f show ?thesis
    by (intro exI [of _ f]) (simp add: run_scan_first_fit [OF assms(1)] free_frames_fits)
qed

lemma or_and_2: "(x OR 3) AND 2 \<noteq> (0 :: w32)" "(x OR 2) AND 2 \<noteq> (0 :: w32)"
proof -
  have "(x AND 2) OR 2 = 2" by (rule bit_word_eqI) (auto simp: bit_or_iff bit_and_iff)
  then show "(x OR 3) AND 2 \<noteq> (0 :: w32)" "(x OR 2) AND 2 \<noteq> (0 :: w32)"
    by (simp_all add: bit.conj_disj_distrib2)
qed

lemma free_frames_take_run:
  assumes "core_ok s" "f + n \<le> coremapSize s"
  shows "free_frames (s\<lparr>coremap := take_run f n res as s\<rparr>) = free_frames s - {f..<f + n}"
  using assms core_okD(2) [OF assms(1)] or_and_2
  by (auto simp: free_frames_def take_run_def CUSED_def split: if_splits)

lemma free_frames_taken:
  assumes "core_ok s" "i < coremapSize s"
  shows "free_frames (s\<lparr>coremap := (coremap s)[i := taken_entry va res as]\<rparr>) = free_frames s - {i}"
proof -
  have "CUSED (taken_entry va res as)" using or_and_2 by (simp add: taken_entry_def CUSED_def)
  then show ?thesis
    using assms core_okD(2) [OF assms(1)]
    by (auto simp: free_frames_def nth_list_update split: if_splits)
qed

lemma free_frames_give_run:
  assumes "core_ok s" "f + n \<le> coremapSize s"
  shows "free_frames (s\<lparr>coremap := give_run f n (coremap s)\<rparr>) = free_frames s \<union> {f..<f + n}"
  using assms core_okD(2) [OF assms(1)]
  by (auto simp: free_frames_def give_run_def CUSED_def CRES_def split: if_splits)

section \<open>The contract of a frame allocator\<close>

text \<open>
  What the kernel relies on: if some run of \<open>n\<close> frames is free, the allocator returns the address
  of the first one there is, takes exactly its frames and remembers its length; giving back an
  address frees the run that was allocated there and nothing else.
\<close>

locale frame_allocator =
  fixes inv :: "'s \<Rightarrow> bool"
    and free :: "'s \<Rightarrow> nat set"
    and total :: "'s \<Rightarrow> nat"
    and block :: "'s \<Rightarrow> nat \<Rightarrow> nat"
    and addr :: "'s \<Rightarrow> nat \<Rightarrow> paddr_t"
    and alloc :: "nat \<Rightarrow> 's \<Rightarrow> (paddr_t \<times> 's) kres"
    and release :: "paddr_t \<Rightarrow> 's \<Rightarrow> 's kres"
  assumes free_bound: "inv s \<Longrightarrow> free s \<subseteq> {..<total s}"
    and addr_inj: "inv s \<Longrightarrow> i < total s \<Longrightarrow> j < total s \<Longrightarrow> addr s i = addr s j \<Longrightarrow> i = j"
    and alloc_ok: "inv s \<Longrightarrow> 0 < n \<Longrightarrow> {g..<g + n} \<subseteq> free s \<Longrightarrow>
      \<exists>f s'. alloc n s = Ret (addr s f, s') \<and> {f..<f + n} \<subseteq> free s \<and> f \<le> g \<and>
        free s' = free s - {f..<f + n} \<and> (\<forall>k<total s. block s' k = (if k = f then n else block s k)) \<and>
        inv s' \<and> addr s' = addr s \<and> total s' = total s"
    and release_ok: "inv s \<Longrightarrow> 0 < block s f \<Longrightarrow> f + block s f \<le> total s \<Longrightarrow>
      \<exists>s'. release (addr s f) s = Ret s' \<and> free s' = free s \<union> {f..<f + block s f} \<and>
        inv s' \<and> addr s' = addr s \<and> total s' = total s"
begin

lemma run_bound:
  assumes "inv s" "0 < n" "{f..<f + n} \<subseteq> free s"
  shows "f + n \<le> total s"
proof -
  have "f + n - 1 \<in> {f..<f + n}" using assms(2) by auto
  then have "f + n - 1 < total s" using assms(1,3) free_bound by blast
  with assms(2) show ?thesis by linarith
qed

lemma alloc_release:
  assumes "inv s" "0 < n" "{g..<g + n} \<subseteq> free s"
  shows "\<exists>p s1 s2. alloc n s = Ret (p, s1) \<and> release p s1 = Ret s2 \<and> inv s2 \<and> free s2 = free s"
proof -
  obtain f s1 where a: "alloc n s = Ret (addr s f, s1)" "{f..<f + n} \<subseteq> free s"
    "free s1 = free s - {f..<f + n}" "\<forall>k<total s. block s1 k = (if k = f then n else block s k)"
    "inv s1" "addr s1 = addr s" "total s1 = total s"
    using alloc_ok [OF assms] by blast
  note b = run_bound [OF assms(1,2) a(2)]
  then have blk: "block s1 f = n" using a(4) assms(2) by auto
  obtain s2 where "release (addr s1 f) s1 = Ret s2" "inv s2" "free s2 = free s1 \<union> {f..<f + n}"
    using release_ok [OF a(5), of f] blk assms(2) b a(7) by auto
  moreover have "free s1 \<union> {f..<f + n} = free s" using a(2,3) by blast
  ultimately show ?thesis using a(1,6) by metis
qed

lemma alloc_run:
  assumes "inv s" "0 < n" "{g..<g + n} \<subseteq> free s" "alloc n s = Ret (p, s1)"
  shows "\<exists>f. p = addr s f \<and> {f..<f + n} \<subseteq> free s \<and> f + n \<le> total s \<and> free s1 = free s - {f..<f + n} \<and>
    inv s1 \<and> addr s1 = addr s \<and> total s1 = total s"
proof -
  obtain f s' where f: "alloc n s = Ret (addr s f, s')" "{f..<f + n} \<subseteq> free s" "free s' = free s - {f..<f + n}" "inv s'"
    "addr s' = addr s" "total s' = total s" using alloc_ok [OF assms(1-3)] by blast
  moreover have "p = addr s f" "s1 = s'" using f(1) assms(4) by simp_all
  ultimately show ?thesis using run_bound [OF assms(1,2) f(2)] by blast
qed

end

interpretation cm: frame_allocator
  "\<lambda>s :: ('h, 'd, 'b, 'a) core_st_scheme. core_ok s \<and> va AND 3 = 0" free_frames coremapSize
  "\<lambda>s k. allocpages (coremap s ! k)" frame_addr "\<lambda>n. getPages E (int n) va as" freepages
  for E :: "('h, 'd, 'b, 'x) os_ops_scheme" and va as
proof unfold_locales
  fix s :: "('h, 'd, 'b, 'a) core_st_scheme" and i j n g f
  assume inv: "core_ok s \<and> va AND 3 = 0"
  then have ok: "core_ok s" and va: "va AND 3 = 0" by auto
  note L = core_okD(2) [OF ok]
  show "free_frames s \<subseteq> {..<coremapSize s}" by (auto simp: free_frames_def)
  show "i < coremapSize s \<Longrightarrow> j < coremapSize s \<Longrightarrow> frame_addr s i = frame_addr s j \<Longrightarrow> i = j"
    using frame_addr_inj [OF ok] by blast
  show "\<exists>s'. freepages (frame_addr s f) s = Ret s' \<and>
      free_frames s' = free_frames s \<union> {f..<f + allocpages (coremap s ! f)} \<and>
      (core_ok s' \<and> va AND 3 = 0) \<and> frame_addr s' = frame_addr s \<and> coremapSize s' = coremapSize s"
    if "0 < allocpages (coremap s ! f)" "f + allocpages (coremap s ! f) \<le> coremapSize s"
    using that freepages_eq [OF ok _ refl, of f] core_ok_give_run [OF ok] free_frames_give_run [OF ok] va
    by (auto simp: fun_eq_iff)
  assume n: "0 < n" "{g..<g + n} \<subseteq> free_frames s"
  show "\<exists>f s'. getPages E (int n) va as s = Ret (frame_addr s f, s') \<and> {f..<f + n} \<subseteq> free_frames s \<and>
      f \<le> g \<and> free_frames s' = free_frames s - {f..<f + n} \<and>
      (\<forall>k<coremapSize s. allocpages (coremap s' ! k) = (if k = f then n else allocpages (coremap s ! k))) \<and>
      (core_ok s' \<and> va AND 3 = 0) \<and> frame_addr s' = frame_addr s \<and> coremapSize s' = coremapSize s"
  proof (cases "n = 1")
    case True
    then obtain f where f: "first_idx (frame_free s) 0 (coremapSize s) = Some f" "f \<le> g"
      "f < coremapSize s" "frame_free s f"
      using first_free_exists [of g s] n by auto
    then show ?thesis
      using True f getPage_free [OF ok f(1), of E False va as] core_ok_taken [OF ok va, of f False as] va L
        free_frames_taken [OF ok, of f va False as]
      by (intro exI [of _ f])
         (auto simp: getPages_def free_frames_def nth_list_update taken_entry_def fun_eq_iff)
  next
    case False
    obtain f where f: "run_scan (frame_free s) n 0 0 (coremapSize s) = Some f" "f \<le> g"
      using run_scan_exists [OF n] by blast
    then have b: "f + n \<le> coremapSize s" "fits (frame_free s) n f"
      by (simp_all add: run_scan_first_fit [OF n(1)])
    have sub: "{f..<f + n} \<subseteq> free_frames s" using b free_frames_fits by blast
    show ?thesis
      using False f(2) n(1) b sub getMultiplePages_eq [OF ok n(1) f(1), of False as] va L
        core_ok_take_run [OF ok, of f n False as] free_frames_take_run [OF ok b(1), of False as]
      by (intro exI [of _ f]) (auto simp: getPages_def take_run_def fun_eq_iff)
  qed
qed

section \<open>Initialisation\<close>

lemma round_up_bounds:
  fixes x :: nat
  shows "x \<le> (x + 4095) div 4096 * 4096" "(x + 4095) div 4096 * 4096 \<le> x + 4095"
  using div_mult_mod_eq [of "x + 4095" 4096] mod_less_divisor [of 4096 "x + 4095"] by linarith+

lemma round_up_step:
  fixes x :: nat
  assumes "x mod 4096 \<noteq> 0"
  shows "(x + 4095) div 4096 = x div 4096 + 1"
proof -
  have "x + 4095 = (x mod 4096 - 1) + (x div 4096 + 1) * 4096"
    using div_mult_mod_eq [of x 4096] assms unfolding neq0_conv by (simp add: algebra_simps)
  also have "\<dots> div 4096 = (x div 4096 + 1) + (x mod 4096 - 1) div 4096" by (rule div_mult_self1) simp
  also have "(x mod 4096 - 1) div 4096 = 0" using mod_less_divisor [of 4096 x] by (intro div_less) linarith
  finally show ?thesis by simp
qed

lemma round_up_exact:
  fixes x :: nat
  assumes "x mod 4096 = 0"
  shows "(x + 4095) div 4096 * 4096 = x"
proof -
  obtain q where q: "x = q * 4096" using assms by (metis add_0_right div_mult_mod_eq)
  have "(q * 4096 + 4095) div 4096 = (4095 + q * 4096) div (4096 :: nat)" by (simp only: add.commute)
  also have "\<dots> = q + 4095 div (4096 :: nat)" by (rule div_mult_self1) simp
  also have "\<dots> = q" by simp
  finally show ?thesis unfolding q by (simp only:)
qed

lemma unat_ALLIGN_NEXT_ADDR:
  assumes "unat p + 4095 < 2 ^ 32"
  shows "unat (ALLIGN_NEXT_ADDR p) = (unat p + 4095) div 4096 * 4096"
proof -
  have m: "p mod PAGE_SIZE = 0 \<longleftrightarrow> unat p mod 4096 = 0"
    using unat_mod_distrib [of p PAGE_SIZE] by (metis unat_PAGE_SIZE unat_eq_zero)
  have d: "unat (p div PAGE_SIZE) = unat p div 4096"
    by (simp add: PAGE_SIZE_def unat_div_distrib)
  show ?thesis
  proof (cases "unat p mod 4096 = 0")
    case True
    then have "(unat p + 4095) div 4096 * 4096 = unat p"
      by (rule round_up_exact)
    with True m show ?thesis by (simp add: ALLIGN_NEXT_ADDR_def)
  next
    case False
    have "of_nat (unat (p div PAGE_SIZE)) = (of_nat (unat p div 4096) :: w32)" by (simp only: d)
    then have "p div PAGE_SIZE = of_nat (unat p div 4096)" by simp
    then have "(p div PAGE_SIZE + 1) * PAGE_SIZE = of_nat ((unat p div 4096 + 1) * 4096)"
      by (simp only: PAGE_SIZE_def of_nat_1 of_nat_add of_nat_mult of_nat_numeral)
    moreover have q: "(unat p + 4095) div 4096 = unat p div 4096 + 1"
      using False by (rule round_up_step)
    moreover have "(unat p div 4096 + 1) * 4096 < 2 ^ 32"
      using assms div_times_less_eq_dividend [of "unat p + 4095" 4096] unfolding q by linarith
    ultimately show ?thesis
      using False m by (simp only: ALLIGN_NEXT_ADDR_def if_False unat_of_nat) simp
  qed
qed

lemma unat_DIVROUNDUP:
  assumes "unat a + 4095 < 2 ^ 32"
  shows "unat (DIVROUNDUP a PAGE_SIZE) = (unat a + 4095) div 4096"
proof -
  have "a + PAGE_SIZE - 1 = of_nat (unat a + 4095)" by (simp add: PAGE_SIZE_def)
  then have "unat (a + PAGE_SIZE - 1) = unat a + 4095"
    using assms by (simp only: unat_of_nat) simp
  then show ?thesis by (simp only: DIVROUNDUP_def unat_div_distrib unat_PAGE_SIZE)
qed

text \<open>
  The map of a machine whose memory reaches from the first free address, rounded up to \<open>F\<close>, to
  \<open>ramsize\<close>: it covers \<open>N - C\<close> frames, where \<open>C\<close> pages below them hold the map itself.
\<close>

lemma coremap_init_values:
  fixes s :: "('h, 'd, 'b, 'a) core_st_scheme"
  assumes "unat firstfree + 4095 \<le> unat ramsize" "unat ramsize \<le> 0x20000000"
  defines "F \<equiv> (unat firstfree + 4095) div 4096 * 4096"
  defines "N \<equiv> (unat ramsize - F) div 4096"
  defines "C \<equiv> (N * 12 + 4095) div 4096"
  shows "coremapSize (coremap_init ramsize firstfree s) = N - C"
    and "unat (firstpaddr (coremap_init ramsize firstfree s)) = F + C * 4096"
    and "C \<le> N" "(N - C) * 12 \<le> C * 4096" "F + C * 4096 + (N - C) * 4096 \<le> unat ramsize"
    and "unat firstfree \<le> F"
proof -
  have F: "F \<le> unat ramsize" "unat firstfree \<le> F" using assms(1) round_up_bounds [of "unat firstfree"] unfolding F_def by linarith+
  have N: "N * 4096 \<le> unat ramsize - F" "N \<le> 0x20000" using assms(2) unfolding N_def by linarith+
  show CN: "C \<le> N"
    using round_up_bounds(2) [of "N * 12"] unfolding C_def by linarith
  have C: "N * 12 \<le> C * 4096" unfolding C_def by (rule round_up_bounds)
  then show "(N - C) * 12 \<le> C * 4096" by linarith
  show le: "F + C * 4096 + (N - C) * 4096 \<le> unat ramsize" using N(1) F CN by (simp add: diff_mult_distrib)
  show "unat firstfree \<le> F" by (rule F)
  have first: "unat (ALLIGN_NEXT_ADDR firstfree) = F"
    using assms(1,2) unat_ALLIGN_NEXT_ADDR [of firstfree] unfolding F_def by simp
  then have "ALLIGN_NEXT_ADDR firstfree \<le> ramsize" using F by (simp add: word_le_nat_alt)
  then have sz: "unat ((ramsize - ALLIGN_NEXT_ADDR firstfree) div PAGE_SIZE) = N"
    by (simp add: unat_div_distrib unat_sub first N_def)
  let ?sz = "(ramsize - ALLIGN_NEXT_ADDR firstfree) div PAGE_SIZE"
  have "unat (?sz * sizeof_c_entry) = N * 12"
    using sz N(2) by (simp add: sizeof_c_entry_def unat_word_ariths)
  then have cs: "unat (DIVROUNDUP (?sz * sizeof_c_entry) PAGE_SIZE) = C"
    using unat_DIVROUNDUP [of "?sz * sizeof_c_entry"] N(2) by (simp add: C_def)
  let ?cs = "DIVROUNDUP (?sz * sizeof_c_entry) PAGE_SIZE"
  have "?cs \<le> ?sz" using cs sz CN by (simp only: word_le_nat_alt)
  then show "coremapSize (coremap_init ramsize firstfree s) = N - C"
    by (simp add: coremap_init_def Let_def unat_sub sz cs)
  have "unat (?cs * PAGE_SIZE) = C * 4096"
    using cs CN N(2) by (simp add: unat_word_ariths)
  moreover have "F + C * 4096 < 2 ^ 32" using le assms(2) by simp
  ultimately have "unat (ALLIGN_NEXT_ADDR firstfree + ?cs * PAGE_SIZE) = F + C * 4096"
    using first by (simp add: unat_word_ariths)
  then show "unat (firstpaddr (coremap_init ramsize firstfree s)) = F + C * 4096"
    by (simp add: coremap_init_def Let_def)
qed

lemma coremap_init_ok:
  assumes "unat firstfree + 4095 \<le> unat ramsize" "unat ramsize \<le> 0x20000000" "next_svic s = 0"
    and "0 < coremapSize (coremap_init ramsize firstfree s)"
  shows "core_ok (coremap_init ramsize firstfree s)"
    and "free_frames (coremap_init ramsize firstfree s) = {..<coremapSize (coremap_init ramsize firstfree s)}"
proof -
  let ?s = "coremap_init ramsize firstfree s"
  note V = coremap_init_values [OF assms(1,2)]
  have len: "coremapActive ?s" "length (coremap ?s) = coremapSize ?s" "next_svic ?s = 0"
    "\<And>i. i < coremapSize ?s \<Longrightarrow> coremap ?s ! i = \<lparr>c_vaddr = 0, c_as = None, allocpages = 0\<rparr>"
    using assms(3) by (simp_all add: coremap_init_def Let_def)
  have fp: "unat (firstpaddr ?s) mod 4096 = 0" unfolding V(2) by simp
  have "unat (firstpaddr ?s) + coremapSize ?s * 4096 \<le> unat ramsize"
    unfolding V(1,2) by (rule V(5))
  then have "unat (firstpaddr ?s) + coremapSize ?s * 4096 \<le> 2 ^ 32" using assms(2) by simp
  moreover have "firstpaddr ?s \<noteq> 0"
  proof -
    have "0 < C * 4096" if "0 < N - C" "(N - C) * 12 \<le> C * 4096" for N C :: nat
      using that by linarith
    then have "0 < unat (firstpaddr ?s)"
      using assms(4) V(4) unfolding V(1,2) by (intro trans_less_add2) blast
    then show ?thesis by auto
  qed
  ultimately show "core_ok ?s" using len fp assms(4) by (simp add: core_ok_def)
  show "free_frames ?s = {..<coremapSize ?s}"
    using len(4) by (auto simp: free_frames_def CUSED_def CRES_def)
qed

section \<open>Releasing the frames of an address space\<close>

lemma freeAs_eq:
  assumes "length (coremap s) = coremapSize s"
  shows "freeAs as s = s\<lparr>coremap :=
    map (\<lambda>e. if c_as e = as then e\<lparr>c_vaddr := 0, c_as := None\<rparr> else e) (coremap s)\<rparr>"
proof -
  let ?s = "spinlock_acquire s"
  let ?g = "\<lambda>(i::nat) e. if c_as e = as then e\<lparr>c_vaddr := 0, c_as := None\<rparr> else e"
  let ?h = "\<lambda>i t. if c_as (coremap t ! i) = as then set_empty i t else t"
  have "fold ?h [0..<0 + coremapSize s] (?s\<lparr>coremap := coremap s\<rparr>) =
      ?s\<lparr>coremap := upd_range 0 (coremapSize s) ?g (coremap s)\<rparr>"
    using assms by (intro fold_upd_range) (auto simp: set_empty_def upd_core_def)
  moreover have "?s\<lparr>coremap := coremap s\<rparr> = ?s"
    using spinlock_core_simps(1) [of s] by (metis (no_types, lifting) core_st.surjective core_st.update_convs(1))
  moreover have "upd_range 0 (coremapSize s) ?g (coremap s) =
      map (\<lambda>e. if c_as e = as then e\<lparr>c_vaddr := 0, c_as := None\<rparr> else e) (coremap s)"
    using assms by (intro nth_equalityI) auto
  ultimately show ?thesis by (simp add: freeAs_def)
qed

end
