(* ===== verification/Addrspace.thy ===== *)
theory Addrspace
  imports Coremap
begin

text \<open>
  Address spaces (\<open>kern/vm/addrspace.c\<close>, without \<open>vm_fault\<close>): creation, copy and destruction,
  the definition of regions, the construction of the page table, and the allocation of kernel
  pages. \<open>vfs_open\<close>, \<open>vfs_close\<close> and \<open>ram_stealmem\<close> are outside the repository and are operations
  on the state of the devices. \<open>vfs_open\<close> may overwrite the name it is given, so it also returns what it leaves
  in that buffer. Memory that \<open>kmalloc\<close> or \<open>ptAlloc\<close> hands out and the code does not
  initialise keeps what it held before (\<open>junk\<close> for the array of \<open>as_copy\<close>).
\<close>

section \<open>The interface to the rest of the kernel\<close>

record ('h, 'd, 'b) vm_ops = "('h, 'd, 'b) os_ops" +
  vfs_open :: "string \<Rightarrow> 'd \<Rightarrow> kerr \<times> nat \<times> string \<times> 'd"
  vfs_close :: "nat \<Rightarrow> 'd \<Rightarrow> 'd"
  ram_stealmem :: "nat \<Rightarrow> 'd \<Rightarrow> paddr_t \<times> 'd"

definition STACKPAGES :: w32 where "STACKPAGES = 18"
definition PF_X :: w32 where "PF_X = 1"
definition PF_W :: w32 where "PF_W = 2"
definition PF_R :: w32 where "PF_R = 4"

section \<open>Creation\<close>

text \<open>The result has the name the caller finds in its buffer afterwards, which is also the one \<open>kstrdup\<close> copies.\<close>

definition as_create ::
  "('h, 'd, 'b, 'x) vm_ops_scheme \<Rightarrow> string \<Rightarrow> ('h, 'd, 'b, 'a) core_st_scheme \<Rightarrow>
     (nat option \<times> kerr \<times> string \<times> ('h, 'd, 'b, 'a) core_st_scheme) kres" where
  "as_create E prog_name s =
     can_sleep s
      (let (ok, s1) = kmalloc s in
       if \<not> ok then Ret (None, Some ENOMEM, prog_name, s1) else
       let a = next_as s1;
           s2 = s1\<lparr>next_as := a + 1\<rparr>;
           (err, v, prog_name, d) = vfs_open E prog_name (disk s2);
           s3 = s2\<lparr>disk := d\<rparr> in
       if err \<noteq> None then Ret (None, Some ENOENT, prog_name, s3) else
       let (ok, s4) = kmalloc s3;
           s5 = upd_as a (\<lambda>x. x\<lparr>as_v := v, progname := (if ok then Some prog_name else None),
                  as_segment := [], as_pt := 0, as_ptab := []\<rparr>) s4;
           (l, s6) = lock_create ''PT_lock'' s5 in
       case l of
         None \<Rightarrow> Ret (None, Some ENOMEM, prog_name, kfree (s6\<lparr>disk := vfs_close E v (disk s6)\<rparr>))
       | Some lk \<Rightarrow> Ret (Some a, None, prog_name, upd_as a (\<lambda>x. x\<lparr>pt_lock := lk\<rparr>) s6))"

section \<open>Regions and the page table\<close>

definition as_define_region ::
  "nat \<Rightarrow> vaddr_t \<Rightarrow> w32 \<Rightarrow> w32 \<Rightarrow> w32 \<Rightarrow> w32 \<Rightarrow> w32 \<Rightarrow> int \<Rightarrow> ('h, 'd, 'b, 'a) core_st_scheme \<Rightarrow>
     kerr \<times> ('h, 'd, 'b, 'a) core_st_scheme" where
  "as_define_region a vaddr memsize filesize readable writeable executable offset s =
     (let (ok, s1) = kmalloc s in
      if \<not> ok then (Some ENOMEM, s1) else
      let memsize = memsize + (vaddr AND NOT PAGE_FRAME);
          memsize = (memsize + PAGE_SIZE - 1) AND PAGE_FRAME;
          seg = \<lparr>seg_start = vaddr AND PAGE_FRAME, seg_size = memsize, seg_filesize = filesize,
                 seg_npages = memsize div PAGE_SIZE,
                 seg_rwx = (readable AND 4) OR (writeable AND 2) OR (executable AND 1),
                 seg_offset = offset, initoffset = vaddr AND NOT PAGE_FRAME\<rparr>
      in (None, upd_as a (\<lambda>x. x\<lparr>as_segment := as_segment x @ [seg]\<rparr>) s1))"

fun seg_entries :: "vaddr_t \<Rightarrow> nat \<Rightarrow> w32 \<Rightarrow> pt_entry list" where
  "seg_entries v 0 rwx = []"
| "seg_entries v (Suc n) rwx =
     \<lparr>pte_paddr = 0, pte_vaddr = v, in_mem = False, in_swap = False, pte_rwx = rwx\<rparr> #
     seg_entries (v + PAGE_SIZE) n rwx"

definition pt_of_segments :: "segment_t list \<Rightarrow> pt_entry list" where
  "pt_of_segments segs =
     concat (map (\<lambda>seg. seg_entries (seg_start seg) (unat (seg_npages seg)) (seg_rwx seg)) segs)"

definition as_prepare_load ::
  "('h, 'd, 'b, 'x) vm_ops_scheme \<Rightarrow> nat \<Rightarrow> ('h, 'd, 'b, 'a) core_st_scheme \<Rightarrow>
     (kerr \<times> ('h, 'd, 'b, 'a) core_st_scheme) kres" where
  "as_prepare_load E a s =
     (let size = STACKPAGES * PAGE_SIZE;
          (err, s1) = as_define_region a (USERSTACK - size) size size PF_R PF_W 0 0 s in
      if err \<noteq> None then Ret (Some ENOMEM, s1) else
      let s2 = upd_as a (\<lambda>x. x\<lparr>npages := sum_list (map seg_npages (as_segment x))\<rparr>) s1 in
      kbind (acquire_pt a s2) (\<lambda>s3.
      kbind (ptAlloc E (npages (aspaces s3 a)) s3) (\<lambda>(ptloc, s4).
      if ptloc = 0 then Ret (Some ENOMEM, s4) else
      let entries = pt_of_segments (as_segment (aspaces s4 a)) in
      if unat (npages (aspaces s4 a)) < length entries then Undef else
      let s5 = upd_as a (\<lambda>x. x\<lparr>as_pt := PADDR_TO_KVADDR ptloc, as_ptab := entries\<rparr>) s4 in
      kbind (release_pt a s5) (\<lambda>s6. Ret (None, s6)))))"

definition as_complete_load :: "'s \<Rightarrow> kerr" where
  "as_complete_load s = None"

definition as_define_stack :: "'s \<Rightarrow> kerr \<times> vaddr_t" where
  "as_define_stack s = (None, USERSTACK)"

definition as_activate ::
  "('h, 'd, 'b, 'x) vm_ops_scheme \<Rightarrow> ('h, 'd, 'b, 'a) core_st_scheme \<Rightarrow>
     ('h, 'd, 'b, 'a) core_st_scheme kres" where
  "as_activate E s = (case proc_getas s of None \<Rightarrow> Ret s | Some a \<Rightarrow> tlb_invalidate E s)"

definition as_deactivate :: "'s \<Rightarrow> 's" where
  "as_deactivate s = s"

section \<open>Copy\<close>

fun copy_segments ::
  "segment_t list \<Rightarrow> nat \<Rightarrow> ('h, 'd, 'b, 'a) core_st_scheme \<Rightarrow>
     kerr \<times> ('h, 'd, 'b, 'a) core_st_scheme" where
  "copy_segments [] new s = (None, s)"
| "copy_segments (seg # segs) new s =
     (let (ok, s1) = kmalloc s in
      if \<not> ok then (Some ENOMEM, s1)
      else copy_segments segs new (upd_as new (\<lambda>x. x\<lparr>as_segment := as_segment x @ [seg]\<rparr>) s1))"

fun copy_pages ::
  "('h, 'd, 'b, 'x) vm_ops_scheme \<Rightarrow> nat \<Rightarrow> nat \<Rightarrow> nat \<Rightarrow> nat \<Rightarrow> ('h, 'd, 'b, 'a) core_st_scheme \<Rightarrow>
     (kerr \<times> ('h, 'd, 'b, 'a) core_st_scheme) kres" where
  "copy_pages E old new i 0 s = Ret (None, s)"
| "copy_pages E old new i (Suc n) s =
     (if length (as_ptab (aspaces s old)) \<le> i then Undef else
      let o1 = pte s old i;
          s1 = upd_pte new i (\<lambda>e. e\<lparr>in_mem := False, in_swap := False, pte_rwx := pte_rwx o1,
                 pte_vaddr := pte_vaddr o1\<rparr>) s in
      if in_swap o1 then
        kbind (getPages E 1 (pte_vaddr o1) (Some new) s1) (\<lambda>(paddr, s2).
        kbind (swap_in E (pte_paddr (pte s2 new i)) paddr False s2) (\<lambda>(err, p, s3).
        let s4 = upd_pte new i (\<lambda>e. e\<lparr>pte_paddr := p\<rparr>) s3 in
        if err \<noteq> None then Ret (err, s4)
        else copy_pages E old new (Suc i) n
               (upd_pte new i (\<lambda>e. e\<lparr>in_swap := False, in_mem := True\<rparr>) s4)))
      else if in_mem o1 then
        kbind (getPages E 1 (pte_vaddr o1) (Some new) s1) (\<lambda>(paddr, s2).
        let s3 = s2\<lparr>physmem := mem_write paddr
                      (mem_read (pte_paddr (pte s2 old i)) 4096 (physmem s2)) (physmem s2)\<rparr> in
        copy_pages E old new (Suc i) n
          (upd_pte new i (\<lambda>e. e\<lparr>pte_paddr := paddr, in_mem := True\<rparr>) s3))
      else copy_pages E old new (Suc i) n (upd_pte new i (\<lambda>e. e\<lparr>pte_paddr := 0\<rparr>) s1))"

definition as_copy ::
  "('h, 'd, 'b, 'x) vm_ops_scheme \<Rightarrow> (nat \<Rightarrow> pt_entry) \<Rightarrow> nat \<Rightarrow> ('h, 'd, 'b, 'a) core_st_scheme \<Rightarrow>
     (kerr \<times> nat option \<times> ('h, 'd, 'b, 'a) core_st_scheme) kres" where
  "as_copy E junk old s =
     (case progname (aspaces s old) of
        None \<Rightarrow> Undef
      | Some name \<Rightarrow>
          kbind (as_create E name s) (\<lambda>(newas, err, name, s0).
          let s1 = upd_as old (\<lambda>x. x\<lparr>progname := Some name\<rparr>) s0 in
          case newas of
            None \<Rightarrow> Ret (err, None, s1)
          | Some new \<Rightarrow>
              kbind (acquire_pt old s1) (\<lambda>s2.
              let (err, s3) = copy_segments (as_segment (aspaces s2 old)) new s2 in
              if err \<noteq> None then Ret (err, None, s3) else
              let s4 = upd_as new (\<lambda>x. x\<lparr>npages := npages (aspaces s3 old)\<rparr>) s3;
                  n = npages (aspaces s4 new) in
              kbind (ptAlloc E n s4) (\<lambda>(ptloc, s5).
              if ptloc = 0 then Ret (Some ENOMEM, None, s5) else
              let s6 = upd_as new (\<lambda>x. x\<lparr>as_pt := PADDR_TO_KVADDR ptloc,
                         as_ptab := map junk [0..<unat n]\<rparr>) s5 in
              kbind (copy_pages E old new 0 (unat n) s6) (\<lambda>(err, s7).
              if err \<noteq> None then Ret (err, None, s7) else
              kbind (release_pt old s7) (\<lambda>s8. Ret (None, Some new, s8)))))))"

section \<open>Destruction\<close>

fun clear_swapped ::
  "('h, 'd, 'b, 'x) vm_ops_scheme \<Rightarrow> nat \<Rightarrow> nat \<Rightarrow> nat \<Rightarrow> ('h, 'd, 'b, 'a) core_st_scheme \<Rightarrow>
     ('h, 'd, 'b, 'a) core_st_scheme kres" where
  "clear_swapped E a i 0 s = Ret s"
| "clear_swapped E a i (Suc n) s =
     (if length (as_ptab (aspaces s a)) \<le> i then Undef
      else kbind (if in_swap (pte s a i) then clear_swap E (pte_paddr (pte s a i)) s else Ret s)
             (clear_swapped E a (Suc i) n))"

definition as_destroy ::
  "('h, 'd, 'b, 'x) vm_ops_scheme \<Rightarrow> nat \<Rightarrow> ('h, 'd, 'b, 'a) core_st_scheme \<Rightarrow>
     ('h, 'd, 'b, 'a) core_st_scheme kres" where
  "as_destroy E a s =
     can_sleep s
      (let s1 = s\<lparr>disk := vfs_close E (as_v (aspaces s a)) (disk s)\<rparr>;
           s2 = fold (\<lambda>_. kfree) (as_segment (aspaces s1 a)) s1 in
       kbind (acquire_pt a s2) (\<lambda>s3.
       kbind (clear_swapped E a 0 (unat (npages (aspaces s3 a))) s3) (\<lambda>s4.
       kbind (release_pt a s4) (\<lambda>s5.
       kbind (lock_destroy (pt_lock (aspaces s5 a)) s5) (\<lambda>s6.
       kbind (freepages (as_pt (aspaces s6 a) - MIPS_KSEG0) s6) (\<lambda>s7.
       Ret (kfree (freeAs (Some a) s7))))))))"

section \<open>Boot and kernel pages\<close>

definition vm_bootstrap ::
  "('h, 'd, 'b, 'x) vm_ops_scheme \<Rightarrow> kerr \<times> nat option \<Rightarrow> kerr \<times> int \<Rightarrow> paddr_t \<Rightarrow> paddr_t \<Rightarrow>
     ('h, 'd, 'b, 'a) core_st_scheme \<Rightarrow> ('h, 'd, 'b, 'a) core_st_scheme kres" where
  "vm_bootstrap E swapon vstat ramsize firstfree s =
     kbind (vm_stats_init s) (\<lambda>s1.
     kbind (swapmap_init E swapon vstat s1) (\<lambda>s2.
     Ret (coremap_init ramsize firstfree s2)))"

definition getppages ::
  "('h, 'd, 'b, 'x) vm_ops_scheme \<Rightarrow> nat \<Rightarrow> ('h, 'd, 'b, 'a) core_st_scheme \<Rightarrow>
     (paddr_t \<times> ('h, 'd, 'b, 'a) core_st_scheme) kres" where
  "getppages E n s =
     kbind (getPages E (sint (of_nat n :: w32)) 0 None s) (\<lambda>(addr, s1).
       if addr = 0 then
         let s2 = spinlock_acquire s1; (addr, d) = ram_stealmem E n (disk s2)
         in Ret (addr, spinlock_release (s2\<lparr>disk := d\<rparr>))
       else Ret (addr, s1))"

definition alloc_kpages ::
  "('h, 'd, 'b, 'x) vm_ops_scheme \<Rightarrow> nat \<Rightarrow> ('h, 'd, 'b, 'a) core_st_scheme \<Rightarrow>
     (vaddr_t \<times> ('h, 'd, 'b, 'a) core_st_scheme) kres" where
  "alloc_kpages E n s =
     can_sleep s
      (kbind (getppages E n s) (\<lambda>(pa, s1).
         Ret (if pa = 0 then 0 else PADDR_TO_KVADDR pa, s1)))"

definition free_kpages ::
  "vaddr_t \<Rightarrow> ('h, 'd, 'b, 'a) core_st_scheme \<Rightarrow> ('h, 'd, 'b, 'a) core_st_scheme kres" where
  "free_kpages addr s =
     (if isCoremapActive s then
        kbind (getPageVtoP addr s) (\<lambda>(result, paddr, s1).
          if result > 0 then (case paddr of None \<Rightarrow> Undef | Some p \<Rightarrow> freepages p s1)
          else if result = 0 then freepages (addr - MIPS_KSEG0) s1
          else Panic ''vaddr not found in the page table'')
      else Ret s)"

end
