(* ===== verification/Thread_System.thy ===== *)
theory Thread_System
  imports Addrspace "HOL-Library.Multiset"
begin


text \<open>
  The thread system (\<open>kern/thread/thread.c\<close>) without the wait channels: CPUs and threads, their
  creation and destruction, the context switch, the run queues and the migration of threads between
  them, and interprocessor interrupts. \<open>thread_switch\<close> is two definitions, the part up to
  \<open>switchframe_switch\<close>, which one thread runs, and the part behind it, which the next thread runs.
  Outside the repository are \<open>switchframe_init\<close>, whose arguments the state keeps (\<open>t_entry\<close>),
  \<open>cpu_idle\<close>, an argument (the interrupt handlers that run while the CPU idles), \<open>cpuarray_add\<close>, whose
  outcome is an argument, and the contents of a block from \<open>kmalloc\<close> (\<open>stack_block\<close>). Interrupt
  priority levels (\<open>splhigh\<close>, \<open>splx\<close>) are left out: no interrupt comes between the steps of the model.
\<close>

section \<open>State\<close>

record ('h, 'd, 'b, 'e) thr_st = "('h, 'd, 'b) core_st" +
  next_thread :: tid
  t_entry :: "tid \<Rightarrow> 'e option"
  stack_block :: "w32 list"
  cpu_startup_sem :: "semaphore option"

definition THREAD_STACK_MAGIC :: w32 where "THREAD_STACK_MAGIC = 0xbaadf00d"
definition IPL_HIGH :: nat where "IPL_HIGH = 1"
definition TLBSHOOTDOWN_MAX :: nat where "TLBSHOOTDOWN_MAX = 16"

section \<open>Threads and CPUs\<close>

definition thread_checkstack_init :: "tid \<Rightarrow> 'a sched_scheme \<Rightarrow> 'a sched_scheme" where
  "thread_checkstack_init t s =
     upd_thread t (\<lambda>th. th\<lparr>t_stack := map_option
       (\<lambda>w. w[0 := THREAD_STACK_MAGIC, 1 := THREAD_STACK_MAGIC, 2 := THREAD_STACK_MAGIC,
              3 := THREAD_STACK_MAGIC]) (t_stack th)\<rparr>) s"

definition thread_checkstack :: "tid \<Rightarrow> 'a sched_scheme \<Rightarrow> 'b kres \<Rightarrow> 'b kres" where
  "thread_checkstack t s k =
     (case t_stack (threads s t) of
        None \<Rightarrow> k
      | Some w \<Rightarrow>
          KASSERT (w ! 0 = THREAD_STACK_MAGIC) (KASSERT (w ! 1 = THREAD_STACK_MAGIC)
            (KASSERT (w ! 2 = THREAD_STACK_MAGIC) (KASSERT (w ! 3 = THREAD_STACK_MAGIC) k))))"

definition thread_create ::
  "string \<Rightarrow> ('h, 'd, 'b, 'e, 'a) thr_st_scheme \<Rightarrow> tid option \<times> ('h, 'd, 'b, 'e, 'a) thr_st_scheme" where
  "thread_create name s =
     (let (ok, s1) = kmalloc s in
      if \<not> ok then (None, s1) else
      let t = next_thread s1;
          (ok, s2) = kmalloc (s1\<lparr>next_thread := t + 1\<rparr>) in
      if \<not> ok then (None, kfree s2) else
      (Some t, upd_thread t (\<lambda>_. \<lparr>t_name = name, t_wchan_name = Some ''NEW'', t_state = S_READY,
         t_stack = None, t_cpu = None, t_proc = None, t_in_interrupt = False,
         t_curspl = IPL_HIGH, t_iplhigh_count = 1\<rparr>) s2))"

text \<open>The decimal digits that \<open>snprintf\<close> writes for \<open>%d\<close>.\<close>

fun dec_digits :: "nat \<Rightarrow> string" where
  "dec_digits n = (if n < 10 then [char_of (48 + n)] else dec_digits (n div 10) @ [char_of (48 + n mod 10)])"

definition cpu_create ::
  "bool \<Rightarrow> nat \<Rightarrow> ('h, 'd, 'b, 'e, 'a) thr_st_scheme \<Rightarrow> (nat \<times> ('h, 'd, 'b, 'e, 'a) thr_st_scheme) kres" where
  "cpu_create add_ok hardware_number s =
     (let (ok, s1) = kmalloc s in
      if \<not> ok then Panic ''cpu_create: Out of memory'' else
      if \<not> add_ok then Panic ''cpu_create: array_add'' else
      let n = length (allcpus s1);
          c = \<lparr>c_number = n, c_hardware_number = hardware_number, c_curthread = None, c_zombies = [],
               c_hardclocks = 0, c_spinlocks = 0, c_isidle = False, c_runqueue = [],
               c_ipi_pending = 0, c_numshootdown = 0, c_shootdown = replicate TLBSHOOTDOWN_MAX 0\<rparr>;
          s2 = s1\<lparr>allcpus := allcpus s1 @ [c]\<rparr>;
          (th, s3) = thread_create (''<boot #'' @ dec_digits n @ ''>'') s2 in
      case th of
        None \<Rightarrow> Panic ''cpu_create: thread_create failed''
      | Some t \<Rightarrow>
          let s4 = upd_thread t (\<lambda>x. x\<lparr>t_cpu := Some n\<rparr>) (upd_cpu n (\<lambda>c. c\<lparr>c_curthread := Some t\<rparr>) s3);
              (ok, s5) = (if n = 0 then (True, s4)
                else let (ok, u) = kmalloc s4 in
                  (ok, thread_checkstack_init t
                         (upd_thread t (\<lambda>x. x\<lparr>t_stack := Some (stack_block u)\<rparr>) u))) in
          if \<not> ok then Panic ''cpu_create: couldn't allocate stack'' else
          let s6 = (if curcpu_exists s5 then s5
                    else s5\<lparr>curcpu := n, curthread := t, curcpu_exists := True\<rparr>) in
          case kproc s6 of
            None \<Rightarrow> Undef
          | Some k \<Rightarrow> kbind (proc_addthread k t s6) (\<lambda>s7. Ret (n, s7)))"

definition thread_destroy ::
  "tid \<Rightarrow> 'a sched_scheme \<Rightarrow> 'a sched_scheme kres" where
  "thread_destroy t s =
     KASSERT (t \<noteq> curthread s)
      (KASSERT (t_state (threads s t) \<noteq> S_RUN)
        (KASSERT (t_proc (threads s t) = None)
          (let s1 = (if t_stack (threads s t) \<noteq> None then kfree s else s);
               s2 = upd_thread t (\<lambda>x. x\<lparr>t_wchan_name := Some ''DESTROYED''\<rparr>) s1
           in Ret (kfree (kfree s2)))))"

fun exorcise_loop :: "tid list \<Rightarrow> 'a sched_scheme \<Rightarrow> 'a sched_scheme kres" where
  "exorcise_loop [] s = Ret s"
| "exorcise_loop (z # zs) s =
     (let s1 = upd_cpu (curcpu s) (\<lambda>c. c\<lparr>c_zombies := zs\<rparr>) s in
      KASSERT (z \<noteq> curthread s1)
       (KASSERT (t_state (threads s1 z) = S_ZOMBIE)
         (kbind (thread_destroy z s1) (exorcise_loop zs))))"

definition exorcise :: "'a sched_scheme \<Rightarrow> 'a sched_scheme kres" where
  "exorcise s = exorcise_loop (c_zombies (cur_cpu s)) s"

section \<open>Interprocessor interrupts\<close>

fun broadcast_from :: "nat \<Rightarrow> nat \<Rightarrow> nat \<Rightarrow> 'a sched_scheme \<Rightarrow> 'a sched_scheme kres" where
  "broadcast_from i 0 code s = Ret s"
| "broadcast_from i (Suc n) code s =
     kbind (if i \<noteq> curcpu s then ipi_send i code s else Ret s) (broadcast_from (Suc i) n code)"

definition ipi_broadcast :: "nat \<Rightarrow> 'a sched_scheme \<Rightarrow> 'a sched_scheme kres" where
  "ipi_broadcast code s = broadcast_from 0 (length (allcpus s)) code s"

definition ipi_tlbshootdown :: "nat \<Rightarrow> w32 \<Rightarrow> 'a sched_scheme \<Rightarrow> 'a sched_scheme kres" where
  "ipi_tlbshootdown target mapping s =
     (let n = c_numshootdown (allcpus s ! target) in
      if n = TLBSHOOTDOWN_MAX then Panic ''ipi_tlbshootdown: Too many shootdowns queued'' else
      Ret (upd_cpu target (\<lambda>c. c\<lparr>c_shootdown := (c_shootdown c)[n := mapping], c_numshootdown := n + 1,
        c_ipi_pending := c_ipi_pending c OR push_bit IPI_TLBSHOOTDOWN 1\<rparr>) s))"

text \<open>A CPU that halts does nothing any more: \<open>Diverges\<close>.\<close>

definition interprocessor_interrupt ::
  "(w32 \<Rightarrow> 'a sched_scheme \<Rightarrow> 'a sched_scheme kres) \<Rightarrow> 'a sched_scheme \<Rightarrow> 'a sched_scheme kres" where
  "interprocessor_interrupt tlbshootdown s =
     (let bits = c_ipi_pending (cur_cpu s) in
      if bits AND push_bit IPI_PANIC 1 \<noteq> 0 then Diverges else
      if bits AND push_bit IPI_OFFLINE 1 \<noteq> 0 then Diverges else
      kbind (if bits AND push_bit IPI_TLBSHOOTDOWN 1 \<noteq> 0
             then kbind (foldl (\<lambda>r i. kbind r (\<lambda>u. tlbshootdown (c_shootdown (cur_cpu u) ! i) u)) (Ret s)
                      [0..<c_numshootdown (cur_cpu s)])
                    (\<lambda>u. Ret (upd_cpu (curcpu u) (\<lambda>c. c\<lparr>c_numshootdown := 0\<rparr>) u))
             else Ret s)
        (\<lambda>u. Ret (upd_cpu (curcpu u) (\<lambda>c. c\<lparr>c_ipi_pending := 0\<rparr>) u)))"

definition thread_panic :: "'a sched_scheme \<Rightarrow> 'a sched_scheme kres" where
  "thread_panic s =
     kbind (ipi_broadcast IPI_PANIC s) (\<lambda>s1. Ret (upd_cpu (curcpu s1) (\<lambda>c. c\<lparr>c_runqueue := []\<rparr>) s1))"

definition thread_shutdown :: "'a sched_scheme \<Rightarrow> 'a sched_scheme kres" where
  "thread_shutdown s = ipi_broadcast IPI_OFFLINE s"


section \<open>The context switch\<close>

text \<open>
  The loop that takes the next thread from the run queue; while there is none the CPU idles. \<open>None\<close>
  is a CPU that idles forever.
\<close>

partial_function (option) pick_next ::
  "('a sched_scheme \<Rightarrow> 'a sched_scheme) \<Rightarrow> 'a sched_scheme \<Rightarrow> (tid \<times> 'a sched_scheme) option" where
  "pick_next cpu_idle s =
     (case c_runqueue (cur_cpu s) of
        t # rest \<Rightarrow> Some (t, upd_cpu (curcpu s) (\<lambda>c. c\<lparr>c_runqueue := rest\<rparr>) s)
      | [] \<Rightarrow> pick_next cpu_idle (spinlock_acquire (cpu_idle (spinlock_release s))))"

text \<open>
  \<open>thread_switch\<close> up to \<open>switchframe_switch\<close>. The result says whether the CPU switched to another
  thread (which goes on with \<open>thread_switch_in\<close>, or with \<open>thread_startup\<close> if it is new) or the call
  returned to its caller at once, and gives back the wait channel.
\<close>

definition put_thread ::
  "threadstate \<Rightarrow> wchan option \<Rightarrow> 'a sched_scheme \<Rightarrow> (wchan option \<times> 'a sched_scheme) kres" where
  "put_thread newstate wc s =
     (let cur = curthread s in
      case newstate of
        S_RUN \<Rightarrow> Panic ''Illegal S_RUN in thread_switch''
      | S_READY \<Rightarrow> kbind (thread_make_runnable cur True s) (\<lambda>s1. Ret (wc, s1))
      | S_SLEEP \<Rightarrow> (case wc of
            None \<Rightarrow> Undef
          | Some w \<Rightarrow> Ret (Some (w\<lparr>wc_threads := wc_threads w @ [cur]\<rparr>),
              spinlock_release (upd_thread cur (\<lambda>x. x\<lparr>t_wchan_name := Some (wc_name w)\<rparr>) s)))
      | S_ZOMBIE \<Rightarrow> Ret (wc, upd_cpu (curcpu s) (\<lambda>c. c\<lparr>c_zombies := c_zombies c @ [cur]\<rparr>)
            (upd_thread cur (\<lambda>x. x\<lparr>t_wchan_name := Some ''ZOMBIE''\<rparr>) s)))"

definition thread_switch_out ::
  "('a sched_scheme \<Rightarrow> 'a sched_scheme) \<Rightarrow> threadstate \<Rightarrow> wchan option \<Rightarrow> 'a sched_scheme \<Rightarrow>
     (bool \<times> wchan option \<times> 'a sched_scheme) kres" where
  "thread_switch_out cpu_idle newstate wc s =
     (let cur = curthread s in
      if c_isidle (cur_cpu s) then Ret (False, wc, s) else
      thread_checkstack cur s
       (let s1 = spinlock_acquire s in
        if newstate = S_READY \<and> c_runqueue (cur_cpu s1) = [] then Ret (False, wc, spinlock_release s1) else
        kbind (put_thread newstate wc s1) (\<lambda>(wc1, s2).
        let s3 = upd_thread cur (\<lambda>x. x\<lparr>t_state := newstate\<rparr>) s2;
            s4 = upd_cpu (curcpu s3) (\<lambda>c. c\<lparr>c_isidle := True\<rparr>) s3 in
        case pick_next cpu_idle s4 of
          None \<Rightarrow> Diverges
        | Some (next, s5) \<Rightarrow>
            Ret (True, wc1, (upd_cpu (curcpu s5) (\<lambda>c. c\<lparr>c_isidle := False, c_curthread := Some next\<rparr>) s5)
              \<lparr>curthread := next\<rparr>))))"

text \<open>The part behind \<open>switchframe_switch\<close>, in the thread that runs next.\<close>

definition thread_switch_in ::
  "('h, 'd, 'b, 'x) vm_ops_scheme \<Rightarrow> ('h, 'd, 'b, 'a) core_st_scheme \<Rightarrow> ('h, 'd, 'b, 'a) core_st_scheme kres" where
  "thread_switch_in E s =
     (let s1 = upd_thread (curthread s) (\<lambda>x. x\<lparr>t_wchan_name := None, t_state := S_RUN\<rparr>) s;
          s2 = spinlock_release s1
      in kbind (as_activate E s2) exorcise)"

section \<open>Start and end of a thread\<close>

definition thread_exit ::
  "('a procs_st_scheme \<Rightarrow> 'a procs_st_scheme) \<Rightarrow> 'a procs_st_scheme \<Rightarrow> 'a procs_st_scheme kres" where
  "thread_exit cpu_idle s =
     (let cur = curthread s in
      kbind (if t_proc (threads s cur) \<noteq> None then proc_remthread cur s else Ret s) (\<lambda>s1.
      KASSERT (t_proc (threads s1 cur) = None)
       (thread_checkstack cur s1
         (kbind (thread_switch_out cpu_idle S_ZOMBIE None s1) (\<lambda>(switched, wc, s2).
            if switched then Ret s2 else Panic ''braaaaaaaiiiiiiiiiiinssssss'')))))"

text \<open>\<open>run\<close> is the call of the entry point that \<open>thread_fork\<close> stored.\<close>

definition thread_startup ::
  "('h, 'd, 'b, 'x) vm_ops_scheme \<Rightarrow> (('h, 'd, 'b, 'e, 'a) thr_st_scheme \<Rightarrow> ('h, 'd, 'b, 'e, 'a) thr_st_scheme) \<Rightarrow>
     ('e \<Rightarrow> ('h, 'd, 'b, 'e, 'a) thr_st_scheme \<Rightarrow> ('h, 'd, 'b, 'e, 'a) thr_st_scheme kres) \<Rightarrow>
     ('h, 'd, 'b, 'e, 'a) thr_st_scheme \<Rightarrow> ('h, 'd, 'b, 'e, 'a) thr_st_scheme kres" where
  "thread_startup E cpu_idle run s =
     (let s1 = upd_thread (curthread s) (\<lambda>x. x\<lparr>t_wchan_name := None, t_state := S_RUN\<rparr>) s;
          s2 = spinlock_release s1
      in kbind (as_activate E s2) (\<lambda>s3.
         kbind (exorcise s3) (\<lambda>s4.
         case t_entry s4 (curthread s4) of
           None \<Rightarrow> Undef
         | Some e \<Rightarrow> kbind (run e s4) (thread_exit cpu_idle))))"

definition thread_fork ::
  "string \<Rightarrow> nat option \<Rightarrow> 'e \<Rightarrow> ('h, 'd, 'b, 'e, 'a) thr_st_scheme \<Rightarrow>
     (kerr \<times> ('h, 'd, 'b, 'e, 'a) thr_st_scheme) kres" where
  "thread_fork name proc entrypoint s =
     (let (th, s1) = thread_create name s in
      case th of
        None \<Rightarrow> Ret (Some ENOMEM, s1)
      | Some newthread \<Rightarrow>
          let (ok, s2) = kmalloc s1 in
          if \<not> ok then kbind (thread_destroy newthread s2) (\<lambda>s3. Ret (Some ENOMEM, s3)) else
          let s3 = thread_checkstack_init newthread
                (upd_thread newthread (\<lambda>x. x\<lparr>t_stack := Some (stack_block s2)\<rparr>) s2);
              s4 = upd_thread newthread (\<lambda>x. x\<lparr>t_cpu := t_cpu (threads s3 (curthread s3))\<rparr>) s3 in
          case (if proc = None then t_proc (threads s4 (curthread s4)) else proc) of
            None \<Rightarrow> Undef
          | Some p \<Rightarrow>
              kbind (proc_addthread p newthread s4) (\<lambda>s5.
              let s6 = (upd_thread newthread (\<lambda>x. x\<lparr>t_iplhigh_count := t_iplhigh_count x + 1\<rparr>) s5);
                  s7 = s6\<lparr>t_entry := (t_entry s6)(newthread := Some entrypoint)\<rparr> in
              kbind (thread_make_runnable newthread False s7) (\<lambda>s8. Ret (None, s8))))"

definition thread_yield ::
  "('a sched_scheme \<Rightarrow> 'a sched_scheme) \<Rightarrow> 'a sched_scheme \<Rightarrow> (bool \<times> wchan option \<times> 'a sched_scheme) kres" where
  "thread_yield cpu_idle s = thread_switch_out cpu_idle S_READY None s"

definition schedule :: "'s \<Rightarrow> 's" where
  "schedule s = s"

section \<open>Boot and secondary CPUs\<close>

definition thread_bootstrap ::
  "bool \<Rightarrow> ('h, 'd, 'b, 'e, 'a) thr_st_scheme \<Rightarrow> ('h, 'd, 'b, 'e, 'a) thr_st_scheme kres" where
  "thread_bootstrap add_ok s =
     (let s1 = s\<lparr>allcpus := []\<rparr> in
      KASSERT (\<not> curcpu_exists s1)
       (kbind (cpu_create add_ok 0 s1) (\<lambda>(c, s2).
          KASSERT (curcpu_exists s2)
           (KASSERT (t_proc (threads s2 (curthread s2)) \<noteq> None)
             (KASSERT (t_proc (threads s2 (curthread s2)) = kproc s2) (Ret s2))))))"

definition cpu_hatch ::
  "(('h, 'd, 'b, 'e, 'a) thr_st_scheme \<Rightarrow> ('h, 'd, 'b, 'e, 'a) thr_st_scheme) \<Rightarrow> nat \<Rightarrow>
     ('h, 'd, 'b, 'e, 'a) thr_st_scheme \<Rightarrow> ('h, 'd, 'b, 'e, 'a) thr_st_scheme kres" where
  "cpu_hatch cpu_idle software_number s =
     KASSERT (c_number (cur_cpu s) = software_number)
       (case cpu_startup_sem s of
          None \<Rightarrow> Panic ''KASSERT''
        | Some sem \<Rightarrow> kbind (sem_V s sem) (\<lambda>(sem1, s1).
            thread_exit cpu_idle (s1\<lparr>cpu_startup_sem := Some sem1\<rparr>)))"

fun startup_wait ::
  "nat \<Rightarrow> ('h, 'd, 'b, 'e, 'a) thr_st_scheme \<Rightarrow> ('h, 'd, 'b, 'e, 'a) thr_st_scheme kres" where
  "startup_wait 0 s = Ret s"
| "startup_wait (Suc n) s =
     (case cpu_startup_sem s of
        None \<Rightarrow> Panic ''KASSERT''
      | Some sem \<Rightarrow> kbind (sem_P s sem) (\<lambda>sem1. startup_wait n (s\<lparr>cpu_startup_sem := Some sem1\<rparr>)))"

text \<open>\<open>mainbus_start_cpus\<close>, outside the repository, lets the other CPUs run \<open>cpu_hatch\<close>.\<close>

definition thread_start_cpus ::
  "(('h, 'd, 'b, 'e, 'a) thr_st_scheme \<Rightarrow> ('h, 'd, 'b, 'e, 'a) thr_st_scheme) \<Rightarrow>
     ('h, 'd, 'b, 'e, 'a) thr_st_scheme \<Rightarrow> ('h, 'd, 'b, 'e, 'a) thr_st_scheme kres" where
  "thread_start_cpus mainbus_start_cpus s =
     (let (sem, s1) = sem_create ''cpu_hatch'' 0 s;
          s2 = mainbus_start_cpus (s1\<lparr>cpu_startup_sem := sem\<rparr>)
      in kbind (startup_wait (length (allcpus s2) - 1) s2) (\<lambda>s3.
         case cpu_startup_sem s3 of
           None \<Rightarrow> Panic ''KASSERT''
         | Some sem \<Rightarrow> kbind (sem_destroy sem s3) (\<lambda>s4. Ret (s4\<lparr>cpu_startup_sem := None\<rparr>))))"

section \<open>Migration of threads\<close>

fun take_victims :: "nat \<Rightarrow> tid list \<Rightarrow> tid list \<Rightarrow> tid list \<times> tid list" where
  "take_victims 0 q victims = (q, victims)"
| "take_victims (Suc n) q victims = take_victims n (butlast q) (last q # victims)"

text \<open>The loop that fills the run queue of CPU \<open>c\<close> up to its share.\<close>

fun give_cpu ::
  "nat \<Rightarrow> nat \<Rightarrow> nat \<Rightarrow> tid list \<Rightarrow> 'a sched_scheme \<Rightarrow> (nat \<times> tid list \<times> 'a sched_scheme) kres" where
  "give_cpu one_share c 0 victims s = Ret (0, victims, s)"
| "give_cpu one_share c (Suc to_send) victims s =
     (if length (c_runqueue (allcpus s ! c)) < one_share then
        case victims of
          [] \<Rightarrow> Undef
        | t # rest \<Rightarrow>
            if t = curthread s then give_cpu one_share c to_send (rest @ [t]) s else
            let s1 = upd_thread t (\<lambda>x. x\<lparr>t_cpu := Some c\<rparr>) s;
                s2 = upd_cpu c (\<lambda>x. x\<lparr>c_runqueue := c_runqueue x @ [t]\<rparr>) s1 in
            kbind (if c_isidle (allcpus s2 ! c) then ipi_send c IPI_UNIDLE s2 else Ret s2)
              (give_cpu one_share c to_send rest)
      else Ret (Suc to_send, victims, s))"

fun give_all ::
  "nat \<Rightarrow> nat list \<Rightarrow> nat \<Rightarrow> tid list \<Rightarrow> 'a sched_scheme \<Rightarrow> (tid list \<times> 'a sched_scheme) kres" where
  "give_all one_share [] to_send victims s = Ret (victims, s)"
| "give_all one_share (c # cs) to_send victims s =
     (if to_send = 0 then Ret (victims, s) else
      if c = curcpu s then give_all one_share cs to_send victims s else
      kbind (give_cpu one_share c to_send victims s) (\<lambda>(to_send1, victims1, s1).
        give_all one_share cs to_send1 victims1 s1))"

definition thread_consider_migration :: "'a sched_scheme \<Rightarrow> 'a sched_scheme kres" where
  "thread_consider_migration s =
     (let numcpus = length (allcpus s);
          total_count = sum_list (map (\<lambda>c. length (c_runqueue c)) (allcpus s));
          my_count = length (c_runqueue (cur_cpu s));
          one_share = (total_count + (numcpus - 1)) div numcpus in
      if my_count < one_share then Ret s else
      let to_send = my_count - one_share;
          (q, victims) = take_victims to_send (c_runqueue (cur_cpu s)) [];
          s1 = upd_cpu (curcpu s) (\<lambda>c. c\<lparr>c_runqueue := q\<rparr>) s in
      kbind (give_all one_share [0..<numcpus] to_send victims s1) (\<lambda>(victims1, s2).
        Ret (upd_cpu (curcpu s2) (\<lambda>c. c\<lparr>c_runqueue := c_runqueue c @ victims1\<rparr>) s2)))"


section \<open>Lemmas\<close>

lemma upd_thread_simps [simp]:
  "allcpus (upd_thread t f s) = allcpus s" "curcpu (upd_thread t f s) = curcpu s"
  "curthread (upd_thread t f s) = curthread s" "cur_cpu (upd_thread t f s) = cur_cpu s"
  "kheap (upd_thread t f s) = kheap s" "kmem (upd_thread t f s) = kmem s"
  "curcpu_exists (upd_thread t f s) = curcpu_exists s"
  "threads (upd_thread t f s) = (threads s)(t := f (threads s t))"
  by (simp_all add: upd_thread_def cur_cpu_def)

lemma upd_cpu_simps [simp]:
  "threads (upd_cpu c f s) = threads s" "curcpu (upd_cpu c f s) = curcpu s"
  "curthread (upd_cpu c f s) = curthread s" "kheap (upd_cpu c f s) = kheap s" "kmem (upd_cpu c f s) = kmem s"
  "curcpu_exists (upd_cpu c f s) = curcpu_exists s" "length (allcpus (upd_cpu c f s)) = length (allcpus s)"
  "allcpus (upd_cpu c f s) = (allcpus s)[c := f (allcpus s ! c)]"
  by (simp_all add: upd_cpu_def)

lemma cur_cpu_upd [simp]:
  "sched_ok s \<Longrightarrow> cur_cpu (upd_cpu (curcpu s) f s) = f (cur_cpu s)"
  "cur_cpu (s\<lparr>curthread := t\<rparr>) = cur_cpu s"
  by (simp_all add: cur_cpu_def sched_ok_def)

lemma sched_ok_upd [simp]:
  "sched_ok (upd_thread t f s) = sched_ok s" "sched_ok (upd_cpu c g s) = sched_ok s"
  "sched_ok (s\<lparr>curthread := t\<rparr>) = sched_ok s"
  by (simp_all add: sched_ok_def)

lemma pick_next_Cons:
  "c_runqueue (cur_cpu s) = t # q \<Longrightarrow>
    pick_next cpu_idle s = Some (t, upd_cpu (curcpu s) (\<lambda>c. c\<lparr>c_runqueue := q\<rparr>) s)"
  by (simp add: pick_next.simps)

definition guard_ok :: "thread \<Rightarrow> bool" where
  "guard_ok th \<longleftrightarrow> (case t_stack th of None \<Rightarrow> True
     | Some w \<Rightarrow> w ! 0 = THREAD_STACK_MAGIC \<and> w ! 1 = THREAD_STACK_MAGIC \<and> w ! 2 = THREAD_STACK_MAGIC \<and>
         w ! 3 = THREAD_STACK_MAGIC)"

lemma thread_checkstack_ok: "guard_ok (threads s t) \<Longrightarrow> thread_checkstack t s k = k"
  by (auto simp: guard_ok_def thread_checkstack_def split: option.splits)

lemma as_activate_ok:
  assumes "stats_ok s"
  shows "\<exists>h c. as_activate E s = Ret (s\<lparr>counters := c, tlb_hw := h\<rparr>) \<and> stats_ok (s\<lparr>counters := c, tlb_hw := h\<rparr>)"
proof (cases "proc_getas s")
  case None
  then show ?thesis using assms
    by (intro exI [of _ "tlb_hw s"] exI [of _ "counters s"]) (simp add: as_activate_def)
next
  case (Some a)
  then show ?thesis using assms
    by (intro exI [of _ "tlb_invalidate_from E 0 NUM_TLB (tlb_hw s)"]
        exI [of _ "(counters s)[TLB_INVALIDATION := counters s ! TLB_INVALIDATION + 1]"])
      (simp add: as_activate_def tlb_invalidate_eq bump_def stats_ok_def)
qed

section \<open>Round robin\<close>

text \<open>The threads of this CPU in the order in which they will run.\<close>

definition run_order :: "'a sched_scheme \<Rightarrow> tid list" where
  "run_order s = curthread s # c_runqueue (cur_cpu s)"

definition rr_ok :: "'a stats_st_scheme \<Rightarrow> bool" where
  "rr_ok s \<longleftrightarrow> sched_ok s \<and> \<not> c_isidle (cur_cpu s) \<and> c_zombies (cur_cpu s) = [] \<and> stats_ok s \<and>
     (\<forall>t\<in>set (run_order s). guard_ok (threads s t) \<and> t_cpu (threads s t) = Some (curcpu s))"

fun yields ::
  "('h, 'd, 'b, 'x) vm_ops_scheme \<Rightarrow> (('h, 'd, 'b, 'a) core_st_scheme \<Rightarrow> ('h, 'd, 'b, 'a) core_st_scheme) \<Rightarrow> nat \<Rightarrow>
     ('h, 'd, 'b, 'a) core_st_scheme \<Rightarrow> ('h, 'd, 'b, 'a) core_st_scheme kres" where
  "yields E cpu_idle 0 s = Ret s"
| "yields E cpu_idle (Suc n) s =
     kbind (thread_yield cpu_idle s) (\<lambda>(switched, wc, s1).
     kbind (if switched then thread_switch_in E s1 else Ret s1) (yields E cpu_idle n))"

text \<open>The state when the next thread is about to run.\<close>

lemma thread_yield_switches:
  assumes ok: "rr_ok s" and q: "c_runqueue (cur_cpu s) = t # q"
  shows "\<exists>u. thread_yield cpu_idle s = Ret (True, None, u) \<and> curthread u = t \<and> curcpu u = curcpu s \<and>
    sched_ok u \<and> c_runqueue (cur_cpu u) = q @ [curthread s] \<and> \<not> c_isidle (cur_cpu u) \<and>
    c_zombies (cur_cpu u) = [] \<and> c_spinlocks (cur_cpu u) = c_spinlocks (cur_cpu s) + 1 \<and> stats_ok u \<and>
    (\<forall>x. t_stack (threads u x) = t_stack (threads s x) \<and> t_cpu (threads u x) = t_cpu (threads s x))"
proof -
  let ?cur = "curthread s"
  have S: "sched_ok s" "\<not> c_isidle (cur_cpu s)" "c_zombies (cur_cpu s) = []" "stats_ok s"
    "guard_ok (threads s ?cur)" "t_cpu (threads s ?cur) = Some (curcpu s)"
    using ok by (simp_all add: rr_ok_def run_order_def)
  define s1 where "s1 = spinlock_acquire s"
  define c where "c = cur_cpu s1"
  have f1: "curthread s1 = ?cur" "curcpu s1 = curcpu s" "threads s1 = threads s" "sched_ok s1"
    using S(1) by (simp_all add: s1_def spinlock_acquire_def)
  have c: "c_runqueue c = t # q" "\<not> c_isidle c" "c_zombies c = []" "c_spinlocks c = c_spinlocks (cur_cpu s) + 1"
    using S q by (simp_all add: c_def s1_def spinlock_acquire_def)
  have st1: "stats_ok s1" using S(4) by (simp add: s1_def spinlock_acquire_def upd_cpu_def stats_ok_def)
  define s3 where "s3 = upd_cpu (curcpu s) (\<lambda>c. c\<lparr>c_runqueue := c_runqueue c @ [?cur]\<rparr>)
      (upd_thread ?cur (\<lambda>t. t\<lparr>t_state := S_READY\<rparr>) s1)"
  have mr: "thread_make_runnable ?cur True s1 = Ret s3"
    using S(6) f1 by (simp add: thread_make_runnable_def s3_def Let_def)
  define s4 where "s4 = upd_cpu (curcpu s) (\<lambda>c. c\<lparr>c_isidle := True\<rparr>) (upd_thread ?cur (\<lambda>x. x\<lparr>t_state := S_READY\<rparr>) s3)"
  have f4: "curcpu s4 = curcpu s" "sched_ok s4" "cur_cpu s4 = c\<lparr>c_runqueue := t # q @ [?cur], c_isidle := True\<rparr>"
    "threads s4 = (threads s)(?cur := (threads s ?cur)\<lparr>t_state := S_READY\<rparr>)"
    using f1 c(1) by (simp_all add: s4_def s3_def cur_cpu_def c_def sched_ok_def)
  define u where "u = (upd_cpu (curcpu s) (\<lambda>c. c\<lparr>c_isidle := False, c_curthread := Some t\<rparr>)
      (upd_cpu (curcpu s) (\<lambda>c. c\<lparr>c_runqueue := q @ [?cur]\<rparr>) s4))\<lparr>curthread := t\<rparr>"
  have "pick_next cpu_idle s4 = Some (t, upd_cpu (curcpu s) (\<lambda>c. c\<lparr>c_runqueue := q @ [?cur]\<rparr>) s4)"
    using pick_next_Cons [of s4 t "q @ [?cur]"] f4(1,3) by simp
  then have "thread_yield cpu_idle s = Ret (True, None, u)"
    using S(2,5) f1 c(1) mr f4(1)
    by (simp add: thread_yield_def thread_switch_out_def thread_checkstack_ok put_thread_def Let_def
        s1_def [symmetric] c_def [symmetric] s4_def u_def s3_def)
  moreover have "curthread u = t" "curcpu u = curcpu s" "sched_ok u" "cur_cpu u = c\<lparr>c_runqueue := q @ [?cur], c_isidle := False, c_curthread := Some t\<rparr>"
    "threads u = threads s4"
    using f4 by (simp_all add: u_def cur_cpu_def sched_ok_def)
  moreover have "stats_ok u" using st1 by (simp add: u_def s4_def s3_def upd_cpu_def upd_thread_def stats_ok_def)
  ultimately show ?thesis using c f4(4) by (intro exI [of _ u]) simp
qed

lemma thread_switch_in_ok:
  assumes "sched_ok s" "stats_ok s" "c_zombies (cur_cpu s) = []"
  shows "\<exists>u. thread_switch_in E s = Ret u \<and> curthread u = curthread s \<and> curcpu u = curcpu s \<and> sched_ok u \<and> stats_ok u \<and>
    cur_cpu u = (cur_cpu s)\<lparr>c_spinlocks := c_spinlocks (cur_cpu s) - 1\<rparr> \<and> t_state (threads u (curthread u)) = S_RUN \<and>
    (\<forall>x. t_stack (threads u x) = t_stack (threads s x) \<and> t_cpu (threads u x) = t_cpu (threads s x))"
proof -
  define s2 where "s2 = spinlock_release (upd_thread (curthread s) (\<lambda>x. x\<lparr>t_wchan_name := None, t_state := S_RUN\<rparr>) s)"
  have f: "curthread s2 = curthread s" "curcpu s2 = curcpu s" "sched_ok s2"
    "cur_cpu s2 = (cur_cpu s)\<lparr>c_spinlocks := c_spinlocks (cur_cpu s) - 1\<rparr>"
    "threads s2 = (threads s)(curthread s := (threads s (curthread s))\<lparr>t_wchan_name := None, t_state := S_RUN\<rparr>)"
    using assms(1) by (simp_all add: s2_def spinlock_release_def cur_cpu_def sched_ok_def)
  have "stats_ok s2" using assms(2) by (simp add: s2_def spinlock_release_def upd_cpu_def upd_thread_def stats_ok_def)
  from as_activate_ok [OF this, of E] obtain h c where a: "as_activate E s2 = Ret (s2\<lparr>counters := c, tlb_hw := h\<rparr>)"
    "stats_ok (s2\<lparr>counters := c, tlb_hw := h\<rparr>)" by (elim exE conjE)
  have "c_zombies (cur_cpu (s2\<lparr>counters := c, tlb_hw := h\<rparr>)) = []" using f(4) assms(3) by (simp add: cur_cpu_def)
  then have "thread_switch_in E s = Ret (s2\<lparr>counters := c, tlb_hw := h\<rparr>)"
    using a(1) by (simp add: thread_switch_in_def s2_def [symmetric] exorcise_def)
  with a(2) f show ?thesis
    by (intro exI [of _ "s2\<lparr>counters := c, tlb_hw := h\<rparr>"]) (simp add: cur_cpu_def sched_ok_def)
qed

lemma yield_rotates:
  assumes ok: "rr_ok s"
  shows "\<exists>u. yields E cpu_idle 1 s = Ret u \<and> rr_ok u \<and> run_order u = rotate1 (run_order s)"
proof (cases "c_runqueue (cur_cpu s)")
  case Nil
  have S: "sched_ok s" "\<not> c_isidle (cur_cpu s)" "guard_ok (threads s (curthread s))"
    using ok by (simp_all add: rr_ok_def run_order_def)
  have "c_runqueue (cur_cpu (spinlock_acquire s)) = []" using Nil S(1) by (simp add: spinlock_acquire_def)
  then have "thread_yield cpu_idle s = Ret (False, None, s)"
    using S by (simp add: thread_yield_def thread_switch_out_def thread_checkstack_ok Let_def)
  then show ?thesis using ok Nil by (intro exI [of _ s]) (simp add: run_order_def)
next
  case (Cons t q)
  from thread_yield_switches [OF ok Cons, of cpu_idle] obtain u where u: "thread_yield cpu_idle s = Ret (True, None, u)"
    "curthread u = t" "curcpu u = curcpu s" "sched_ok u" "c_runqueue (cur_cpu u) = q @ [curthread s]"
    "\<not> c_isidle (cur_cpu u)" "c_zombies (cur_cpu u) = []" "stats_ok u"
    "\<forall>x. t_stack (threads u x) = t_stack (threads s x) \<and> t_cpu (threads u x) = t_cpu (threads s x)"
    by (elim exE conjE)
  from thread_switch_in_ok [OF u(4,8,7), of E] obtain v where v: "thread_switch_in E u = Ret v" "curthread v = curthread u"
    "curcpu v = curcpu u" "sched_ok v" "stats_ok v" "cur_cpu v = (cur_cpu u)\<lparr>c_spinlocks := c_spinlocks (cur_cpu u) - 1\<rparr>"
    "\<forall>x. t_stack (threads v x) = t_stack (threads u x) \<and> t_cpu (threads v x) = t_cpu (threads u x)"
    by (elim exE conjE)
  have o: "run_order v = rotate1 (run_order s)" using u(2,5) v(2,6) Cons by (simp add: run_order_def)
  then have "set (run_order v) = set (run_order s)" by simp
  then have "rr_ok v" using ok u(3,6,7,9) v(3-7) by (simp add: rr_ok_def guard_ok_def)
  with u(1) v(1) o show ?thesis by (intro exI [of _ v]) simp
qed

lemma yields_Suc: "yields E cpu_idle (Suc n) s = kbind (yields E cpu_idle 1 s) (yields E cpu_idle n)"
  by (simp add: kbind_assoc split_def)

lemma yields_rotate:
  "rr_ok s \<Longrightarrow> \<exists>u. yields E cpu_idle n s = Ret u \<and> rr_ok u \<and> run_order u = rotate n (run_order s)"
proof (induction n arbitrary: s)
  case (Suc n)
  from yield_rotates [OF Suc.prems, of E cpu_idle] obtain v
    where v: "yields E cpu_idle 1 s = Ret v" "rr_ok v" "run_order v = rotate1 (run_order s)" by (elim exE conjE)
  from Suc.IH [OF v(2)] obtain u where "yields E cpu_idle n v = Ret u" "rr_ok u" "run_order u = rotate n (run_order v)"
    by (elim exE conjE)
  moreover have "yields E cpu_idle (Suc n) s = yields E cpu_idle n v" unfolding yields_Suc v(1) by (rule kbind.simps)
  ultimately show ?case using v(3) by (intro exI [of _ u]) (simp del: yields.simps add: rotate1_rotate_swap)
qed auto


section \<open>Migration\<close>

definition queue_of :: "'a sched_scheme \<Rightarrow> nat \<Rightarrow> tid list" where
  "queue_of s c = c_runqueue (allcpus s ! c)"

definition all_queued :: "'a sched_scheme \<Rightarrow> tid list" where
  "all_queued s = concat (map c_runqueue (allcpus s))"

text \<open>Each thread on a run queue belongs to the CPU of that queue.\<close>

definition home_ok :: "'a sched_scheme \<Rightarrow> bool" where
  "home_ok s \<longleftrightarrow> (\<forall>c<length (allcpus s). \<forall>t\<in>set (queue_of s c). t_cpu (threads s t) = Some c)"

lemma queue_in_all: "c < length (allcpus s) \<Longrightarrow> set (queue_of s c) \<subseteq> set (all_queued s)"
  by (auto simp: all_queued_def queue_of_def intro!: bexI [of _ "allcpus s ! c"])

lemma mset_concat_update:
  assumes "c < length xs"
  shows "mset (concat (map f (xs[c := y]))) + mset (f (xs ! c)) = mset (concat (map f xs)) + mset (f y)"
proof -
  have "mset (concat (map f (xs[c := y]))) = mset (concat (map f (take c xs))) + mset (f y) + mset (concat (map f (drop (Suc c) xs)))"
    using assms by (simp add: upd_conv_take_nth_drop)
  moreover have "mset (concat (map f xs)) = mset (concat (map f (take c xs @ xs ! c # drop (Suc c) xs)))"
    using assms by (simp add: id_take_nth_drop [symmetric])
  ultimately show ?thesis by simp
qed

text \<open>Threads \<open>ms\<close> are handed to CPU \<open>c\<close>.\<close>

definition gave :: "nat \<Rightarrow> tid list \<Rightarrow> 'a sched_scheme \<Rightarrow> 'a sched_scheme \<Rightarrow> bool" where
  "gave c ms s u \<longleftrightarrow> queue_of u c = queue_of s c @ ms \<and> length (allcpus u) = length (allcpus s) \<and>
     (\<forall>d. d \<noteq> c \<longrightarrow> allcpus u ! d = allcpus s ! d) \<and> curcpu u = curcpu s \<and> curthread u = curthread s \<and>
     curcpu_exists u = curcpu_exists s \<and>
     (\<forall>t. threads u t = (if t \<in> set ms then (threads s t)\<lparr>t_cpu := Some c\<rparr> else threads s t))"

lemma gave_refl: "gave c [] s s"
  by (simp add: gave_def)

lemma gave_trans: "gave c ms s u \<Longrightarrow> gave c ns u v \<Longrightarrow> gave c (ms @ ns) s v"
  by (auto simp: gave_def)

lemma give_one:
  assumes "c < length (allcpus s)"
    and u_def: "u = upd_cpu c (\<lambda>x. x\<lparr>c_runqueue := c_runqueue x @ [t]\<rparr>) (upd_thread t (\<lambda>x. x\<lparr>t_cpu := Some c\<rparr>) s)"
  shows "\<exists>v. (if c_isidle (allcpus u ! c) then ipi_send c IPI_UNIDLE u else Ret u) = Ret v \<and> gave c [t] s v"
  using assms(1) unfolding u_def
  by (auto simp: gave_def queue_of_def ipi_send_def IPI_UNIDLE_def)

lemma give_cpu_ok:
  assumes "n \<le> length vs" "c < length (allcpus s)" "length (queue_of s c) \<le> k" "share \<le> k"
  shows "\<exists>n' vs' ms u. give_cpu share c n vs s = Ret (n', vs', u) \<and> n' \<le> length vs' \<and> gave c ms s u \<and>
    mset vs = mset ms + mset vs' \<and> curthread s \<notin> set ms \<and> length (queue_of u c) \<le> k"
  using assms(1-3)
proof (induction n arbitrary: vs s)
  case 0
  then show ?case using gave_refl by fastforce
next
  case (Suc n)
  then obtain t rest where vs: "vs = t # rest" by (cases vs) auto
  show ?case
  proof (cases "length (c_runqueue (allcpus s ! c)) < share")
    case False
    then show ?thesis using Suc.prems gave_refl by (intro exI [of _ "Suc n"] exI [of _ vs] exI [of _ "[]"] exI [of _ s]) simp
  next
    case lt: True
    show ?thesis
    proof (cases "t = curthread s")
      case True
      then show ?thesis using Suc.IH [of "rest @ [t]" s] Suc.prems vs lt by (simp add: union_ac)
    next
      case False
      from give_one [OF Suc.prems(2) refl, of t] obtain v where v: "gave c [t] s v"
        and step: "give_cpu share c (Suc n) vs s = give_cpu share c n rest v"
        using lt False vs by (auto simp: Let_def)
      have "length (queue_of v c) \<le> k" using v lt assms(4) by (simp add: gave_def queue_of_def)
      from Suc.IH [OF _ _ this, of rest] Suc.prems vs v obtain n' vs' ms u
        where u: "give_cpu share c n rest v = Ret (n', vs', u)" "n' \<le> length vs'" "gave c ms v u"
          "mset rest = mset ms + mset vs'" "curthread v \<notin> set ms" "length (queue_of u c) \<le> k"
        by (auto simp: gave_def)
      have "gave c (t # ms) s u" using gave_trans [OF v u(3)] by simp
      moreover have "curthread s \<notin> set (t # ms)" using u(5) False v by (auto simp: gave_def)
      ultimately show ?thesis using u step vs
        by (intro exI [of _ n'] exI [of _ vs'] exI [of _ "t # ms"] exI [of _ u]) simp
    qed
  qed
qed

text \<open>\<open>moving s vs\<close>: threads \<open>vs\<close> of the current CPU are on their way, all others are at home.\<close>

definition moving :: "'a sched_scheme \<Rightarrow> tid list \<Rightarrow> bool" where
  "moving s vs \<longleftrightarrow> sched_ok s \<and> distinct (all_queued s @ vs) \<and> home_ok s \<and>
     (\<forall>t\<in>set vs. t_cpu (threads s t) = Some (curcpu s))"

lemma gave_mset:
  assumes "gave c ms s u" "c < length (allcpus s)"
  shows "mset (all_queued u) = mset (all_queued s) + mset ms"
proof -
  have "allcpus u = (allcpus s)[c := allcpus u ! c]"
    using assms by (intro nth_equalityI) (auto simp: gave_def nth_list_update)
  then have "mset (all_queued u) + mset (queue_of s c) = mset (all_queued s) + mset (queue_of u c)"
    using mset_concat_update [OF assms(2), of c_runqueue "allcpus u ! c"] by (simp add: all_queued_def queue_of_def)
  then show ?thesis using assms(1) by (simp add: gave_def)
qed

lemma gave_moving:
  assumes m: "moving s vs" and g: "gave c ms s u" and c: "c < length (allcpus s)" "c \<noteq> curcpu s"
    and vs: "mset vs = mset ms + mset vs'"
  shows "moving u vs'" "mset (all_queued u @ vs') = mset (all_queued s @ vs)"
proof -
  show q: "mset (all_queued u @ vs') = mset (all_queued s @ vs)" using gave_mset [OF g c(1)] vs by (simp add: union_ac)
  then have d: "distinct (all_queued u @ vs')" using mset_eq_imp_distinct_iff [OF q] m by (simp add: moving_def)
  have dv: "set ms \<subseteq> set vs" "set vs' \<subseteq> set vs" "set ms \<inter> set vs' = {}" "set vs \<inter> set (all_queued s) = {}"
  proof -
    show "set ms \<subseteq> set vs" "set vs' \<subseteq> set vs" using arg_cong [OF vs, of set_mset] by auto
    have "distinct (ms @ vs')" using m mset_eq_imp_distinct_iff [of vs "ms @ vs'"] vs by (auto simp: moving_def)
    then show "set ms \<inter> set vs' = {}" by simp
    show "set vs \<inter> set (all_queued s) = {}" using m by (auto simp: moving_def)
  qed
  have "home_ok u"
    unfolding home_ok_def
  proof (intro allI impI ballI)
    fix d t assume d: "d < length (allcpus u)" "t \<in> set (queue_of u d)"
    show "t_cpu (threads u t) = Some d"
    proof (cases "t \<in> set ms")
      case True
      have "d = c"
      proof (rule ccontr)
        assume "d \<noteq> c"
        then have "t \<in> set (all_queued s)" using d g queue_in_all [of d s] by (auto simp: gave_def queue_of_def)
        then show False using True dv by blast
      qed
      then show ?thesis using True g by (simp add: gave_def)
    next
      case False
      then have "t \<in> set (queue_of s d)" using d g by (cases "d = c") (auto simp: gave_def queue_of_def)
      then show ?thesis using m d(1) g False by (simp add: moving_def home_ok_def gave_def)
    qed
  qed
  moreover have "t_cpu (threads u t) = Some (curcpu u)" if "t \<in> set vs'" for t
    using that dv m g by (auto simp: moving_def gave_def)
  moreover have "sched_ok u" using m g by (simp add: moving_def sched_ok_def gave_def)
  ultimately show "moving u vs'" using d by (simp add: moving_def)
qed

lemma gave_others: "gave c ms s u \<Longrightarrow> d \<noteq> c \<Longrightarrow> queue_of u d = queue_of s d"
  by (simp add: gave_def queue_of_def)

definition cpu_keeps :: "'a sched_scheme \<Rightarrow> 'a sched_scheme \<Rightarrow> bool" where
  "cpu_keeps s u \<longleftrightarrow> curthread u = curthread s \<and> curcpu u = curcpu s \<and> length (allcpus u) = length (allcpus s) \<and>
     t_cpu (threads u (curthread s)) = t_cpu (threads s (curthread s))"

lemma give_all_ok:
  assumes "moving s vs" "n \<le> length vs" "set cs \<subseteq> {..<length (allcpus s)}"
  shows "\<exists>vs' u. give_all share cs n vs s = Ret (vs', u) \<and> moving u vs' \<and> cpu_keeps s u \<and>
    mset (all_queued u @ vs') = mset (all_queued s @ vs) \<and> queue_of u (curcpu s) = queue_of s (curcpu s) \<and>
    (\<forall>d. length (queue_of u d) \<le> max share (length (queue_of s d))) \<and> length vs' \<le> length vs"
  using assms
proof (induction cs arbitrary: n vs s)
  case Nil
  then show ?case by (simp add: cpu_keeps_def)
next
  case (Cons c cs)
  consider "n = 0" | "n \<noteq> 0" "c = curcpu s" | "n \<noteq> 0" "c \<noteq> curcpu s" by blast
  then show ?case
  proof cases
    case 1
    with Cons.prems show ?thesis by (simp add: cpu_keeps_def)
  next
    case 2
    with Cons.IH [OF Cons.prems(1,2)] Cons.prems(3) show ?thesis by simp
  next
    case 3
    have c: "c < length (allcpus s)" using Cons.prems(3) by simp
    from give_cpu_ok [where share = share, OF Cons.prems(2) c max.cobounded2 max.cobounded1] obtain n' vs' ms v
      where v: "give_cpu share c n vs s = Ret (n', vs', v)" "n' \<le> length vs'" "gave c ms s v"
        "mset vs = mset ms + mset vs'" "curthread s \<notin> set ms" "length (queue_of v c) \<le> max share (length (queue_of s c))"
      by (elim exE conjE) (rule that)
    note M = gave_moving [OF Cons.prems(1) v(3) c 3(2) v(4)]
    have k: "cpu_keeps s v" using v(3,5) by (simp add: cpu_keeps_def gave_def)
    have "set cs \<subseteq> {..<length (allcpus v)}" using Cons.prems(3) k by (simp add: cpu_keeps_def)
    from Cons.IH [OF M(1) v(2) this] obtain vs'' u
      where u: "give_all share cs n' vs' v = Ret (vs'', u)" "moving u vs''" "cpu_keeps v u"
        "mset (all_queued u @ vs'') = mset (all_queued v @ vs')" "queue_of u (curcpu v) = queue_of v (curcpu v)"
        "\<forall>d. length (queue_of u d) \<le> max share (length (queue_of v d))" "length vs'' \<le> length vs'"
      by (elim exE conjE) (rule that)
    have "length vs' \<le> length vs" using arg_cong [OF v(4), of size] by simp
    moreover
    have "length (queue_of u d) \<le> max share (length (queue_of s d))" for d
      using u(6) [THEN spec, of d] v(6) gave_others [OF v(3), of d] by (cases "d = c") simp_all
    moreover have "cpu_keeps s u" using k u(3) by (simp add: cpu_keeps_def)
    moreover have "queue_of u (curcpu s) = queue_of s (curcpu s)"
      using u(5) k gave_others [OF v(3), of "curcpu s"] 3(2) by (simp add: cpu_keeps_def)
    ultimately show ?thesis using 3 v(1) u(1,2,4,7) M(2) by (intro exI [of _ vs''] exI [of _ u]) simp
  qed
qed

lemma take_victims_eq: "n \<le> length q \<Longrightarrow> take_victims n q vs = (take (length q - n) q, drop (length q - n) q @ vs)"
proof (induction n arbitrary: q vs)
  case (Suc n)
  then have q: "q = butlast q @ [last q]" by (cases q rule: rev_cases) auto
  have "take_victims (Suc n) q vs = take_victims n (butlast q) (last q # vs)" by simp
  also have "\<dots> = (take (length q - Suc n) (butlast q), drop (length q - Suc n) (butlast q) @ last q # vs)"
    using Suc.IH [of "butlast q"] Suc.prems by simp
  also have "take (length q - Suc n) (butlast q) = take (length q - Suc n) q" by (simp add: butlast_conv_take min_def)
  also have "drop (length q - Suc n) (butlast q) @ last q # vs = drop (length q - Suc n) (butlast q @ [last q]) @ vs"
    by simp
  also have "butlast q @ [last q] = q" by (rule q [symmetric])
  finally show ?case .
qed simp

lemma split_off:
  assumes ok: "sched_ok s" and home: "home_ok s" and dist: "distinct (all_queued s)"
    and q: "queue_of s (curcpu s) = q @ vs" and s1: "s1 = upd_cpu (curcpu s) (\<lambda>c. c\<lparr>c_runqueue := q\<rparr>) s"
  shows "moving s1 vs" "mset (all_queued s1 @ vs) = mset (all_queued s)" "cpu_keeps s s1"
    "queue_of s1 (curcpu s) = q" "d \<noteq> curcpu s \<Longrightarrow> queue_of s1 d = queue_of s d"
proof -
  have cc: "curcpu s < length (allcpus s)" using ok by (simp add: sched_ok_def)
  show q1: "queue_of s1 (curcpu s) = q" and q2: "\<And>d. d \<noteq> curcpu s \<Longrightarrow> queue_of s1 d = queue_of s d"
    using cc by (simp_all add: s1 queue_of_def)
  show "cpu_keeps s s1" by (simp add: s1 cpu_keeps_def)
  have "mset (all_queued s1) + mset (queue_of s (curcpu s)) = mset (all_queued s) + mset q"
    using mset_concat_update [OF cc, of c_runqueue "(allcpus s ! curcpu s)\<lparr>c_runqueue := q\<rparr>"]
    by (simp add: all_queued_def s1 queue_of_def)
  then show ms: "mset (all_queued s1 @ vs) = mset (all_queued s)" by (simp add: q)
  have "home_ok s1"
    unfolding home_ok_def
  proof (intro allI impI ballI)
    fix c t assume "c < length (allcpus s1)" "t \<in> set (queue_of s1 c)"
    then show "t_cpu (threads s1 t) = Some c"
      using home q q1 q2 [of c] by (cases "c = curcpu s") (auto simp: home_ok_def s1)
  qed
  moreover have "distinct (all_queued s1 @ vs)" using mset_eq_imp_distinct_iff [OF ms] dist by simp
  moreover have "t_cpu (threads s1 t) = Some (curcpu s1)" if "t \<in> set vs" for t
    using that home cc q by (simp add: home_ok_def s1)
  ultimately show "moving s1 vs" using ok by (simp add: moving_def s1)
qed

lemma take_back:
  assumes mv: "moving u vs" and w: "w = upd_cpu (curcpu u) (\<lambda>c. c\<lparr>c_runqueue := c_runqueue c @ vs\<rparr>) u"
  shows "mset (all_queued w) = mset (all_queued u @ vs)" "home_ok w" "cpu_keeps u w"
    "queue_of w (curcpu u) = queue_of u (curcpu u) @ vs" "d \<noteq> curcpu u \<Longrightarrow> queue_of w d = queue_of u d"
proof -
  have cc: "curcpu u < length (allcpus u)" using mv by (simp add: moving_def sched_ok_def)
  show q1: "queue_of w (curcpu u) = queue_of u (curcpu u) @ vs" and q2: "\<And>d. d \<noteq> curcpu u \<Longrightarrow> queue_of w d = queue_of u d"
    using cc by (simp_all add: w queue_of_def)
  show "cpu_keeps u w" by (simp add: w cpu_keeps_def)
  show "mset (all_queued w) = mset (all_queued u @ vs)"
    using mset_concat_update [OF cc, of c_runqueue "(allcpus u ! curcpu u)\<lparr>c_runqueue := c_runqueue (allcpus u ! curcpu u) @ vs\<rparr>"]
    by (simp add: all_queued_def w)
  show "home_ok w"
    unfolding home_ok_def
  proof (intro allI impI ballI)
    fix c t assume "c < length (allcpus w)" "t \<in> set (queue_of w c)"
    then show "t_cpu (threads w t) = Some c"
      using mv q1 q2 [of c] by (cases "c = curcpu u") (auto simp: moving_def home_ok_def w)
  qed
qed

lemma migration_ok:
  assumes ok: "sched_ok s" and home: "home_ok s" and dist: "distinct (all_queued s)"
  defines "share \<equiv> (length (all_queued s) + (length (allcpus s) - 1)) div length (allcpus s)"
  shows "\<exists>u. thread_consider_migration s = Ret u \<and> mset (all_queued u) = mset (all_queued s) \<and> home_ok u \<and>
    cpu_keeps s u \<and> length (queue_of u (curcpu s)) \<le> length (queue_of s (curcpu s)) \<and>
    (\<forall>d. d \<noteq> curcpu s \<longrightarrow> length (queue_of u d) \<le> max share (length (queue_of s d)))"
proof -
  let ?my = "queue_of s (curcpu s)"
  have total: "sum_list (map (\<lambda>c. length (c_runqueue c)) (allcpus s)) = length (all_queued s)"
    by (simp add: all_queued_def length_concat o_def)
  show ?thesis
  proof (cases "length ?my < share")
    case True
    then have "thread_consider_migration s = Ret s"
      by (simp add: thread_consider_migration_def total share_def queue_of_def cur_cpu_def Let_def)
    with home show ?thesis by (intro exI [of _ s]) (simp add: cpu_keeps_def)
  next
    case False
    let ?n = "length ?my - share"
    define q vs where "q = take share ?my" and "vs = drop share ?my"
    have my: "?my = q @ vs" by (simp add: q_def vs_def)
    have tv: "take_victims ?n ?my [] = (q, vs)" using False by (simp add: take_victims_eq q_def vs_def)
    define s1 where "s1 = upd_cpu (curcpu s) (\<lambda>c. c\<lparr>c_runqueue := q\<rparr>) s"
    note S = split_off [OF ok home dist my s1_def]
    have "set [0..<length (allcpus s)] \<subseteq> {..<length (allcpus s1)}" by (auto simp: s1_def)
    from give_all_ok [OF S(1) _ this, of ?n share] obtain vs' u
      where u: "give_all share [0..<length (allcpus s)] ?n vs s1 = Ret (vs', u)" "moving u vs'" "cpu_keeps s1 u"
        "mset (all_queued u @ vs') = mset (all_queued s1 @ vs)" "queue_of u (curcpu s1) = queue_of s1 (curcpu s1)"
        "\<forall>d. length (queue_of u d) \<le> max share (length (queue_of s1 d))" "length vs' \<le> length vs"
      by (auto simp: vs_def)
    define w where "w = upd_cpu (curcpu u) (\<lambda>c. c\<lparr>c_runqueue := c_runqueue c @ vs'\<rparr>) u"
    note W = take_back [OF u(2) w_def]
    have cu: "curcpu u = curcpu s" "curcpu s1 = curcpu s" using u(3) S(3) by (simp_all add: cpu_keeps_def)
    have "thread_consider_migration s = Ret w"
      using False tv u(1) unfolding share_def
      by (simp add: thread_consider_migration_def total queue_of_def cur_cpu_def Let_def s1_def w_def)
    moreover have "cpu_keeps s w" using S(3) u(3) W(3) by (simp add: cpu_keeps_def)
    moreover have "length (queue_of w d) \<le> max share (length (queue_of s d))" if "d \<noteq> curcpu s" for d
      using that W(5) [of d] u(6) [THEN spec, of d] S(5) [of d] cu by simp
    ultimately show ?thesis
      using W(1,2,4) u(4,5,7) S(2,4) my cu by (intro exI [of _ w]) simp
  qed
qed


section \<open>Creation of threads\<close>

lemma kmalloc_cases:
  obtains (fail) km where "kmalloc s = (False, s\<lparr>kmem := km\<rparr>)"
    | (ok) km where "kmalloc s = (True, s\<lparr>kmem := km, kheap := kheap s + 1\<rparr>)"
proof (cases "kmem s")
  case Nil
  then have "kmalloc s = (False, s\<lparr>kmem := []\<rparr>)" by (simp add: kmalloc_def)
  then show ?thesis by (rule fail)
next
  case (Cons b rest)
  then have "kmalloc s = (b, s\<lparr>kmem := rest, kheap := (if b then kheap s + 1 else kheap s)\<rparr>)" by (simp add: kmalloc_def)
  then show ?thesis using fail [of rest] ok [of rest] by (cases b) simp_all
qed

text \<open>A thread structure that is complete but not yet attached to anything.\<close>

definition new_thread :: "string \<Rightarrow> thread" where
  "new_thread name = \<lparr>t_name = name, t_wchan_name = Some ''NEW'', t_state = S_READY, t_stack = None, t_cpu = None,
     t_proc = None, t_in_interrupt = False, t_curspl = IPL_HIGH, t_iplhigh_count = 1\<rparr>"

lemma thread_create_cases:
  obtains (fail) u where "thread_create name s = (None, u)" "kheap u = kheap s" "threads u = threads s" "allcpus u = allcpus s"
      "procs u = procs s" "curthread u = curthread s"
    | (ok) km where "thread_create name s = (Some (next_thread s),
        s\<lparr>kmem := km, kheap := kheap s + 2, next_thread := next_thread s + 1, threads := (threads s)(next_thread s := new_thread name)\<rparr>)"
proof (rule kmalloc_cases [of s])
  fix km assume "kmalloc s = (False, s\<lparr>kmem := km\<rparr>)"
  then show ?thesis by (intro fail [of "s\<lparr>kmem := km\<rparr>"]) (simp_all add: thread_create_def)
next
  fix km assume m1: "kmalloc s = (True, s\<lparr>kmem := km, kheap := kheap s + 1\<rparr>)"
  let ?s1 = "s\<lparr>kmem := km, kheap := kheap s + 1, next_thread := next_thread s + 1\<rparr>"
  show ?thesis
  proof (rule kmalloc_cases [of ?s1])
    fix km' assume "kmalloc ?s1 = (False, ?s1\<lparr>kmem := km'\<rparr>)"
    with m1 show ?thesis
      by (intro fail [of "kfree (?s1\<lparr>kmem := km'\<rparr>)"]) (simp_all add: thread_create_def kfree_def)
  next
    fix km' assume "kmalloc ?s1 = (True, ?s1\<lparr>kmem := km', kheap := kheap ?s1 + 1\<rparr>)"
    with m1 show ?thesis by (intro ok [of km']) (simp add: thread_create_def upd_thread_def new_thread_def Let_def)
  qed
qed

lemma fork_error:
  assumes fork: "thread_fork name proc e s = Ret (Some err, u)" and cur: "curthread s < next_thread s"
  shows "err = ENOMEM \<and> kheap u = kheap s \<and> allcpus u = allcpus s \<and> procs u = procs s \<and> curthread u = curthread s \<and>
    (\<forall>t<next_thread s. threads u t = threads s t)"
proof (rule thread_create_cases [of name s])
  fix v assume "thread_create name s = (None, v)" "kheap v = kheap s" "threads v = threads s" "allcpus v = allcpus s"
    "procs v = procs s" "curthread v = curthread s"
  with fork show ?thesis by (simp add: thread_fork_def)
next
  fix km let ?t = "next_thread s"
  let ?s1 = "s\<lparr>kmem := km, kheap := kheap s + 2, next_thread := ?t + 1, threads := (threads s)(?t := new_thread name)\<rparr>"
  assume c: "thread_create name s = (Some ?t, ?s1)"
  show ?thesis
  proof (rule kmalloc_cases [of ?s1])
    fix km' assume m: "kmalloc ?s1 = (False, ?s1\<lparr>kmem := km'\<rparr>)"
    show ?thesis using fork c m cur
      by (auto simp: thread_fork_def thread_destroy_def new_thread_def kfree_def upd_thread_def)
  next
    fix km' assume m: "kmalloc ?s1 = (True, ?s1\<lparr>kmem := km', kheap := kheap ?s1 + 1\<rparr>)"
    show ?thesis using fork c m
      by (auto simp: thread_fork_def Let_def kbind_eq_Ret split: option.splits)
  qed
qed

lemma fork_success:
  assumes fork: "thread_fork name (Some p) e s = Ret (None, u)" and cur: "curthread s < next_thread s"
    and cpu: "t_cpu (threads s (curthread s)) = Some c" "c < length (allcpus s)" and blk: "4 \<le> length (stack_block s)"
  defines "t \<equiv> next_thread s"
  shows "queue_of u c = queue_of s c @ [t] \<and> t_state (threads u t) = S_READY \<and> t_proc (threads u t) = Some p \<and>
    t_cpu (threads u t) = Some c \<and> guard_ok (threads u t) \<and> t_entry u t = Some e \<and>
    p_numthreads (procs u p) = p_numthreads (procs s p) + 1 \<and> kheap u = kheap s + 3 \<and> next_thread u = t + 1 \<and>
    (\<forall>x. x \<noteq> t \<longrightarrow> threads u x = threads s x)"
proof (rule thread_create_cases [of name s])
  fix v assume "thread_create name s = (None, v)"
  with fork show ?thesis by (simp add: thread_fork_def)
next
  fix km
  let ?s1 = "s\<lparr>kmem := km, kheap := kheap s + 2, next_thread := next_thread s + 1,
    threads := (threads s)(next_thread s := new_thread name)\<rparr>"
  assume c: "thread_create name s = (Some (next_thread s), ?s1)"
  show ?thesis
  proof (rule kmalloc_cases [of ?s1])
    fix km' assume m: "kmalloc ?s1 = (False, ?s1\<lparr>kmem := km'\<rparr>)"
    show ?thesis using fork c m by (simp add: thread_fork_def kbind_eq_Ret)
  next
    fix km' assume m: "kmalloc ?s1 = (True, ?s1\<lparr>kmem := km', kheap := kheap ?s1 + 1\<rparr>)"
    have ne: "stack_block s \<noteq> []" using blk by auto
    show ?thesis using fork c m cur cpu blk ne
      by (auto simp: thread_fork_def Let_def proc_addthread_def thread_make_runnable_def thread_checkstack_init_def
          new_thread_def kbind_eq_Ret ipi_send_def IPI_UNIDLE_def queue_of_def t_def guard_ok_def upd_thread_def upd_proc_def upd_cpu_def
          spinlock_acquire_def spinlock_release_def nth_list_update KASSERT_eq_Ret split: if_splits)
  qed
qed


section \<open>The end of a thread\<close>

text \<open>The blocks of memory a thread holds: its structure, its name and its stack.\<close>

definition thread_blocks :: "thread \<Rightarrow> nat" where
  "thread_blocks th = (if t_stack th = None then 2 else 3)"

lemma thread_destroy_ok:
  assumes "z \<noteq> curthread s" "t_state (threads s z) = S_ZOMBIE" "t_proc (threads s z) = None"
  shows "thread_destroy z s = Ret (upd_thread z (\<lambda>x. x\<lparr>t_wchan_name := Some ''DESTROYED''\<rparr>) s
    \<lparr>kheap := kheap s - thread_blocks (threads s z)\<rparr>)"
  using assms by (auto simp: thread_destroy_def thread_blocks_def kfree_def upd_thread_def)

lemma exorcise_loop_ok:
  assumes "\<forall>z\<in>set zs. z \<noteq> curthread s \<and> t_state (threads s z) = S_ZOMBIE \<and> t_proc (threads s z) = None" "distinct zs"
  shows "\<exists>u. exorcise_loop zs s = Ret u \<and> kheap u = kheap s - sum_list (map (\<lambda>z. thread_blocks (threads s z)) zs) \<and>
    curthread u = curthread s \<and> curcpu u = curcpu s \<and> curcpu_exists u = curcpu_exists s \<and>
    allcpus u = (if zs = [] then allcpus s else (allcpus s)[curcpu s := (cur_cpu s)\<lparr>c_zombies := []\<rparr>]) \<and>
    (\<forall>t. t \<notin> set zs \<longrightarrow> threads u t = threads s t)"
  using assms
proof (induction zs arbitrary: s)
  case (Cons z zs)
  define s1 where "s1 = upd_cpu (curcpu s) (\<lambda>c. c\<lparr>c_zombies := zs\<rparr>) s"
  define s2 where "s2 = upd_thread z (\<lambda>x. x\<lparr>t_wchan_name := Some ''DESTROYED''\<rparr>) s1\<lparr>kheap := kheap s - thread_blocks (threads s z)\<rparr>"
  have d: "thread_destroy z s1 = Ret s2"
    using thread_destroy_ok [of z s1] Cons.prems by (simp add: s1_def s2_def)
  have t2: "threads s2 t = threads s t" if "t \<noteq> z" for t using that by (simp add: s2_def s1_def)
  have f2: "curthread s2 = curthread s" "curcpu s2 = curcpu s" "curcpu_exists s2 = curcpu_exists s"
    "allcpus s2 = (allcpus s)[curcpu s := (cur_cpu s)\<lparr>c_zombies := zs\<rparr>]" "kheap s2 = kheap s - thread_blocks (threads s z)"
    by (simp_all add: s2_def s1_def cur_cpu_def)
  have zs: "z \<notin> set zs" "\<forall>y\<in>set zs. y \<noteq> z" using Cons.prems(2) by auto
  have m: "map (\<lambda>y. thread_blocks (threads s2 y)) zs = map (\<lambda>y. thread_blocks (threads s y)) zs"
    using zs(2) t2 by simp
  from Cons.IH [of s2] Cons.prems zs t2 f2 obtain u where u: "exorcise_loop zs s2 = Ret u"
    "kheap u = kheap s2 - sum_list (map (\<lambda>z. thread_blocks (threads s2 z)) zs)" "curthread u = curthread s2" "curcpu u = curcpu s2"
    "curcpu_exists u = curcpu_exists s2"
    "allcpus u = (if zs = [] then allcpus s2 else (allcpus s2)[curcpu s2 := (cur_cpu s2)\<lparr>c_zombies := []\<rparr>])"
    "\<forall>t. t \<notin> set zs \<longrightarrow> threads u t = threads s2 t" by auto
  have cz: "(allcpus s2)[curcpu s := (cur_cpu s2)\<lparr>c_zombies := []\<rparr>] = (allcpus s)[curcpu s := (cur_cpu s)\<lparr>c_zombies := []\<rparr>]"
    using f2(2,4) by (cases "curcpu s < length (allcpus s)") (simp_all add: cur_cpu_def list_update_beyond)
  have "exorcise_loop (z # zs) s = Ret u"
    using d u(1) Cons.prems(1) by (simp add: s1_def [symmetric]) (simp add: s1_def)
  moreover have "allcpus u = (allcpus s)[curcpu s := (cur_cpu s)\<lparr>c_zombies := []\<rparr>]"
    using u(6) f2(2,4) cz by (cases "zs = []") simp_all
  ultimately show ?case using u(2-5,7) f2 m t2 by (intro exI [of _ u]) simp
qed simp

text \<open>\<open>thread_exit\<close> puts the thread on the list of zombies and switches to the first one in the run queue.\<close>

lemma thread_exit_switches:
  assumes ok: "sched_ok s" "\<not> c_isidle (cur_cpu s)" "guard_ok (threads s (curthread s))" "stats_ok s"
    and q: "c_runqueue (cur_cpu s) = t # q" and p: "t_proc (threads s (curthread s)) = Some p" "0 < p_numthreads (procs s p)"
  shows "\<exists>u. thread_exit cpu_idle s = Ret u \<and> curthread u = t \<and> curcpu u = curcpu s \<and> sched_ok u \<and> stats_ok u \<and>
    c_runqueue (cur_cpu u) = q \<and> \<not> c_isidle (cur_cpu u) \<and> c_zombies (cur_cpu u) = c_zombies (cur_cpu s) @ [curthread s] \<and>
    kheap u = kheap s \<and> p_numthreads (procs u p) = p_numthreads (procs s p) - 1 \<and>
    threads u = (threads s)(curthread s := (threads s (curthread s))
      \<lparr>t_proc := None, t_wchan_name := Some ''ZOMBIE'', t_state := S_ZOMBIE\<rparr>)"
proof -
  let ?cur = "curthread s"
  define s1 where "s1 = upd_thread ?cur (\<lambda>th. th\<lparr>t_proc := None\<rparr>) (upd_proc p (\<lambda>x. x\<lparr>p_numthreads := p_numthreads x - 1\<rparr>) s)"
  have r: "proc_remthread ?cur s = Ret s1" using p by (simp add: proc_remthread_def s1_def)
  have f1: "curthread s1 = ?cur" "curcpu s1 = curcpu s" "allcpus s1 = allcpus s" "cur_cpu s1 = cur_cpu s" "sched_ok s1"
    "threads s1 = (threads s)(?cur := (threads s ?cur)\<lparr>t_proc := None\<rparr>)" "kheap s1 = kheap s"
    "p_numthreads (procs s1 p) = p_numthreads (procs s p) - 1"
    using ok(1) by (simp_all add: s1_def upd_proc_def cur_cpu_def sched_ok_def upd_thread_def)
  have g1: "guard_ok (threads s1 ?cur)" using ok(3) f1(6) by (simp add: guard_ok_def)
  define s2 where "s2 = spinlock_acquire s1"
  define s3 where "s3 = upd_cpu (curcpu s) (\<lambda>c. c\<lparr>c_zombies := c_zombies c @ [?cur]\<rparr>)
      (upd_thread ?cur (\<lambda>x. x\<lparr>t_wchan_name := Some ''ZOMBIE''\<rparr>) s2)"
  define s4 where "s4 = upd_cpu (curcpu s) (\<lambda>c. c\<lparr>c_isidle := True\<rparr>) (upd_thread ?cur (\<lambda>x. x\<lparr>t_state := S_ZOMBIE\<rparr>) s3)"
  define u where "u = (upd_cpu (curcpu s) (\<lambda>c. c\<lparr>c_isidle := False, c_curthread := Some t\<rparr>)
      (upd_cpu (curcpu s) (\<lambda>c. c\<lparr>c_runqueue := q\<rparr>) s4))\<lparr>curthread := t\<rparr>"
  have f2: "curthread s2 = ?cur" "curcpu s2 = curcpu s" "threads s2 = threads s1" "sched_ok s2"
    "cur_cpu s2 = (cur_cpu s)\<lparr>c_spinlocks := c_spinlocks (cur_cpu s) + 1\<rparr>"
    using f1 by (simp_all add: s2_def spinlock_acquire_def cur_cpu_def sched_ok_def)
  have f4: "curcpu s4 = curcpu s" "sched_ok s4" "c_runqueue (cur_cpu s4) = t # q"
    using f2 q by (simp_all add: s4_def s3_def cur_cpu_def sched_ok_def)
  have "pick_next cpu_idle s4 = Some (t, upd_cpu (curcpu s) (\<lambda>c. c\<lparr>c_runqueue := q\<rparr>) s4)"
    using pick_next_Cons [OF f4(3)] f4(1) by simp
  then have "thread_switch_out cpu_idle S_ZOMBIE None s1 = Ret (True, None, u)"
    using ok(2) f1(1,2,4) g1 f2(1,2) f4(1)
    by (simp add: thread_switch_out_def thread_checkstack_ok put_thread_def Let_def s2_def [symmetric] s3_def s4_def u_def)
  then have "thread_exit cpu_idle s = Ret u"
    using p(1) r g1 f1(1,6) by (simp add: thread_exit_def thread_checkstack_ok Let_def)
  moreover have "threads u = (threads s)(?cur := (threads s ?cur)\<lparr>t_proc := None, t_wchan_name := Some ''ZOMBIE'', t_state := S_ZOMBIE\<rparr>)"
    by (simp add: u_def s4_def s3_def f2(3) f1(6))
  moreover have "cur_cpu u = (cur_cpu s)\<lparr>c_spinlocks := c_spinlocks (cur_cpu s) + 1, c_zombies := c_zombies (cur_cpu s) @ [?cur],
      c_runqueue := q, c_isidle := False, c_curthread := Some t\<rparr>" "sched_ok u" "kheap u = kheap s" "procs u = procs s1"
    using f2(2,4,5) f1(7) by (simp_all add: u_def s4_def s3_def cur_cpu_def sched_ok_def)
      (simp_all add: s2_def spinlock_acquire_def upd_cpu_def upd_thread_def)
  moreover have "curthread u = t" "curcpu u = curcpu s" by (simp_all add: u_def s4_def s3_def f2(2))
  moreover have "stats_ok u"
    using ok(4) by (simp add: u_def s4_def s3_def s2_def s1_def spinlock_acquire_def upd_cpu_def upd_thread_def upd_proc_def stats_ok_def)
  ultimately show ?thesis using f1(8) by (intro exI [of _ u]) simp
qed

lemma switch_in_reaps:
  assumes ok: "sched_ok s" "stats_ok s"
    and z: "\<forall>z\<in>set (c_zombies (cur_cpu s)). z \<noteq> curthread s \<and> t_state (threads s z) = S_ZOMBIE \<and> t_proc (threads s z) = None"
      "distinct (c_zombies (cur_cpu s))"
  shows "\<exists>u. thread_switch_in E s = Ret u \<and> curthread u = curthread s \<and> c_zombies (cur_cpu u) = [] \<and>
    c_runqueue (cur_cpu u) = c_runqueue (cur_cpu s) \<and> t_state (threads u (curthread s)) = S_RUN \<and>
    kheap u = kheap s - sum_list (map (\<lambda>z. thread_blocks (threads s z)) (c_zombies (cur_cpu s)))"
proof -
  define s2 where "s2 = spinlock_release (upd_thread (curthread s) (\<lambda>x. x\<lparr>t_wchan_name := None, t_state := S_RUN\<rparr>) s)"
  have f: "curthread s2 = curthread s" "sched_ok s2" "kheap s2 = kheap s"
    "cur_cpu s2 = (cur_cpu s)\<lparr>c_spinlocks := c_spinlocks (cur_cpu s) - 1\<rparr>"
    "threads s2 = (threads s)(curthread s := (threads s (curthread s))\<lparr>t_wchan_name := None, t_state := S_RUN\<rparr>)"
    using ok(1) by (simp_all add: s2_def spinlock_release_def cur_cpu_def sched_ok_def)
  have "stats_ok s2" using ok(2) by (simp add: s2_def spinlock_release_def upd_cpu_def upd_thread_def stats_ok_def)
  from as_activate_ok [OF this, of E] obtain h c where a: "as_activate E s2 = Ret (s2\<lparr>counters := c, tlb_hw := h\<rparr>)"
    by (elim exE conjE)
  let ?s3 = "s2\<lparr>counters := c, tlb_hw := h\<rparr>" and ?zs = "c_zombies (cur_cpu s)"
  have c3: "cur_cpu ?s3 = cur_cpu s2" "sched_ok ?s3" using f(2) by (simp_all add: cur_cpu_def sched_ok_def)
  have m: "map (\<lambda>z. thread_blocks (threads ?s3 z)) ?zs = map (\<lambda>z. thread_blocks (threads s z)) ?zs"
    using z(1) f(5) by simp
  have "\<forall>z\<in>set ?zs. z \<noteq> curthread ?s3 \<and> t_state (threads ?s3 z) = S_ZOMBIE \<and> t_proc (threads ?s3 z) = None"
    using z(1) f(1,5) by auto
  from exorcise_loop_ok [OF this z(2)] obtain u where u: "exorcise_loop ?zs ?s3 = Ret u"
    "kheap u = kheap ?s3 - sum_list (map (\<lambda>z. thread_blocks (threads ?s3 z)) ?zs)" "curthread u = curthread ?s3" "curcpu u = curcpu ?s3"
    "allcpus u = (if ?zs = [] then allcpus ?s3 else (allcpus ?s3)[curcpu ?s3 := (cur_cpu ?s3)\<lparr>c_zombies := []\<rparr>])"
    "\<forall>t. t \<notin> set ?zs \<longrightarrow> threads u t = threads ?s3 t" by (elim exE conjE)
  have "cur_cpu u = (cur_cpu s2)\<lparr>c_zombies := []\<rparr>"
    using u(4,5) f(2,4) by (auto simp: cur_cpu_def sched_ok_def)
  moreover have "thread_switch_in E s = Ret u"
    using a u(1) c3 f(4) by (simp add: thread_switch_in_def s2_def [symmetric] exorcise_def)
  moreover have "t_state (threads u (curthread s)) = S_RUN" using u(6) z(1) f(5) by auto
  ultimately show ?thesis using u(2) [unfolded m] u(3) f(1,3,4) by (intro exI [of _ u]) simp
qed

lemma exit_reaped:
  assumes ok: "sched_ok s" "\<not> c_isidle (cur_cpu s)" "guard_ok (threads s (curthread s))" "stats_ok s"
    and q: "c_runqueue (cur_cpu s) = t # q" "t \<noteq> curthread s" and z: "c_zombies (cur_cpu s) = []"
    and p: "t_proc (threads s (curthread s)) = Some p" "0 < p_numthreads (procs s p)"
  shows "\<exists>u v. thread_exit cpu_idle s = Ret u \<and> p_numthreads (procs u p) = p_numthreads (procs s p) - 1 \<and>
    thread_switch_in E u = Ret v \<and> curthread v = t \<and> t_state (threads v t) = S_RUN \<and>
    c_runqueue (cur_cpu v) = q \<and> c_zombies (cur_cpu v) = [] \<and>
    kheap v = kheap s - thread_blocks (threads s (curthread s))"
proof -
  from thread_exit_switches [OF ok q(1) p, of cpu_idle] obtain u where u: "thread_exit cpu_idle s = Ret u" "curthread u = t"
    "sched_ok u" "stats_ok u" "c_runqueue (cur_cpu u) = q" "c_zombies (cur_cpu u) = c_zombies (cur_cpu s) @ [curthread s]"
    "kheap u = kheap s" "p_numthreads (procs u p) = p_numthreads (procs s p) - 1"
    "threads u = (threads s)(curthread s := (threads s (curthread s))\<lparr>t_proc := None, t_wchan_name := Some ''ZOMBIE'', t_state := S_ZOMBIE\<rparr>)"
    by (elim exE conjE)
  have b: "thread_blocks (threads u (curthread s)) = thread_blocks (threads s (curthread s))" by (simp add: u(9) thread_blocks_def)
  have "\<forall>z\<in>set (c_zombies (cur_cpu u)). z \<noteq> curthread u \<and> t_state (threads u z) = S_ZOMBIE \<and> t_proc (threads u z) = None"
    using u(2,6,9) z q(2) by auto
  from switch_in_reaps [OF u(3,4) this, of E] u(6) z obtain v where "thread_switch_in E u = Ret v" "curthread v = curthread u"
    "c_zombies (cur_cpu v) = []" "c_runqueue (cur_cpu v) = c_runqueue (cur_cpu u)" "t_state (threads v (curthread u)) = S_RUN"
    "kheap v = kheap u - sum_list (map (\<lambda>z. thread_blocks (threads u z)) (c_zombies (cur_cpu u)))" by auto
  with u z b show ?thesis by (intro exI [of _ u] exI [of _ v]) simp
qed

lemma make_runnable_total: "t_cpu (threads s t) = Some c \<Longrightarrow> \<exists>u. thread_make_runnable t b s = Ret u"
  by (simp add: thread_make_runnable_def ipi_send_def IPI_UNIDLE_def Let_def)

lemma fork_total:
  assumes "kmem s = True # True # True # km" "t_cpu (threads s (curthread s)) = Some c"
    "curthread s \<noteq> next_thread s"
  shows "\<exists>u. thread_fork name (Some p) e s = Ret (None, u)"
proof -
  let ?t = "next_thread s"
  define s1 where "s1 = s\<lparr>kmem := True # km, kheap := kheap s + 2, next_thread := ?t + 1,
      threads := (threads s)(?t := new_thread name)\<rparr>"
  have c: "thread_create name s = (Some ?t, s1)"
    using assms(1) by (simp add: thread_create_def kmalloc_def upd_thread_def new_thread_def Let_def s1_def)
  define s2 where "s2 = snd (kmalloc s1)"
  have k: "kmalloc s1 = (True, s2)" by (simp add: s2_def s1_def kmalloc_def)
  have f2: "threads s2 = (threads s)(?t := new_thread name)" "curthread s2 = curthread s"
    by (simp_all add: s2_def s1_def kmalloc_def)
  define s3 where "s3 = thread_checkstack_init ?t (upd_thread ?t (\<lambda>x. x\<lparr>t_stack := Some (stack_block s2)\<rparr>) s2)"
  define s4 where "s4 = upd_thread ?t (\<lambda>x. x\<lparr>t_cpu := Some c\<rparr>) s3"
  define s5 where "s5 = upd_thread ?t (\<lambda>x. x\<lparr>t_proc := Some p\<rparr>) (upd_proc p (\<lambda>x. x\<lparr>p_numthreads := p_numthreads x + 1\<rparr>) s4)"
  have t3: "t_cpu (threads s3 (curthread s3)) = Some c" "t_proc (threads s4 ?t) = None"
    using assms(2,3) f2 by (simp_all add: s3_def s4_def thread_checkstack_init_def new_thread_def)
  have p5: "proc_addthread p ?t s4 = Ret s5" using t3(2) by (simp add: proc_addthread_def s5_def)
  let ?s6 = "upd_thread ?t (\<lambda>x. x\<lparr>t_iplhigh_count := t_iplhigh_count x + 1\<rparr>) s5"
  let ?s7 = "?s6\<lparr>t_entry := (t_entry ?s6)(?t := Some e)\<rparr>"
  have "t_cpu (threads ?s7 ?t) = Some c" by (simp add: s5_def s4_def upd_proc_def)
  from make_runnable_total [OF this] obtain u where "thread_make_runnable ?t False ?s7 = Ret u" by blast
  then have "thread_fork name (Some p) e s = Ret (None, u)"
    using p5 t3(1) by (simp add: thread_fork_def c k Let_def s3_def [symmetric] s4_def [symmetric])
  then show ?thesis by (rule exI)
qed

end
