(* ===== verification/Loadelf.thy ===== *)
theory Loadelf
  imports Addrspace
begin

text \<open>
  The ELF loader (\<open>kern/syscall/loadelf.c\<close>, built with \<open>OPT_PAGING\<close>): \<open>load_elf\<close> reads the headers
  and defines the regions, \<open>load_elf_ondemand\<close> reads one page when it is first touched. The
  layout of the header structures is that of \<open>elf.h\<close>, outside the repository: their sizes and the
  functions that read them from bytes are parameters.
\<close>

section \<open>ELF headers\<close>

record Elf_Ehdr =
  e_ident :: "byte list"
  e_type :: w32
  e_machine :: w32
  e_version :: w32
  e_entry :: vaddr_t
  e_phoff :: w32
  e_phentsize :: w32
  e_phnum :: nat

record Elf_Phdr =
  p_type :: w32
  p_offset :: w32
  p_vaddr :: vaddr_t
  p_filesz :: w32
  p_memsz :: w32
  p_flags :: w32

record ('h, 'd, 'b) elf_ops = "('h, 'd, 'b) vm_ops" +
  sizeof_ehdr :: nat
  ehdr_of :: "byte list \<Rightarrow> Elf_Ehdr"
  sizeof_phdr :: nat
  phdr_of :: "byte list \<Rightarrow> Elf_Phdr"

text \<open>The constants of the ELF format the check compares with.\<close>

definition elf_magic :: "byte list" where
  "elf_magic = [0x7F, 0x45, 0x4C, 0x46, 1, 2, 1]"

definition PT_NULL :: w32 where "PT_NULL = 0"
definition PT_LOAD :: w32 where "PT_LOAD = 1"
definition PT_PHDR :: w32 where "PT_PHDR = 6"
definition PT_MIPS_REGINFO :: w32 where "PT_MIPS_REGINFO = 0x70000000"
definition EV_CURRENT :: w32 where "EV_CURRENT = 1"
definition ET_EXEC :: w32 where "ET_EXEC = 2"
definition EM_MACHINE :: w32 where "EM_MACHINE = 8"

text \<open>
  \<open>e_ident[EI_MAG0..EI_MAG3]\<close>, \<open>EI_CLASS\<close>, \<open>EI_DATA\<close> and \<open>EI_VERSION\<close> are the first seven bytes.
\<close>

definition elf_header_ok :: "Elf_Ehdr \<Rightarrow> bool" where
  "elf_header_ok eh \<longleftrightarrow>
     take 7 (e_ident eh) = elf_magic \<and> e_version eh = EV_CURRENT \<and> e_type eh = ET_EXEC \<and>
     e_machine eh = EM_MACHINE"

section \<open>Operations\<close>

text \<open>A header read with \<open>VOP_READ\<close>: an error, a short read, or the bytes.\<close>

definition read_header ::
  "('h, 'd, 'b, 'x) elf_ops_scheme \<Rightarrow> nat \<Rightarrow> int \<Rightarrow> nat \<Rightarrow> ('h, 'd, 'b, 'a) core_st_scheme \<Rightarrow>
     errno + byte list" where
  "read_header E v off n s =
     (let (result, bs) = vop_read E v off n (disk s) in
      case result of
        Some e \<Rightarrow> Inl e
      | None \<Rightarrow> if length bs \<noteq> n then Inl ENOEXEC else Inr bs)"

fun load_phdrs ::
  "('h, 'd, 'b, 'x) elf_ops_scheme \<Rightarrow> nat \<Rightarrow> Elf_Ehdr \<Rightarrow> nat \<Rightarrow> nat \<Rightarrow> nat \<Rightarrow>
     ('h, 'd, 'b, 'a) core_st_scheme \<Rightarrow> kerr \<times> ('h, 'd, 'b, 'a) core_st_scheme" where
  "load_phdrs E v eh a i 0 s = (None, s)"
| "load_phdrs E v eh a i (Suc n) s =
     (case read_header E v (uint (e_phoff eh + of_nat i * e_phentsize eh)) (sizeof_phdr E) s of
        Inl e \<Rightarrow> (Some e, s)
      | Inr bs \<Rightarrow>
          let ph = phdr_of E bs in
          if p_type ph \<in> {PT_NULL, PT_PHDR, PT_MIPS_REGINFO} then load_phdrs E v eh a (Suc i) n s
          else if p_type ph \<noteq> PT_LOAD then (Some ENOEXEC, s)
          else
            let (result, s1) = as_define_region a (p_vaddr ph) (p_memsz ph) (p_filesz ph)
                  (p_flags ph AND PF_R) (p_flags ph AND PF_W) (p_flags ph AND PF_X)
                  (uint (p_offset ph)) s
            in if result \<noteq> None then (result, s1) else load_phdrs E v eh a (Suc i) n s1)"

definition load_elf ::
  "('h, 'd, 'b, 'x) elf_ops_scheme \<Rightarrow> nat \<Rightarrow> ('h, 'd, 'b, 'a) core_st_scheme \<Rightarrow>
     (kerr \<times> vaddr_t option \<times> ('h, 'd, 'b, 'a) core_st_scheme) kres" where
  "load_elf E v s =
     (case read_header E v 0 (sizeof_ehdr E) s of
        Inl e \<Rightarrow> Ret (Some e, None, s)
      | Inr bs \<Rightarrow>
          let eh = ehdr_of E bs in
          if \<not> elf_header_ok eh then Ret (Some ENOEXEC, None, s) else
          (case proc_getas s of
             None \<Rightarrow> Undef
           | Some a \<Rightarrow>
               let (result, s1) = load_phdrs E v eh a 0 (e_phnum eh) s in
               if result \<noteq> None then Ret (result, None, s1) else
               kbind (as_prepare_load E a s1) (\<lambda>(result, s2).
               if result \<noteq> None then Ret (result, None, s2)
               else Ret (None, Some (e_entry eh), s2))))"

definition load_elf_ondemand ::
  "('h, 'd, 'b, 'x) os_ops_scheme \<Rightarrow> segment_t \<Rightarrow> paddr_t \<Rightarrow> vaddr_t \<Rightarrow>
     ('h, 'd, 'b, 'a) core_st_scheme \<Rightarrow> (kerr \<times> ('h, 'd, 'b, 'a) core_st_scheme) kres" where
  "load_elf_ondemand E seg paddr vaddr s =
     (case proc_getas s of
        None \<Rightarrow> Undef
      | Some a \<Rightarrow>
          let vpn = vaddr AND PAGE_FRAME;
              amt = (vpn - seg_start seg) AND PAGE_FRAME;
              filesize = (if seg_filesize seg < amt then 0
                          else if seg_filesize seg - amt > PAGE_SIZE then PAGE_SIZE
                          else seg_filesize seg - amt);
              memsize = (if seg_size seg - amt > PAGE_SIZE then PAGE_SIZE else seg_size seg - amt);
              (memsize, filesize, paddr) =
                (if amt = 0
                 then (memsize - initoffset seg, memsize - initoffset seg, paddr + initoffset seg)
                 else (memsize, filesize, paddr));
              offset = seg_offset seg + uint amt
          in Ret (load_segment E (as_v (aspaces s a)) offset paddr memsize filesize s))"

end
