(* ===== verification/Vm_Fault.thy ===== *)
theory Vm_Fault
  imports Loadelf
begin

text \<open>
  The page fault handler \<open>vm_fault\<close> of \<open>kern/vm/addrspace.c\<close>: the search for the segment and the
  page table entry of the address, the load of the page from the swap file or the executable, or
  as a page of zeros, and the load of the TLB.
\<close>

section \<open>The handler\<close>

datatype fault_type = VM_FAULT_READ | VM_FAULT_WRITE | VM_FAULT_READONLY | Other_fault int

text \<open>
  The walk along the segments: the number of pages before the segment found, that segment, and
  whether it is the last one (\<open>seg->next == NULL\<close>). An empty list is a null dereference.
\<close>

fun seg_search :: "vaddr_t \<Rightarrow> w32 \<Rightarrow> segment_t list \<Rightarrow> (w32 \<times> segment_t \<times> bool) option" where
  "seg_search fa np [] = None"
| "seg_search fa np [seg] = Some (np, seg, True)"
| "seg_search fa np (seg # nxt # rest) =
     (if fa < seg_start nxt then Some (np, seg, False)
      else seg_search fa (np + seg_npages seg) (nxt # rest))"

text \<open>
  The search \<open>for (i = np; i < np + seg->npages; i++)\<close> in the page table. Were \<open>np + npages\<close> to wrap
  around, the loop would not run and \<open>i\<close> would differ from that sum.
\<close>

definition page_search :: "vaddr_t \<Rightarrow> w32 \<Rightarrow> w32 \<Rightarrow> pt_entry list \<Rightarrow> nat option kres" where
  "page_search fa np n pt =
     (if np + n < np then (if length pt \<le> unat np then Undef else Ret (Some (unat np)))
      else pt_search (\<lambda>e. pte_vaddr e = fa) (unat np) (unat (np + n) - unat np) pt)"

text \<open>The part of the handler that brings page \<open>i\<close> into memory, with the page table lock held.\<close>

definition fault_in ::
  "('h, 'd, 'b, 'x) os_ops_scheme \<Rightarrow> nat \<Rightarrow> nat \<Rightarrow> segment_t \<Rightarrow> bool \<Rightarrow> vaddr_t \<Rightarrow>
     ('h, 'd, 'b, 'a) core_st_scheme \<Rightarrow> ('h, 'd, 'b, 'a) core_st_scheme kres" where
  "fault_in E a i seg is_last fa s =
     (if in_swap (pte s a i) then
        kbind (release_pt a s) (\<lambda>s1.
        kbind (getPages E 1 fa (Some a) s1) (\<lambda>(new_paddr, s2).
        kbind (acquire_pt a s2) (\<lambda>s3.
        kbind (swap_in E (pte_paddr (pte s3 a i)) new_paddr True s3) (\<lambda>(result, p, s4).
        let s5 = upd_pte a i (\<lambda>e. e\<lparr>pte_paddr := p, in_swap := False\<rparr>) s4 in
        kbind (vm_stats_inc SWAP_READ s5) (\<lambda>s6.
        vm_stats_inc PAGE_FAULT_DISK s6)))))
      else
        kbind (if pte_paddr (pte s a i) = 0 then
                 kbind (release_pt a s) (\<lambda>s1.
                 kbind (getPages E 1 fa (Some a) s1) (\<lambda>(p, s2).
                 acquire_pt a (upd_pte a i (\<lambda>e. e\<lparr>pte_paddr := p\<rparr>) s2)))
               else Ret s) (\<lambda>s3.
        if \<not> is_last then
          kbind (load_elf_ondemand E seg (pte_paddr (pte s3 a i)) fa s3) (\<lambda>(result, s4).
          kbind (vm_stats_inc ELF_READ s4) (\<lambda>s5.
          vm_stats_inc PAGE_FAULT_DISK s5))
        else
          vm_stats_inc PAGE_FAULT_ZEROED
            (s3\<lparr>physmem := bzero (pte_paddr (pte s3 a i)) 4096 (physmem s3)\<rparr>)))"

definition vm_fault ::
  "('h, 'd, 'b, 'x) os_ops_scheme \<Rightarrow> fault_type \<Rightarrow> vaddr_t \<Rightarrow> ('h, 'd, 'b, 'a) core_st_scheme \<Rightarrow>
     (kerr \<times> ('h, 'd, 'b, 'a) core_st_scheme) kres" where
  "vm_fault E faulttype faultaddress s =
     kbind (vm_stats_inc TLB_FAULT s) (\<lambda>s1.
     let fa = faultaddress AND PAGE_FRAME in
     if curproc s1 = None then Ret (Some EFAULT, s1) else
     case proc_getas s1 of
       None \<Rightarrow> Ret (Some EFAULT, s1)
     | Some a \<Rightarrow>
         (case seg_search fa 0 (as_segment (aspaces s1 a)) of
            None \<Rightarrow> Undef
          | Some (np, seg, is_last) \<Rightarrow>
              kbind (acquire_pt a s1) (\<lambda>s2.
              kbind (page_search fa np (seg_npages seg) (as_ptab (aspaces s2 a))) (\<lambda>found.
              case found of
                None \<Rightarrow> kbind (release_pt a s2) (\<lambda>_. Panic ''pt not initialized!'')
              | Some i \<Rightarrow>
                  (case faulttype of
                     VM_FAULT_READONLY \<Rightarrow>
                       kbind (release_pt a s2) (\<lambda>_. Panic ''vm: got VM_FAULT_READONLY'')
                   | Other_fault k \<Rightarrow> kbind (release_pt a s2) (\<lambda>s3. Ret (Some EINVAL, s3))
                   | _ \<Rightarrow>
                       kbind (if \<not> in_mem (pte s2 a i)
                              then kbind (fault_in E a i seg is_last fa s2)
                                     (\<lambda>s3. Ret (upd_pte a i (\<lambda>e. e\<lparr>in_mem := True\<rparr>) s3))
                              else vm_stats_inc TLB_RELOAD s2) (\<lambda>s4.
                       kbind (tlb_loadentry E fa (pte_paddr (pte s4 a i))
                               (pte_rwx (pte s4 a i) AND 2 = 0) s4) (\<lambda>(result, s5).
                       kbind (release_pt a s5) (\<lambda>s6. Ret (result, s6)))))))))"

end
