(* ===== verification/Vm_Inv.thy ===== *)
theory Vm_Inv
  imports Vm_Fault
begin

text \<open>
  The invariant of the VM system: the page tables, the map of frames, the swap slots and the TLB
  agree on where every page is. The first sections state the parts of the invariant over page
  tables, owners and slots alone and show how a page that leaves or enters memory changes them;
  the state of the kernel comes in afterwards.
\<close>

lemma nth_upd: "k < length xs \<Longrightarrow> xs[j := e] ! k = (if k = j then e else xs ! k)"
  by simp

section \<open>Who owns which frame\<close>

text \<open>
  \<open>mm_ok fr N own pt A H\<close>: the page tables \<open>pt\<close> of the address spaces \<open>A\<close> and the owners \<open>own\<close> of
  the \<open>N\<close> frames agree. Every resident page is in a frame of its address space, no two pages
  share one, and every owned frame holds a page. \<open>H\<close> are frames that are allocated but not yet,
  or no longer, in a page table. \<open>fr\<close> gives the address of a frame.
\<close>

definition mm_ok ::
  "(nat \<Rightarrow> paddr_t) \<Rightarrow> nat \<Rightarrow> (nat \<Rightarrow> nat option) \<Rightarrow> (nat \<Rightarrow> pt_entry list) \<Rightarrow> nat set \<Rightarrow> nat set \<Rightarrow> bool" where
  "mm_ok fr N own pt A H \<longleftrightarrow>
     (\<forall>a\<in>A. \<forall>j<length (pt a). in_mem (pt a ! j) \<longrightarrow>
        (\<exists>i<N. i \<notin> H \<and> own i = Some a \<and> pte_paddr (pt a ! j) = fr i)) \<and>
     (\<forall>a\<in>A. \<forall>j<length (pt a). \<forall>k<length (pt a). in_mem (pt a ! j) \<longrightarrow> in_mem (pt a ! k) \<longrightarrow>
        pte_paddr (pt a ! j) = pte_paddr (pt a ! k) \<longrightarrow> j = k) \<and>
     (\<forall>i<N. \<forall>a. own i = Some a \<longrightarrow> a \<in> A \<and>
        (i \<notin> H \<longrightarrow> (\<exists>j<length (pt a). in_mem (pt a ! j) \<and> pte_paddr (pt a ! j) = fr i)))"

lemma mm_resident:
  assumes "mm_ok fr N own pt A H" "a \<in> A" "j < length (pt a)" "in_mem (pt a ! j)"
  shows "\<exists>i<N. i \<notin> H \<and> own i = Some a \<and> pte_paddr (pt a ! j) = fr i"
  using assms unfolding mm_ok_def by blast

lemma mm_unique:
  assumes "mm_ok fr N own pt A H" "a \<in> A" "j < length (pt a)" "k < length (pt a)"
    "in_mem (pt a ! j)" "in_mem (pt a ! k)" "pte_paddr (pt a ! j) = pte_paddr (pt a ! k)"
  shows "j = k"
  using assms unfolding mm_ok_def by blast

lemma mm_owned:
  assumes "mm_ok fr N own pt A H" "i < N" "own i = Some a"
  shows "a \<in> A" "i \<notin> H \<Longrightarrow> \<exists>j<length (pt a). in_mem (pt a ! j) \<and> pte_paddr (pt a ! j) = fr i"
  using assms unfolding mm_ok_def by blast+

text \<open>A page leaves its frame.\<close>

lemma mm_evict:
  assumes mm: "mm_ok fr N own pt A H" and inj: "inj_on fr {..<N}"
    and a: "a \<in> A" "j < length (pt a)" "in_mem (pt a ! j)" "pte_paddr (pt a ! j) = fr i" "i < N"
    and e: "\<not> in_mem e"
  shows "mm_ok fr N own (pt(a := (pt a)[j := e])) A (insert i H)"
proof -
  let ?pt = "pt(a := (pt a)[j := e])"
  obtain i0 where "i0 < N" "own i0 = Some a" "fr i0 = fr i"
    using mm_resident [OF mm a(1-3)] a(4) by auto
  then have own: "own i = Some a" using inj a(5) by (auto simp: inj_on_def)
  have mem: "in_mem (?pt b ! k) \<Longrightarrow> k < length (?pt b) \<Longrightarrow>
      in_mem (pt b ! k) \<and> ?pt b ! k = pt b ! k \<and> (b = a \<longrightarrow> k \<noteq> j)" for b k
    using e by (auto simp: nth_upd split: if_splits)
  show ?thesis
    unfolding mm_ok_def
  proof (intro conjI ballI allI impI)
    fix b k assume b: "b \<in> A" "k < length (?pt b)" "in_mem (?pt b ! k)"
    note m = mem [OF b(3,2)]
    have k: "k < length (pt b)" using b(2) by (simp split: if_splits)
    then obtain i' where i': "i' < N" "i' \<notin> H" "own i' = Some b" "pte_paddr (pt b ! k) = fr i'"
      using mm_resident [OF mm b(1)] m by blast
    have "i' \<noteq> i"
      using i' m own mm_unique [OF mm a(1), of k j] a k by auto
    with i' m show "\<exists>i'<N. i' \<notin> insert i H \<and> own i' = Some b \<and> pte_paddr (?pt b ! k) = fr i'" by auto
  next
    fix b k l assume b: "b \<in> A" "k < length (?pt b)" "l < length (?pt b)" "in_mem (?pt b ! k)"
      "in_mem (?pt b ! l)" "pte_paddr (?pt b ! k) = pte_paddr (?pt b ! l)"
    have "k < length (pt b)" "l < length (pt b)" using b(2,3) by (simp_all split: if_splits)
    with b(6) mem [OF b(4,2)] mem [OF b(5,3)] show "k = l"
      by (intro mm_unique [OF mm b(1)]) (simp_all only:)
  next
    fix i' b assume i': "i' < N" "own i' = Some b"
    show "b \<in> A" using mm_owned(1) [OF mm i'] .
    assume "i' \<notin> insert i H"
    then obtain k where k: "k < length (pt b)" "in_mem (pt b ! k)" "pte_paddr (pt b ! k) = fr i'"
      using mm_owned(2) [OF mm i'] by auto
    have "b = a \<longrightarrow> k \<noteq> j" using k a \<open>i' \<notin> insert i H\<close> inj i'(1) by (auto simp: inj_on_def)
    with k show "\<exists>k<length (?pt b). in_mem (?pt b ! k) \<and> pte_paddr (?pt b ! k) = fr i'"
      by (intro exI [of _ k]) auto
  qed
qed

text \<open>A free frame gets an owner, or a frame that holds no page changes nothing.\<close>

lemma mm_alloc:
  assumes "mm_ok fr N own pt A H" "own i = None" "a \<in> A"
  shows "mm_ok fr N (own(i := Some a)) pt A (insert i H)"
proof -
  note mm = assms(1)
  show ?thesis
    unfolding mm_ok_def
  proof (intro conjI ballI allI impI)
    fix b k assume "b \<in> A" "k < length (pt b)" "in_mem (pt b ! k)"
    from mm_resident [OF mm this] obtain i' where
      i': "i' < N" "i' \<notin> H" "own i' = Some b" "pte_paddr (pt b ! k) = fr i'" by blast
    then have "i' \<noteq> i" using assms(2) by auto
    with i' show "\<exists>i'<N. i' \<notin> insert i H \<and> (own(i := Some a)) i' = Some b \<and> pte_paddr (pt b ! k) = fr i'"
      by (intro exI [of _ i']) simp
  next
    fix b k l assume "b \<in> A" "k < length (pt b)" "l < length (pt b)" "in_mem (pt b ! k)"
      "in_mem (pt b ! l)" "pte_paddr (pt b ! k) = pte_paddr (pt b ! l)"
    then show "k = l" by (rule mm_unique [OF mm])
  next
    fix i' b assume i': "i' < N" "(own(i := Some a)) i' = Some b"
    show "b \<in> A" using i' assms(3) mm_owned(1) [OF mm i'(1)] by (auto split: if_splits)
    assume "i' \<notin> insert i H"
    with i' show "\<exists>j<length (pt b). in_mem (pt b ! j) \<and> pte_paddr (pt b ! j) = fr i'"
      using mm_owned(2) [OF mm i'(1)] by simp
  qed
qed

text \<open>A page enters a frame that holds none.\<close>

lemma mm_fill:
  assumes mm: "mm_ok fr N own pt A H" and inj: "inj_on fr {..<N}"
    and i: "i \<in> H" "i < N" "own i = Some a"
    and j: "j < length (pt a)" "\<not> in_mem (pt a ! j)" and e: "in_mem e" "pte_paddr e = fr i"
  shows "mm_ok fr N own (pt(a := (pt a)[j := e])) A (H - {i})"
proof -
  let ?pt = "pt(a := (pt a)[j := e])"
  have old: "in_mem (?pt b ! k) \<Longrightarrow> k < length (?pt b) \<Longrightarrow> \<not> (b = a \<and> k = j) \<Longrightarrow>
      in_mem (pt b ! k) \<and> ?pt b ! k = pt b ! k \<and> k < length (pt b)" for b k
    by (auto simp: nth_upd split: if_splits)
  have new: "?pt a ! j = e" using j by simp
  have ne: "pte_paddr (pt a ! k) \<noteq> fr i" if "k < length (pt a)" "in_mem (pt a ! k)" for k
  proof -
    have "\<exists>i'<N. i' \<notin> H \<and> own i' = Some a \<and> pte_paddr (pt a ! k) = fr i'"
      using mm_resident [OF mm mm_owned(1) [OF mm i(2,3)] that] .
    then obtain i' where "i' < N" "i' \<notin> H" "pte_paddr (pt a ! k) = fr i'" by blast
    then show ?thesis using inj_onD [OF inj, of i' i] i by auto
  qed
  show ?thesis
    unfolding mm_ok_def
  proof (intro conjI ballI allI impI)
    fix b k assume b: "b \<in> A" "k < length (?pt b)" "in_mem (?pt b ! k)"
    show "\<exists>i'<N. i' \<notin> H - {i} \<and> own i' = Some b \<and> pte_paddr (?pt b ! k) = fr i'"
    proof (cases "b = a \<and> k = j")
      case True
      with new e i show ?thesis by auto
    next
      case False
      note o = old [OF b(3,2) False]
      then obtain i' where "i' < N" "i' \<notin> H" "own i' = Some b" "pte_paddr (pt b ! k) = fr i'"
        using mm_resident [OF mm b(1)] by blast
      with o show ?thesis by auto
    qed
  next
    fix b k l assume b: "b \<in> A" "k < length (?pt b)" "l < length (?pt b)" "in_mem (?pt b ! k)"
      "in_mem (?pt b ! l)" "pte_paddr (?pt b ! k) = pte_paddr (?pt b ! l)"
    show "k = l"
    proof (cases "b = a \<and> (k = j \<or> l = j)")
      case True
      then show ?thesis using b new e ne old [OF b(4,2)] old [OF b(5,3)] by metis
    next
      case False
      then show ?thesis
        using b old [OF b(4,2)] old [OF b(5,3)] mm_unique [OF mm b(1), of k l] by auto
    qed
  next
    fix i' b assume i': "i' < N" "own i' = Some b"
    show "b \<in> A" using mm_owned(1) [OF mm i'] .
    assume ni: "i' \<notin> H - {i}"
    show "\<exists>k<length (?pt b). in_mem (?pt b ! k) \<and> pte_paddr (?pt b ! k) = fr i'"
    proof (cases "i' = i")
      case True
      with i' i have "b = a" by simp
      with True new e j show ?thesis by (intro exI [of _ j]) simp
    next
      case False
      with ni obtain k where k: "k < length (pt b)" "in_mem (pt b ! k)" "pte_paddr (pt b ! k) = fr i'"
        using mm_owned(2) [OF mm i'] by auto
      with j have "\<not> (b = a \<and> k = j)" by auto
      with k show ?thesis by (intro exI [of _ k]) auto
    qed
  qed
qed

section \<open>Which page is in which swap slot\<close>

definition sw_ok :: "nat set \<Rightarrow> (nat \<Rightarrow> pt_entry list) \<Rightarrow> nat set \<Rightarrow> bool" where
  "sw_ok S pt A \<longleftrightarrow>
     (\<forall>a\<in>A. \<forall>j<length (pt a). in_swap (pt a ! j) \<longrightarrow> unat (pte_paddr (pt a ! j)) \<in> S) \<and>
     (\<forall>a\<in>A. \<forall>b\<in>A. \<forall>j<length (pt a). \<forall>k<length (pt b). in_swap (pt a ! j) \<longrightarrow> in_swap (pt b ! k) \<longrightarrow>
        pte_paddr (pt a ! j) = pte_paddr (pt b ! k) \<longrightarrow> a = b \<and> j = k) \<and>
     (\<forall>x\<in>S. \<exists>a\<in>A. \<exists>j<length (pt a). in_swap (pt a ! j) \<and> unat (pte_paddr (pt a ! j)) = x)"

lemma sw_used:
  "sw_ok S pt A \<Longrightarrow> a \<in> A \<Longrightarrow> j < length (pt a) \<Longrightarrow> in_swap (pt a ! j) \<Longrightarrow> unat (pte_paddr (pt a ! j)) \<in> S"
  unfolding sw_ok_def by blast

lemma sw_unique:
  assumes "sw_ok S pt A" "a \<in> A" "b \<in> A" "j < length (pt a)" "k < length (pt b)"
    "in_swap (pt a ! j)" "in_swap (pt b ! k)" "pte_paddr (pt a ! j) = pte_paddr (pt b ! k)"
  shows "a = b \<and> j = k"
  using assms unfolding sw_ok_def by blast

lemma sw_needed:
  "sw_ok S pt A \<Longrightarrow> x \<in> S \<Longrightarrow>
     \<exists>a\<in>A. \<exists>j<length (pt a). in_swap (pt a ! j) \<and> unat (pte_paddr (pt a ! j)) = x"
  unfolding sw_ok_def by blast

text \<open>
  One rule for the three changes of an entry: \<open>old\<close> is the slot it gives up and \<open>new\<close> the slot it
  takes.
\<close>

lemma sw_change:
  assumes sw: "sw_ok S pt A" and a: "a \<in> A" "j < length (pt a)"
    and old: "old = (if in_swap (pt a ! j) then {unat (pte_paddr (pt a ! j))} else {})"
    and new: "new = (if in_swap e then {unat (pte_paddr e)} else {})" "new \<inter> S = {}"
  shows "sw_ok (S - old \<union> new) (pt(a := (pt a)[j := e])) A"
proof -
  let ?pt = "pt(a := (pt a)[j := e])"
  have len: "length (?pt b) = length (pt b)" for b by simp
  have here: "?pt a ! j = e" using a(2) by simp
  have other: "?pt b ! k = pt b ! k" if "k < length (pt b)" "\<not> (b = a \<and> k = j)" for b k
    using that by (auto simp: nth_upd)
  have notold: "unat (pte_paddr (pt b ! k)) \<notin> old"
    if "b \<in> A" "k < length (pt b)" "in_swap (pt b ! k)" "\<not> (b = a \<and> k = j)" for b k
    using sw_unique [OF sw that(1) a(1) that(2) a(2) that(3)] that(4) old
    by (auto split: if_splits dest: unsigned_word_eqI)
  show ?thesis
    unfolding sw_ok_def len
  proof (intro conjI ballI allI impI)
    fix b k assume b: "b \<in> A" "k < length (pt b)" "in_swap (?pt b ! k)"
    show "unat (pte_paddr (?pt b ! k)) \<in> S - old \<union> new"
    proof (cases "b = a \<and> k = j")
      case True
      with b here new show ?thesis by simp
    next
      case False
      with b other [OF b(2) False] notold [OF b(1,2) _ False] sw_used [OF sw b(1,2)] show ?thesis by simp
    qed
  next
    fix b c k l assume b: "b \<in> A" "c \<in> A" "k < length (pt b)" "l < length (pt c)"
      "in_swap (?pt b ! k)" "in_swap (?pt c ! l)" "pte_paddr (?pt b ! k) = pte_paddr (?pt c ! l)"
    have fresh: "unat (pte_paddr e) \<noteq> unat (pte_paddr (pt d ! m))"
      if "in_swap e" "d \<in> A" "m < length (pt d)" "in_swap (pt d ! m)" for d m
      using that new sw_used [OF sw that(2-4)] by auto
    have "b = c \<and> k = l"
    proof (cases "(b = a \<and> k = j) \<or> (c = a \<and> l = j)")
      case True
      then show ?thesis
        using b here other [OF b(3)] other [OF b(4)] fresh by metis
    next
      case False
      then show ?thesis
        using b other [OF b(3)] other [OF b(4)] sw_unique [OF sw b(1-4)] by metis
    qed
    then show "b = c" "k = l" by simp_all
  next
    fix x assume "x \<in> S - old \<union> new"
    then show "\<exists>b\<in>A. \<exists>k<length (pt b). in_swap (?pt b ! k) \<and> unat (pte_paddr (?pt b ! k)) = x"
    proof
      assume "x \<in> new"
      then have "in_swap e" "unat (pte_paddr e) = x" using new(1) by (auto split: if_splits)
      with a here show ?thesis by (intro bexI [of _ a] exI [of _ j]) simp_all
    next
      assume x: "x \<in> S - old"
      then obtain b k where b: "b \<in> A" "k < length (pt b)" "in_swap (pt b ! k)" "unat (pte_paddr (pt b ! k)) = x"
        using sw_needed [OF sw] by blast
      have "\<not> (b = a \<and> k = j)" using x b old by auto
      with b other [OF b(2)] show ?thesis by metis
    qed
  qed
qed

section \<open>What the TLB may hold\<close>

definition coherent :: "(vaddr_t \<rightharpoonup> w32) \<Rightarrow> pt_entry list \<Rightarrow> bool" where
  "coherent look pt \<longleftrightarrow> (\<forall>va lo. look va = Some lo \<longrightarrow>
     (\<exists>j<length pt. pte_vaddr (pt ! j) = va \<and> in_mem (pt ! j) \<and>
        lo = tlb_entrylo (pte_paddr (pt ! j)) (pte_rwx (pt ! j) AND 2 = 0)))"

lemma coherent_empty [simp]: "coherent Map.empty pt"
  by (simp add: coherent_def)

lemma coherent_mono:
  "coherent look pt \<Longrightarrow> (\<And>va lo. look' va = Some lo \<Longrightarrow> look va = Some lo) \<Longrightarrow> coherent look' pt"
  unfolding coherent_def by blast

text \<open>An entry may change if its page is dropped from the TLB, or was not in memory.\<close>

lemma coherent_change:
  assumes "coherent look pt" "j < length pt" "pte_vaddr e = pte_vaddr (pt ! j)"
  shows "coherent (look(pte_vaddr e := None)) (pt[j := e])"
    and "\<not> in_mem (pt ! j) \<Longrightarrow> coherent look (pt[j := e])"
proof -
  have keep: "\<exists>k<length (pt[j := e]). pte_vaddr (pt[j := e] ! k) = va \<and> in_mem (pt[j := e] ! k) \<and>
      lo = tlb_entrylo (pte_paddr (pt[j := e] ! k)) (pte_rwx (pt[j := e] ! k) AND 2 = 0)"
    if "look va = Some lo" "\<And>k. k < length pt \<Longrightarrow> pte_vaddr (pt ! k) = va \<Longrightarrow> in_mem (pt ! k) \<Longrightarrow> k \<noteq> j"
    for va lo
    using assms(1) that unfolding coherent_def by (metis length_list_update nth_list_update_neq)
  show "coherent (look(pte_vaddr e := None)) (pt[j := e])"
    unfolding coherent_def
  proof (intro allI impI, rule keep)
    fix va lo assume l: "(look(pte_vaddr e := None)) va = Some lo"
    then show "look va = Some lo" by (simp split: if_splits)
    fix k assume "pte_vaddr (pt ! k) = va"
    with l assms(3) show "k \<noteq> j" by (auto split: if_splits)
  qed
  show "coherent look (pt[j := e])" if "\<not> in_mem (pt ! j)"
    unfolding coherent_def using that by (intro allI impI, intro keep) auto
qed

lemma coherent_load:
  assumes "coherent look pt" "j < length pt" "in_mem (pt ! j)"
    and "\<And>va lo. look' va = Some lo \<Longrightarrow> look va = Some lo \<or>
      va = pte_vaddr (pt ! j) \<and> lo = tlb_entrylo (pte_paddr (pt ! j)) (pte_rwx (pt ! j) AND 2 = 0)"
  shows "coherent look' pt"
  unfolding coherent_def
proof (intro allI impI)
  fix va lo assume "look' va = Some lo"
  from assms(4) [OF this] show "\<exists>j<length pt. pte_vaddr (pt ! j) = va \<and> in_mem (pt ! j) \<and>
      lo = tlb_entrylo (pte_paddr (pt ! j)) (pte_rwx (pt ! j) AND 2 = 0)"
    using assms(1-3) unfolding coherent_def by blast
qed

section \<open>Segments\<close>

definition seg_end :: "segment_t \<Rightarrow> nat" where
  "seg_end g = unat (seg_start g) + unat (seg_npages g) * 4096"

definition seg_ok :: "segment_t \<Rightarrow> bool" where
  "seg_ok g \<longleftrightarrow> unat (seg_start g) mod 4096 = 0 \<and> seg_end g \<le> 2 ^ 31 \<and>
     unat (seg_size g) = unat (seg_npages g) * 4096 \<and> unat (initoffset g) < 4096"

text \<open>The segments are in the order of their addresses and do not overlap.\<close>

fun segs_ok :: "segment_t list \<Rightarrow> bool" where
  "segs_ok [] = True"
| "segs_ok [g] = seg_ok g"
| "segs_ok (g # h # rest) \<longleftrightarrow> seg_ok g \<and> seg_end g \<le> unat (seg_start h) \<and> segs_ok (h # rest)"

section \<open>The invariant\<close>

definition ent_ok :: "pt_entry \<Rightarrow> bool" where
  "ent_ok e \<longleftrightarrow> user_page (pte_vaddr e) \<and> \<not> (in_mem e \<and> in_swap e) \<and>
     (\<not> in_mem e \<and> \<not> in_swap e \<longrightarrow> pte_paddr e = 0)"

definition as_ok :: "addrspace \<Rightarrow> bool" where
  "as_ok x \<longleftrightarrow> unat (npages x) = length (as_ptab x) \<and> lock_idle (pt_lock x) \<and>
     (\<forall>e\<in>set (as_ptab x). ent_ok e) \<and> segs_ok (as_segment x) \<and>
     map pte_vaddr (as_ptab x) = map pte_vaddr (pt_of_segments (as_segment x))"

abbreviation owner :: "('h, 'd, 'b, 'a) core_st_scheme \<Rightarrow> nat \<Rightarrow> nat option" where
  "owner s i \<equiv> c_as (coremap s ! i)"

abbreviation ptabs :: "('h, 'd, 'b, 'a) core_st_scheme \<Rightarrow> nat \<Rightarrow> pt_entry list" where
  "ptabs s a \<equiv> as_ptab (aspaces s a)"

text \<open>
  \<open>vm_invH E n A H s\<close>: the state \<open>s\<close> with \<open>n\<close> swap slots and the address spaces \<open>A\<close> is consistent,
  where the frames \<open>H\<close> are allocated and hold no page. \<open>vm_inv\<close> is the case without such frames,
  which is what holds whenever no operation of the VM system is running.
\<close>

definition vm_invH ::
  "('h, 'd, 'b, 'x) os_ops_scheme \<Rightarrow> nat \<Rightarrow> nat set \<Rightarrow> nat set \<Rightarrow> ('h, 'd, 'b, 'a) core_st_scheme \<Rightarrow> bool" where
  "vm_invH E n A H s \<longleftrightarrow>
     tlb_laws E \<and> tlb_wf E s \<and> stats_ok s \<and> can_lock s \<and> swap_inv E n s \<and> core_ok s \<and>
     n \<le> unat (firstpaddr s) \<and> (\<forall>a\<in>A. as_ok (aspaces s a)) \<and>
     mm_ok (frame_addr s) (coremapSize s) (owner s) (ptabs s) A H \<and>
     sw_ok (dom (slot_bytes E s)) (ptabs s) A \<and>
     (\<forall>a\<in>A. proc_getas s = Some a \<longrightarrow> coherent (tlb_lookup E s) (ptabs s a))"

abbreviation vm_inv ::
  "('h, 'd, 'b, 'x) os_ops_scheme \<Rightarrow> nat \<Rightarrow> nat set \<Rightarrow> ('h, 'd, 'b, 'a) core_st_scheme \<Rightarrow> bool" where
  "vm_inv E n A \<equiv> vm_invH E n A {}"

lemma vm_invD:
  assumes "vm_invH E n A H s"
  shows "tlb_laws E" "tlb_wf E s" "stats_ok s" "can_lock s" "swap_inv E n s" "core_ok s"
    "n \<le> unat (firstpaddr s)" "\<And>a. a \<in> A \<Longrightarrow> as_ok (aspaces s a)"
    "mm_ok (frame_addr s) (coremapSize s) (owner s) (ptabs s) A H"
    "sw_ok (dom (slot_bytes E s)) (ptabs s) A"
    "\<And>a. a \<in> A \<Longrightarrow> proc_getas s = Some a \<Longrightarrow> coherent (tlb_lookup E s) (ptabs s a)"
  using assms by (simp_all add: vm_invH_def)

section \<open>What each part of the invariant depends on\<close>

lemma swap_inv_cong:
  assumes "swapFile s = swapFile t" "swapFileSize s = swapFileSize t" "swapMap s = swapMap t"
    "swap_lock s = swap_lock t" "used s = used t" "disk s = disk t" "threads s = threads t"
    "curthread s = curthread t"
  shows "swap_inv E n s = swap_inv E n t" "slot_bytes E s = slot_bytes E t"
  using assms
  by (auto simp: swap_inv_def swap_ok_def swap_slots_def slot_data_def in_interrupt_def slot_bytes_def
      fun_eq_iff)

lemma stats_ok_cong: "counters s = counters t \<Longrightarrow> stats_lock s = stats_lock t \<Longrightarrow> stats_ok s = stats_ok t"
  by (simp add: stats_ok_def)

lemma can_lock_cong:
  "threads s = threads t \<Longrightarrow> curthread s = curthread t \<Longrightarrow> allcpus s = allcpus t \<Longrightarrow>
     curcpu s = curcpu t \<Longrightarrow> curcpu_exists s = curcpu_exists t \<Longrightarrow> can_lock s = can_lock t"
  by (simp add: can_lock_def sched_ok_def cur_cpu_def in_interrupt_def)

lemma proc_getas_cong:
  "threads s = threads t \<Longrightarrow> curthread s = curthread t \<Longrightarrow> procs s = procs t \<Longrightarrow>
     proc_getas s = proc_getas t"
  by (simp add: proc_getas_def curproc_def split: option.split)

lemma tlb_cong:
  assumes "tlb_hw s = tlb_hw t"
  shows "tlb_lookup E s = tlb_lookup E t" "next_victim s = next_victim t \<Longrightarrow> tlb_wf E s = tlb_wf E t"
  using assms by (simp_all add: tlb_lookup_def tlb_wf_def tlb_slot_def fun_eq_iff)

lemma core_ok_cong:
  "coremap s = coremap t \<Longrightarrow> coremapSize s = coremapSize t \<Longrightarrow> firstpaddr s = firstpaddr t \<Longrightarrow>
     coremapActive s = coremapActive t \<Longrightarrow> next_svic s < coremapSize s \<Longrightarrow> core_ok t \<Longrightarrow> core_ok s"
  by (simp add: core_ok_def)

lemma dom_slot_bytes: "dom (slot_bytes E s) = swap_slots E s"
  by (auto simp: slot_bytes_def swap_slots_def split: if_splits)

lemma slot_below_frames:
  assumes "vm_invH E n A H s" "a \<in> A" "j < length (ptabs s a)" "in_swap (pte s a j)"
  shows "unat (pte_paddr (pte s a j)) < unat (firstpaddr s)"
proof -
  have "unat (pte_paddr (pte s a j)) \<in> swap_slots E s"
    using sw_used [OF vm_invD(10) [OF assms(1)] assms(2-4)] by (simp add: dom_slot_bytes)
  then have "unat (pte_paddr (pte s a j)) < n"
    using swap_slot_bound [OF swap_invD(4) [OF vm_invD(5) [OF assms(1)]]] by (simp add: swap_slots_def)
  with vm_invD(7) [OF assms(1)] show ?thesis by linarith
qed

lemma frame_inj_on: "core_ok s \<Longrightarrow> inj_on (frame_addr s) {..<coremapSize s}"
  by (auto simp: inj_on_def frame_addr_inj)

text \<open>The search of the victim's address in the page table finds the page that is in the frame.\<close>

lemma search_frame:
  assumes inv: "vm_invH E n A H s" and a: "a \<in> A" and i: "i < coremapSize s"
    and j: "j < length (ptabs s a)" "in_mem (pte s a j)" "pte_paddr (pte s a j) = frame_addr s i"
  shows "pt_search (\<lambda>e. pte_paddr e = frame_addr s i) 0 (length (ptabs s a)) (ptabs s a) = Ret (Some j)"
proof -
  note D = vm_invD [OF inv]
  have uniq: "k = j" if "k < length (ptabs s a)" "pte_paddr (pte s a k) = frame_addr s i" for k
  proof -
    have ent: "ent_ok (pte s a k)" using D(8) [OF a] that(1) by (simp add: as_ok_def)
    have "in_mem (pte s a k)"
    proof (rule ccontr)
      assume nm: "\<not> in_mem (pte s a k)"
      then consider "in_swap (pte s a k)" | "pte_paddr (pte s a k) = 0"
        using ent by (auto simp: ent_ok_def)
      then show False
      proof cases
        case 1
        have "unat (firstpaddr s) \<le> unat (frame_addr s i)"
          using frame_addr_ge [OF D(6) i] by (simp add: word_le_nat_alt)
        with slot_below_frames [OF inv a that(1) 1] that(2) show ?thesis by simp
      next
        case 2
        with that(2) frame_addr_nonzero [OF D(6) i] show ?thesis by simp
      qed
    qed
    with that j show ?thesis by (intro mm_unique [OF D(9) a]) simp_all
  qed
  have "pte_paddr (pte s a k) \<noteq> frame_addr s i" if "k < j" for k
    using uniq [of k] that j(1) by auto
  with j have "first_idx (\<lambda>k. pte_paddr (pte s a k) = frame_addr s i) 0 (length (ptabs s a)) = Some j"
    by (simp add: first_idx_Some_iff)
  then show ?thesis by (simp add: pt_search_eq)
qed

section \<open>Eviction\<close>

text \<open>The entry of a page that was evicted: in swap slot \<open>p\<close> if it is writable, forgotten otherwise.\<close>

definition evicted :: "pt_entry \<Rightarrow> paddr_t \<Rightarrow> pt_entry" where
  "evicted e p = (if pte_rwx e AND 2 \<noteq> 0 then e\<lparr>pte_paddr := p, in_swap := True, in_mem := False\<rparr>
     else e\<lparr>pte_paddr := 0, in_mem := False\<rparr>)"

lemma tlb_invalidate_vaddr_hw: "\<exists>h. tlb_invalidate_vaddr E va s = s\<lparr>tlb_hw := h\<rparr>"
proof (cases "tlb_probe E (va AND PAGE_FRAME) 0 (tlb_hw s) \<ge> 0")
  case True
  then show ?thesis by (auto simp: tlb_invalidate_vaddr_def Let_def)
next
  case False
  then have "tlb_invalidate_vaddr E va s = s\<lparr>tlb_hw := tlb_hw s\<rparr>"
    by (simp add: tlb_invalidate_vaddr_def Let_def)
  then show ?thesis by blast
qed

lemma set_ptab_twice:
  "upd_pte a j f (upd_pte a j g s) = upd_pte a j (f \<circ> g) s" if "j < length (ptabs s a)"
  using that by (simp add: upd_pte_def upd_as_def)

lemma evict_page_readonly:
  assumes "pt_search (\<lambda>e. pte_paddr e = frame_addr s i) 0 (unat (npages (aspaces s a))) (ptabs s a) = Ret (Some j)"
    and "pte_rwx (pte s a j) AND 2 = 0" "j < length (ptabs s a)"
  shows "evict_page E a i s = Ret (i, tlb_invalidate_vaddr E (pte_vaddr (pte s a j))
      (upd_pte a j (\<lambda>e. evicted e p) s))"
proof -
  have "upd_pte a j (\<lambda>e. e\<lparr>in_mem := False\<rparr>) (upd_pte a j (\<lambda>e. e\<lparr>pte_paddr := 0\<rparr>) s) =
      upd_pte a j (\<lambda>e. evicted e p) s"
    using assms(2,3) by (simp add: upd_pte_def upd_as_def evicted_def)
  moreover have "pte_vaddr (pte (upd_pte a j (\<lambda>e. evicted e p) s) a j) = pte_vaddr (pte s a j)"
    using assms(2,3) by (simp add: upd_pte_def evicted_def)
  ultimately show ?thesis
    using assms(1,2) by (simp add: evict_page_def Let_def)
qed

lemma evict_page_writable:
  assumes "pt_search (\<lambda>e. pte_paddr e = frame_addr s i) 0 (unat (npages (aspaces s a))) (ptabs s a) = Ret (Some j)"
    and "pte_rwx (pte s a j) AND 2 \<noteq> 0" "j < length (ptabs s a)" "stats_ok s"
    and "swap_out E (pte_paddr (pte s a j)) s = Ret (None, p, s\<lparr>swapMap := b, disk := d, used := u\<rparr>)"
  shows "evict_page E a i s = Ret (i, tlb_invalidate_vaddr E (pte_vaddr (pte s a j))
      (bump SWAP_WRITE (upd_pte a j (\<lambda>e. evicted e p) (s\<lparr>swapMap := b, disk := d, used := u\<rparr>))))"
proof -
  let ?s = "s\<lparr>swapMap := b, disk := d, used := u\<rparr>"
  let ?s2 = "upd_pte a j (\<lambda>e. e\<lparr>pte_paddr := p\<rparr>) ?s"
  have "stats_ok ?s2" using assms(4) by (simp add: stats_ok_def upd_pte_def upd_as_def)
  then have inc: "vm_stats_inc SWAP_WRITE ?s2 = Ret (bump SWAP_WRITE ?s2)"
    by (simp add: kern_simps stat_index_defs)
  have "upd_pte a j (\<lambda>e. e\<lparr>in_mem := False\<rparr>)
      (upd_pte a j (\<lambda>e. e\<lparr>in_swap := True\<rparr>) (bump SWAP_WRITE ?s2)) =
      bump SWAP_WRITE (upd_pte a j (\<lambda>e. evicted e p) ?s)"
    using assms(2,3) by (simp add: upd_pte_def upd_as_def evicted_def bump_def)
  moreover have "pte_vaddr (pte (bump SWAP_WRITE (upd_pte a j (\<lambda>e. evicted e p) ?s)) a j) = pte_vaddr (pte s a j)"
    using assms(2,3) by (simp add: upd_pte_def upd_as_def evicted_def bump_def)
  ultimately show ?thesis
    using assms(1,2,5) inc by (simp add: evict_page_def Let_def)
qed

text \<open>
  What the eviction of page \<open>j\<close> of \<open>a\<close> leaves: \<open>same_rest\<close> says that everything outside the page
  tables, the swap file, the TLB and the counters is as before.
\<close>

definition same_rest ::
  "('h, 'd, 'b, 'a) core_st_scheme \<Rightarrow> ('h, 'd, 'b, 'a) core_st_scheme \<Rightarrow> bool" where
  "same_rest s t \<longleftrightarrow>
     threads t = threads s \<and> curthread t = curthread s \<and> allcpus t = allcpus s \<and> curcpu t = curcpu s \<and>
     curcpu_exists t = curcpu_exists s \<and> procs t = procs s \<and> kmem t = kmem s \<and> kheap t = kheap s \<and>
     firstpaddr t = firstpaddr s \<and> coremapSize t = coremapSize s \<and> coremapActive t = coremapActive s \<and>
     (\<forall>b. (aspaces t b)\<lparr>as_ptab := []\<rparr> = (aspaces s b)\<lparr>as_ptab := []\<rparr>) \<and>
     core_st.more t = core_st.more s"

lemma same_rest_refl [simp]: "same_rest s s"
  by (simp add: same_rest_def)

lemma same_rest_trans [trans]: "same_rest s t \<Longrightarrow> same_rest t u \<Longrightarrow> same_rest s u"
  by (simp add: same_rest_def)

lemma same_restD:
  assumes "same_rest s t"
  shows "proc_getas t = proc_getas s" "can_lock t = can_lock s" "frame_addr t = frame_addr s"
    "coremapSize t = coremapSize s" "firstpaddr t = firstpaddr s" "curthread t = curthread s"
    "in_interrupt t = in_interrupt s" "curproc t = curproc s"
    "pt_lock (aspaces t b) = pt_lock (aspaces s b)" "as_segment (aspaces t b) = as_segment (aspaces s b)"
    "npages (aspaces t b) = npages (aspaces s b)" "as_v (aspaces t b) = as_v (aspaces s b)"
    "core_st.more t = core_st.more s"
proof -
  have eq: "(aspaces t b)\<lparr>as_ptab := []\<rparr> = (aspaces s b)\<lparr>as_ptab := []\<rparr>"
    using assms by (simp add: same_rest_def)
  from arg_cong [OF eq, of pt_lock] arg_cong [OF eq, of as_segment] arg_cong [OF eq, of npages]
    arg_cong [OF eq, of as_v]
  show "pt_lock (aspaces t b) = pt_lock (aspaces s b)" "as_segment (aspaces t b) = as_segment (aspaces s b)"
    "npages (aspaces t b) = npages (aspaces s b)" "as_v (aspaces t b) = as_v (aspaces s b)" by simp_all
  show "frame_addr t = frame_addr s" using assms by (simp add: same_rest_def frame_addr_def fun_eq_iff)
  show "proc_getas t = proc_getas s" by (rule proc_getas_cong) (use assms in \<open>simp_all add: same_rest_def\<close>)
  show "can_lock t = can_lock s" by (rule can_lock_cong) (use assms in \<open>simp_all add: same_rest_def\<close>)
qed (use assms in \<open>simp_all add: same_rest_def in_interrupt_def curproc_def\<close>)

section \<open>The contents of the pages\<close>

text \<open>
  \<open>content E s a j\<close>: the bytes of page \<open>j\<close> of address space \<open>a\<close>, wherever they are; \<open>None\<close> for a
  page that would be loaded from the executable or filled with zeros. \<open>pages_kept\<close>: no page has
  changed, except that read-only pages may have been forgotten.
\<close>

definition content ::
  "('h, 'd, 'b, 'x) os_ops_scheme \<Rightarrow> ('h, 'd, 'b, 'a) core_st_scheme \<Rightarrow> nat \<Rightarrow> nat \<Rightarrow> byte list option" where
  "content E s a j =
     (if in_mem (pte s a j) then Some (mem_read (pte_paddr (pte s a j)) 4096 (physmem s))
      else if in_swap (pte s a j) then slot_bytes E s (unat (pte_paddr (pte s a j))) else None)"

definition readonly :: "pt_entry \<Rightarrow> bool" where
  "readonly e \<longleftrightarrow> pte_rwx e AND 2 = 0"

definition pages_kept ::
  "('h, 'd, 'b, 'x) os_ops_scheme \<Rightarrow> (nat \<times> nat) set \<Rightarrow> ('h, 'd, 'b, 'a) core_st_scheme \<Rightarrow>
     ('h, 'd, 'b, 'a) core_st_scheme \<Rightarrow> bool" where
  "pages_kept E Q s t \<longleftrightarrow> (\<forall>(b, k)\<in>Q. content E t b k = content E s b k \<or>
     readonly (pte s b k) \<and> content E t b k = None)"

definition all_pages :: "nat set \<Rightarrow> ('h, 'd, 'b, 'a) core_st_scheme \<Rightarrow> (nat \<times> nat) set" where
  "all_pages A s = {(b, k). b \<in> A \<and> k < length (ptabs s b)}"

lemma evicted_simps [simp]:
  "pte_vaddr (evicted e p) = pte_vaddr e"
  "\<not> in_mem (evicted e p)"
  "pte_rwx (evicted e p) = pte_rwx e"
  by (simp_all add: evicted_def)

lemma as_ok_upd:
  assumes "as_ok x" "y\<lparr>as_ptab := []\<rparr> = x\<lparr>as_ptab := []\<rparr>" "as_ptab y = (as_ptab x)[j := e]"
    "j < length (as_ptab x)" "ent_ok e" "pte_vaddr e = pte_vaddr (as_ptab x ! j)"
  shows "as_ok y"
proof -
  have "npages y = npages x" "pt_lock y = pt_lock x" "as_segment y = as_segment x"
    using arg_cong [OF assms(2), of npages] arg_cong [OF assms(2), of pt_lock]
      arg_cong [OF assms(2), of as_segment] by simp_all
  moreover have "map pte_vaddr (as_ptab y) = map pte_vaddr (as_ptab x)"
    using assms(3,4,6) by (simp add: map_update list_update_same_conv)
  moreover have "\<forall>d\<in>set (as_ptab y). ent_ok d"
    using assms(1,3,5) by (auto simp: as_ok_def dest!: set_update_subset_insert [THEN subsetD])
  ultimately show ?thesis using assms(1,3) by (simp add: as_ok_def)
qed

lemma as_ok_same:
  assumes "as_ok x" "y\<lparr>as_ptab := []\<rparr> = x\<lparr>as_ptab := []\<rparr>" "as_ptab y = as_ptab x"
  shows "as_ok y"
proof -
  have "npages y = npages x" "pt_lock y = pt_lock x" "as_segment y = as_segment x"
    using arg_cong [OF assms(2), of npages] arg_cong [OF assms(2), of pt_lock]
      arg_cong [OF assms(2), of as_segment] by simp_all
  with assms(1,3) show ?thesis by (simp add: as_ok_def)
qed

lemma ent_ok_evicted:
  "ent_ok e \<Longrightarrow> in_mem e \<Longrightarrow> ent_ok (evicted e p)"
  by (auto simp: ent_ok_def evicted_def)

section \<open>Eviction keeps the invariant\<close>

text \<open>
  \<open>evict_step E n A s t a j i p\<close>: from the consistent state \<open>s\<close> to \<open>t\<close>, page \<open>j\<close> of address space \<open>a\<close>
  left frame \<open>i\<close>, for slot \<open>p\<close> if it is writable; nothing else changed.
\<close>

definition evict_step ::
  "('h, 'd, 'b, 'x) os_ops_scheme \<Rightarrow> nat \<Rightarrow> nat set \<Rightarrow> ('h, 'd, 'b, 'a) core_st_scheme \<Rightarrow>
     ('h, 'd, 'b, 'a) core_st_scheme \<Rightarrow> nat \<Rightarrow> nat \<Rightarrow> nat \<Rightarrow> paddr_t \<Rightarrow> bool" where
  "evict_step E n A s t a j i p \<longleftrightarrow>
     vm_inv E n A s \<and> a \<in> A \<and> j < length (ptabs s a) \<and> in_mem (pte s a j) \<and> i < coremapSize s \<and>
     pte_paddr (pte s a j) = frame_addr s i \<and>
     same_rest s t \<and> coremap t = coremap s \<and> physmem t = physmem s \<and> next_svic t < coremapSize t \<and>
     stats_ok t \<and> swap_inv E n t \<and> tlb_wf E t \<and>
     ptabs t = (ptabs s)(a := (ptabs s a)[j := evicted (pte s a j) p]) \<and>
     slot_bytes E t = (if readonly (pte s a j) then slot_bytes E s
        else (slot_bytes E s)(unat p \<mapsto> mem_read (frame_addr s i) 4096 (physmem s))) \<and>
     (readonly (pte s a j) \<or> slot_bytes E s (unat p) = None) \<and>
     tlb_lookup E t = (tlb_lookup E s)(pte_vaddr (pte s a j) := None)"

lemma evict_stepD:
  assumes "evict_step E n A s t a j i p"
  shows "vm_inv E n A s" "a \<in> A" "j < length (ptabs s a)" "in_mem (pte s a j)" "i < coremapSize s"
    "pte_paddr (pte s a j) = frame_addr s i" "same_rest s t" "coremap t = coremap s"
    "physmem t = physmem s" "next_svic t < coremapSize t" "stats_ok t" "swap_inv E n t" "tlb_wf E t"
    "ptabs t = (ptabs s)(a := (ptabs s a)[j := evicted (pte s a j) p])"
    "slot_bytes E t = (if readonly (pte s a j) then slot_bytes E s
        else (slot_bytes E s)(unat p \<mapsto> mem_read (frame_addr s i) 4096 (physmem s)))"
    "readonly (pte s a j) \<or> slot_bytes E s (unat p) = None"
    "tlb_lookup E t = (tlb_lookup E s)(pte_vaddr (pte s a j) := None)"
    "\<And>b. ptabs t b = (if b = a then (ptabs s a)[j := evicted (pte s a j) p] else ptabs s b)"
proof -
  show tabs: "ptabs t = (ptabs s)(a := (ptabs s a)[j := evicted (pte s a j) p])"
    using assms by (simp add: evict_step_def)
  show "ptabs t b = (if b = a then (ptabs s a)[j := evicted (pte s a j) p] else ptabs s b)" for b
    using fun_cong [OF tabs, of b] by simp
qed (insert assms, unfold evict_step_def, elim conjE, assumption)+

lemma evict_old_entry:
  assumes "evict_step E n A s t a j i p"
  shows "ent_ok (pte s a j)" "\<not> in_swap (pte s a j)"
  using vm_invD(8) [OF evict_stepD(1,2) [OF assms]] evict_stepD(3,4) [OF assms]
  by (auto simp: as_ok_def ent_ok_def)

lemma evict_spaces_ok:
  assumes st: "evict_step E n A s t a j i p" and b: "b \<in> A"
  shows "as_ok (aspaces t b)"
proof -
  note D = evict_stepD [OF st]
  have eq: "(aspaces t b)\<lparr>as_ptab := []\<rparr> = (aspaces s b)\<lparr>as_ptab := []\<rparr>"
    using D(7) by (simp add: same_rest_def)
  show ?thesis
  proof (cases "b = a")
    case True
    show ?thesis
      by (rule as_ok_upd [OF vm_invD(8) [OF D(1) b] eq, where j = j and e = "evicted (pte s a j) p"])
         (use True D(3,4) D(18) [of b] evict_old_entry [OF st] in \<open>simp_all add: ent_ok_evicted\<close>)
  next
    case False
    with as_ok_same [OF vm_invD(8) [OF D(1) b] eq] D(18) [of b] show ?thesis by simp
  qed
qed

lemma evict_slots_ok:
  assumes st: "evict_step E n A s t a j i p"
  shows "sw_ok (dom (slot_bytes E t)) (ptabs t) A"
proof -
  note D = evict_stepD [OF st] and old = evict_old_entry [OF st]
  let ?e = "evicted (pte s a j) p"
  let ?new = "if in_swap ?e then {unat (pte_paddr ?e)} else {}"
  have sw: "in_swap ?e \<longleftrightarrow> \<not> readonly (pte s a j)" "\<not> readonly (pte s a j) \<Longrightarrow> pte_paddr ?e = p"
    using old(2) by (simp_all add: evicted_def readonly_def)
  have "?new \<inter> dom (slot_bytes E s) = {}" using D(16) sw by auto
  from sw_change [OF vm_invD(10) [OF D(1)] D(2,3) refl refl this]
  have "sw_ok (dom (slot_bytes E s) \<union> ?new) (ptabs t) A"
    using old(2) by (simp add: D(14))
  moreover have "dom (slot_bytes E s) \<union> ?new = dom (slot_bytes E t)"
    using D(15) sw by auto
  ultimately show ?thesis by simp
qed

lemma evict_coherent:
  assumes st: "evict_step E n A s t a j i p" and cA: "c \<in> A" and "proc_getas t = Some c"
  shows "coherent (tlb_lookup E t) (ptabs t c)"
proof -
  note D = evict_stepD [OF st]
  have c: "proc_getas s = Some c" using assms(3) same_restD(1) [OF D(7)] by simp
  note coh = vm_invD(11) [OF D(1) cA c]
  show "coherent (tlb_lookup E t) (ptabs t c)"
  proof (cases "c = a")
    case True
    have "coherent ((tlb_lookup E s)(pte_vaddr (evicted (pte s a j) p) := None))
        ((ptabs s a)[j := evicted (pte s a j) p])"
      using coh D(3) by (intro coherent_change) (simp_all add: True)
    then show ?thesis by (simp add: True D(17,18))
  next
    case False
    have "coherent (tlb_lookup E t) (ptabs s c)"
      by (rule coherent_mono [OF coh]) (simp add: D(17) split: if_splits)
    with False show ?thesis by (simp add: D(18))
  qed
qed

lemma evict_invariant:
  assumes st: "evict_step E n A s t a j i p"
  shows "vm_invH E n A {i} t"
proof -
  note D = evict_stepD [OF st]
  have "mm_ok (frame_addr s) (coremapSize s) (owner s) (ptabs t) A (insert i {})"
    unfolding D(14)
    by (rule mm_evict [OF vm_invD(9) [OF D(1)] frame_inj_on [OF vm_invD(6) [OF D(1)]] D(2,3,4,6,5)]) simp
  then have "mm_ok (frame_addr t) (coremapSize t) (owner t) (ptabs t) A {i}"
    using same_restD(3,4) [OF D(7)] D(8) by simp
  moreover have "core_ok t"
    using D(7,8,10) vm_invD(6) [OF D(1)] by (intro core_ok_cong [of t s]) (simp_all add: same_rest_def)
  ultimately show ?thesis
    using D(1,7,11-13) same_restD [OF D(7)] evict_spaces_ok [OF st] evict_slots_ok [OF st]
      evict_coherent [OF st]
    by (simp add: vm_invH_def)
qed

lemma evict_kept:
  assumes st: "evict_step E n A s t a j i p"
  shows "pages_kept E (all_pages A s) s t"
proof -
  note D = evict_stepD [OF st] and old = evict_old_entry [OF st]
  have "content E t b k = content E s b k \<or> readonly (pte s b k) \<and> content E t b k = None"
    if b: "b \<in> A" "k < length (ptabs s b)" for b k
  proof (cases "b = a \<and> k = j")
    case True
    then show ?thesis
      using D(3,4,6,15,16) D(18) [of a] old(2) by (auto simp: content_def evicted_def readonly_def)
  next
    case False
    then have same: "pte t b k = pte s b k" using D(18) [of b] b(2) by auto
    show ?thesis
    proof (cases "in_mem (pte s b k) \<or> \<not> in_swap (pte s b k)")
      case True
      with same D(9) show ?thesis by (auto simp: content_def)
    next
      case swapped: False
      then have "unat (pte_paddr (pte s b k)) \<in> dom (slot_bytes E s)"
        using sw_used [OF vm_invD(10) [OF D(1)] b] by simp
      then have "slot_bytes E t (unat (pte_paddr (pte s b k))) = slot_bytes E s (unat (pte_paddr (pte s b k)))"
        using D(15,16) by auto
      with swapped same show ?thesis by (simp add: content_def)
    qed
  qed
  then show ?thesis by (auto simp: pages_kept_def all_pages_def)
qed

section \<open>The allocation of a frame for a page\<close>

lemma evict_finish:
  assumes inv: "vm_inv E n A s" and a: "a \<in> A" "j < length (ptabs s a)" "in_mem (pte s a j)"
    and i: "i < coremapSize s" "pte_paddr (pte s a j) = frame_addr s i"
    and Y: "Y = (pt_locked a s)\<lparr>next_svic := k, swapMap := b, disk := d, used := u, counters := c\<rparr>"
    and k: "k < coremapSize s" "length c = STATS_TOT"
    and sw: "swap_inv E n (s\<lparr>swapMap := b, disk := d, used := u\<rparr>)"
      "slot_bytes E (s\<lparr>swapMap := b, disk := d, used := u\<rparr>) = (if readonly (pte s a j) then slot_bytes E s
        else (slot_bytes E s)(unat p \<mapsto> mem_read (frame_addr s i) 4096 (physmem s)))"
      "readonly (pte s a j) \<or> slot_bytes E s (unat p) = None"
  shows "\<exists>t. release_pt a (tlb_invalidate_vaddr E (pte_vaddr (pte s a j)) (upd_pte a j (\<lambda>e. evicted e p) Y)) = Ret t \<and>
    evict_step E n A s t a j i p \<and> counters t = c"
proof -
  note D = vm_invD [OF inv]
  let ?va = "pte_vaddr (pte s a j)"
  let ?X = "upd_pte a j (\<lambda>e. evicted e p) Y"
  obtain h where h: "tlb_invalidate_vaddr E ?va ?X = ?X\<lparr>tlb_hw := h\<rparr>"
    using tlb_invalidate_vaddr_hw [of E ?va ?X] by (elim exE)
  let ?lk = "pt_lock (aspaces s a)"
  let ?t = "s\<lparr>next_svic := k, swapMap := b, disk := d, used := u, counters := c, tlb_hw := h,
      aspaces := (aspaces s)(a := (aspaces s a)\<lparr>as_ptab := (ptabs s a)[j := evicted (pte s a j) p]\<rparr>)\<rparr>"
  have idle: "lock_idle ?lk" using D(8) [OF a(1)] by (simp add: as_ok_def)
  have "pt_lock (aspaces (?X\<lparr>tlb_hw := h\<rparr>) a) = lock_by (curthread (?X\<lparr>tlb_hw := h\<rparr>)) ?lk"
    by (simp add: Y upd_pte_def upd_as_def pt_locked_def)
  from release_pt_by [OF idle this]
  have rel: "release_pt a (?X\<lparr>tlb_hw := h\<rparr>) = Ret ?t"
    by (simp add: Y upd_pte_def upd_as_def pt_locked_def)
  have user: "user_page ?va" using D(8) [OF a(1)] a(2) by (simp add: as_ok_def ent_ok_def)
  have hwX: "tlb_hw ?X = tlb_hw s" "next_victim ?X = next_victim s"
    by (simp_all add: Y upd_pte_def upd_as_def pt_locked_def)
  then have wfX: "tlb_wf E ?X" and lookX: "tlb_lookup E ?X = tlb_lookup E s"
    using D(2) tlb_cong [OF hwX(1)] by auto
  note tl = tlb_invalidate_vaddr_wf [OF D(1) wfX user, unfolded h]
  have "tlb_wf E ?t"
    using tl(1) tlb_cong(2) [of ?t "?X\<lparr>tlb_hw := h\<rparr>" E] hwX(2) by simp
  moreover have "tlb_lookup E ?t = (tlb_lookup E s)(?va := None)"
    using tl(2) tlb_cong(1) [of ?t "?X\<lparr>tlb_hw := h\<rparr>" E] lookX by simp
  moreover have "swap_inv E n ?t" "slot_bytes E ?t = slot_bytes E (s\<lparr>swapMap := b, disk := d, used := u\<rparr>)"
    using sw(1) swap_inv_cong(1) [of ?t "s\<lparr>swapMap := b, disk := d, used := u\<rparr>" E n]
      swap_inv_cong(2) [of ?t "s\<lparr>swapMap := b, disk := d, used := u\<rparr>" E] by simp_all
  moreover have "stats_ok ?t" using D(3) k(2) by (simp add: stats_ok_def)
  moreover have "same_rest s ?t" by (simp add: same_rest_def)
  moreover have "ptabs ?t = (ptabs s)(a := (ptabs s a)[j := evicted (pte s a j) p])" by auto
  ultimately have "evict_step E n A s ?t a j i p"
    using inv a i k(1) sw(2,3) unfolding evict_step_def by simp
  moreover have "counters ?t = c" by simp
  ultimately show ?thesis using h rel by auto
qed

lemma swap_inv_spinlock [simp]:
  "swap_inv E n (spinlock_acquire s) = swap_inv E n s"
  "swap_ok E n (spinlock_acquire s) = swap_ok E n s"
  by (simp_all add: swap_inv_def swap_ok_def swap_slots_def slot_data_def in_interrupt_def
      spinlock_acquire_def upd_cpu_def)

lemma swap_space_left:
  assumes "swap_ok E n s" "0 < n"
  shows "word_of_int (swapFileSize s - uint (used s)) \<noteq> (0 :: w32)"
proof -
  have b: "uint (used s) \<le> int n" "swapFileSize s = int n * 4096" "n < 65536"
    using swap_ok_used_le [OF assms(1)] assms(1) by (simp_all add: swap_ok_def uint_nat)
  have "0 \<le> uint (used s)" by simp
  then have "0 < swapFileSize s - uint (used s)" "swapFileSize s - uint (used s) < 4294967296"
    using b assms(2) by linarith+
  moreover have "word_of_int x \<noteq> (0 :: w32)" if "0 < x" "x < 4294967296" for x
  proof -
    have "uint (word_of_int x :: w32) = x" using that by (simp add: unsigned_of_int take_bit_int_eq_self)
    with that(1) show ?thesis by auto
  qed
  ultimately show ?thesis by blast
qed

lemma evictable_owner:
  assumes "core_ok s" "i < coremapSize s"
  shows "evictable s (Some a) i \<longleftrightarrow> owner s i = Some a"
proof
  assume o: "owner s i = Some a"
  then have 2: "c_vaddr (coremap s ! i) AND 3 = 2" using core_okD(7) [OF assms] by simp
  have "c_vaddr (coremap s ! i) AND 1 = (c_vaddr (coremap s ! i) AND 3) AND 1" by (simp add: and.assoc)
  with 2 o show "evictable s (Some a) i" by (simp add: evictable_def)
qed (simp add: evictable_def)

lemma bump_upd_pte: "bump c (upd_pte a j f s) = upd_pte a j f (bump c s)"
  by (simp add: bump_def upd_pte_def upd_as_def)

text \<open>With no free frame left, a page of the same address space makes room.\<close>

lemma getPage_evict:
  assumes inv: "vm_inv E n A s" and a: "a \<in> A" and full: "\<forall>i<coremapSize s. \<not> frame_free s i"
    and own: "i0 < coremapSize s" "owner s i0 = Some a"
    and swap: "k0 < n" "\<not> bitmap_isset E (swapMap s) k0" "writes_ok E"
  shows "\<exists>i j p t. getPage E False fa (Some a) s = Ret (frame_addr s i, t) \<and>
    evict_step E n A s t a j i p \<and> owner s i = Some a \<and>
    counters t = (if readonly (pte s a j) then counters s else counters (bump SWAP_WRITE s))"
proof -
  note D = vm_invD [OF inv]
  note sok = swap_invD(4) [OF D(5)] and n0 = swap_invD(3) [OF D(5)]
  let ?s1 = "spinlock_acquire s"
  have none: "first_idx (frame_free s) 0 (coremapSize s) = None" using full by (simp add: no_free_first)
  have "evictable s (Some a) i0" using evictable_owner [OF D(6) own(1)] own(2) by blast
  then have "evictable ?s1 (Some a) i0" by (simp add: evictable_def)
  then obtain i where i: "i < coremapSize s" "evictable ?s1 (Some a) i"
    "victim_loop (Some a) ?s1 = Some (i, ?s1\<lparr>next_svic := (i + 1) mod coremapSize s\<rparr>)"
    using victim_loop_total [of ?s1 i0 "Some a"] core_okD(3) [OF D(6)] own(1) by auto
  then have owni: "owner s i = Some a" by (simp add: evictable_def)
  obtain j where j: "j < length (ptabs s a)" "in_mem (pte s a j)" "pte_paddr (pte s a j) = frame_addr s i"
    using mm_owned(2) [OF D(9) i(1) owni] by auto
  let ?k = "(i + 1) mod coremapSize s"
  let ?s3 = "s\<lparr>next_svic := ?k\<rparr>"
  let ?s4 = "pt_locked a ?s3"
  have k: "?k < coremapSize s" using i(1) by simp
  have idle: "lock_idle (pt_lock (aspaces s a))" and len: "unat (npages (aspaces s a)) = length (ptabs s a)"
    using D(8) [OF a] by (simp_all add: as_ok_def)
  have nint: "\<not> in_interrupt s" using can_lockD(2) [OF D(4)] .
  then have nint3: "\<not> in_interrupt ?s3" by (simp add: in_interrupt_def)
  have acq: "acquire_pt a ?s3 = Ret ?s4"
    using nint3 idle by (intro acquire_pt_idle) simp_all
  have avail: "getAvailableSwap ?s1 = Ret (word_of_int (swapFileSize ?s1 - uint (used ?s1)), ?s1)"
    by (rule getAvailableSwap_ok [of E n]) (simp add: sok)
  have left: "word_of_int (swapFileSize ?s1 - uint (used ?s1)) \<noteq> (0 :: w32)"
    by (rule swap_space_left [of E n, OF _ n0]) (simp add: sok)
  have eq: "getPage E False fa (Some a) s =
      kbind (evict_page E a i ?s4) (\<lambda>(addr, s5). kbind (release_pt a s5) (\<lambda>s6. Ret (frame_addr s6 addr, s6)))"
    using none i k avail left acq core_okD(1) [OF D(6)] by (simp add: getPage_def)
  have search: "pt_search (\<lambda>e. pte_paddr e = frame_addr ?s4 i) 0 (unat (npages (aspaces ?s4 a))) (ptabs ?s4 a) =
      Ret (Some j)"
    using search_frame [OF inv a i(1) j] len by (simp add: frame_addr_def pt_locked_def upd_as_def)
  show ?thesis
  proof (cases "readonly (pte s a j)")
    case True
    have ev: "evict_page E a i ?s4 = Ret (i, tlb_invalidate_vaddr E (pte_vaddr (pte s a j))
        (upd_pte a j (\<lambda>e. evicted e 0) ?s4))"
      using evict_page_readonly [OF search, of E 0] True j(1) by (simp add: readonly_def pt_locked_def)
    have "\<exists>t. release_pt a (tlb_invalidate_vaddr E (pte_vaddr (pte s a j)) (upd_pte a j (\<lambda>e. evicted e 0) ?s4)) = Ret t \<and>
        evict_step E n A s t a j i 0 \<and> counters t = counters s"
      by (rule evict_finish [OF inv a j(1,2) i(1) j(3) _ k,
            where b = "swapMap s" and d = "disk s" and u = "used s"])
         (use True D(3,5) in \<open>simp_all add: pt_locked_def upd_as_def stats_ok_def\<close>)
    then obtain t where t: "release_pt a (tlb_invalidate_vaddr E (pte_vaddr (pte s a j))
        (upd_pte a j (\<lambda>e. evicted e 0) ?s4)) = Ret t" "evict_step E n A s t a j i 0" "counters t = counters s" by blast
    have "frame_addr t i = frame_addr s i" using same_restD(3) [OF evict_stepD(7) [OF t(2)]] by simp
    with eq ev t True owni show ?thesis by (intro exI [of _ i] exI [of _ j] exI [of _ 0] exI [of _ t]) simp
  next
    case False
    let ?u = "used s + 1"
    have inv4: "swap_inv E n ?s4"
      using D(5) swap_inv_cong(1) [of ?s4 s E n] by (simp add: pt_locked_def upd_as_def)
    obtain p s5 where out: "swap_out E (frame_addr s i) ?s4 = Ret (None, p, s5)"
      using swap_out_total [OF inv4 swap(3,1), of "frame_addr s i"] swap(2)
      by (auto simp: pt_locked_def upd_as_def)
    obtain b d where s5: "s5 = ?s4\<lparr>swapMap := b, disk := d, used := used ?s4 + 1\<rparr>"
      using swap_out_NoneD [OF inv4 out] by metis
    note so = swap_out_inv [OF inv4 out]
    let ?r = "s\<lparr>swapMap := b, disk := d, used := ?u\<rparr>"
    have cong5: "swap_inv E n s5 = swap_inv E n ?r" "slot_bytes E s5 = slot_bytes E ?r"
      "slot_bytes E ?s4 = slot_bytes E s" "physmem ?s4 = physmem s" "used ?s4 = used s"
      using swap_inv_cong(1) [of s5 ?r E n] swap_inv_cong(2) [of s5 ?r E] swap_inv_cong(2) [of ?s4 s E]
      by (simp_all add: s5 pt_locked_def upd_as_def)
    have st4: "stats_ok ?s4" using D(3) by (simp add: stats_ok_def pt_locked_def upd_as_def)
    let ?Y = "bump SWAP_WRITE (?s4\<lparr>swapMap := b, disk := d, used := ?u\<rparr>)"
    have ev: "evict_page E a i ?s4 = Ret (i, tlb_invalidate_vaddr E (pte_vaddr (pte s a j))
        (upd_pte a j (\<lambda>e. evicted e p) ?Y))"
    proof -
      have "evict_page E a i ?s4 = Ret (i, tlb_invalidate_vaddr E (pte_vaddr (pte ?s4 a j))
          (bump SWAP_WRITE (upd_pte a j (\<lambda>e. evicted e p) (?s4\<lparr>swapMap := b, disk := d, used := ?u\<rparr>))))"
        by (rule evict_page_writable [OF search _ _ st4])
           (use False j out s5 cong5 in \<open>simp_all add: readonly_def pt_locked_def\<close>)
      then show ?thesis by (simp add: bump_upd_pte)
    qed
    have "\<exists>t. release_pt a (tlb_invalidate_vaddr E (pte_vaddr (pte s a j)) (upd_pte a j (\<lambda>e. evicted e p) ?Y)) = Ret t \<and>
        evict_step E n A s t a j i p \<and> counters t = counters (bump SWAP_WRITE s)"
      by (rule evict_finish [OF inv a j(1,2) i(1) j(3) _ k, where b = b and d = d and u = ?u])
         (use False D(3) so cong5 in \<open>simp_all add: pt_locked_def upd_as_def stats_ok_def bump_def\<close>)
    then obtain t where t: "release_pt a (tlb_invalidate_vaddr E (pte_vaddr (pte s a j))
        (upd_pte a j (\<lambda>e. evicted e p) ?Y)) = Ret t" "evict_step E n A s t a j i p"
      "counters t = counters (bump SWAP_WRITE s)" by blast
    have "frame_addr t i = frame_addr s i" using same_restD(3) [OF evict_stepD(7) [OF t(2)]] by simp
    with eq ev t False owni show ?thesis by (intro exI [of _ i] exI [of _ j] exI [of _ p] exI [of _ t]) simp
  qed
qed

text \<open>
  \<open>room E n a s\<close>: a frame is free, or address space \<open>a\<close> has a frame to give and the swap file has a
  slot and accepts writes. \<open>got_frame\<close> is what an allocation for \<open>a\<close> from \<open>s\<close> leaves: frame \<open>i\<close>
  belongs to \<open>a\<close> and holds no page, and no page outside memory has changed.
\<close>

definition room ::
  "('h, 'd, 'b, 'x) os_ops_scheme \<Rightarrow> nat \<Rightarrow> nat \<Rightarrow> ('h, 'd, 'b, 'a) core_st_scheme \<Rightarrow> bool" where
  "room E n a s \<longleftrightarrow> (\<exists>i<coremapSize s. frame_free s i) \<or>
     (\<exists>i<coremapSize s. owner s i = Some a) \<and> (\<exists>k<n. \<not> bitmap_isset E (swapMap s) k) \<and> writes_ok E"

definition got_frame ::
  "('h, 'd, 'b, 'x) os_ops_scheme \<Rightarrow> nat \<Rightarrow> nat set \<Rightarrow> nat \<Rightarrow> nat \<Rightarrow> ('h, 'd, 'b, 'a) core_st_scheme \<Rightarrow>
     ('h, 'd, 'b, 'a) core_st_scheme \<Rightarrow> bool" where
  "got_frame E n A a i s t \<longleftrightarrow>
     i < coremapSize s \<and> vm_invH E n A {i} t \<and> owner t i = Some a \<and> same_rest s t \<and>
     physmem t = physmem s \<and> pages_kept E (all_pages A s) s t \<and>
     (\<forall>b. length (ptabs t b) = length (ptabs s b)) \<and>
     (\<forall>b\<in>A. \<forall>k<length (ptabs s b). pte_vaddr (pte t b k) = pte_vaddr (pte s b k) \<and>
        pte_rwx (pte t b k) = pte_rwx (pte s b k)) \<and>
     (\<forall>b\<in>A. \<forall>k<length (ptabs s b). \<not> in_mem (pte s b k) \<longrightarrow>
        pte t b k = pte s b k \<and> content E t b k = content E s b k) \<and>
     (\<forall>va e. tlb_lookup E t va = Some e \<longrightarrow> tlb_lookup E s va = Some e) \<and>
     (counters t = counters s \<or> counters t = counters (bump SWAP_WRITE s))"

lemma got_frameD:
  assumes "got_frame E n A a i s t"
  shows "i < coremapSize s" "vm_invH E n A {i} t" "owner t i = Some a" "same_rest s t"
    "physmem t = physmem s" "pages_kept E (all_pages A s) s t"
    "length (ptabs t b) = length (ptabs s b)"
    "c \<in> A \<Longrightarrow> k < length (ptabs s c) \<Longrightarrow> pte_vaddr (pte t c k) = pte_vaddr (pte s c k)"
    "c \<in> A \<Longrightarrow> k < length (ptabs s c) \<Longrightarrow> pte_rwx (pte t c k) = pte_rwx (pte s c k)"
    "c \<in> A \<Longrightarrow> k < length (ptabs s c) \<Longrightarrow> \<not> in_mem (pte s c k) \<Longrightarrow> pte t c k = pte s c k"
    "c \<in> A \<Longrightarrow> k < length (ptabs s c) \<Longrightarrow> \<not> in_mem (pte s c k) \<Longrightarrow> content E t c k = content E s c k"
    "tlb_lookup E t va = Some e \<Longrightarrow> tlb_lookup E s va = Some e"
    "counters t = counters s \<or> counters t = counters (bump SWAP_WRITE s)"
  using assms unfolding got_frame_def by blast+

lemma evict_nonresident:
  assumes st: "evict_step E n A s t a j i p" and b: "b \<in> A" "k < length (ptabs s b)" "\<not> in_mem (pte s b k)"
  shows "pte t b k = pte s b k" "content E t b k = content E s b k"
proof -
  note D = evict_stepD [OF st]
  have "\<not> (b = a \<and> k = j)" using b(3) D(4) by auto
  then show same: "pte t b k = pte s b k" using D(18) [of b] b(2) by auto
  show "content E t b k = content E s b k"
  proof (cases "in_swap (pte s b k)")
    case True
    then have "unat (pte_paddr (pte s b k)) \<in> dom (slot_bytes E s)"
      using sw_used [OF vm_invD(10) [OF D(1)] b(1,2)] by simp
    then have "slot_bytes E t (unat (pte_paddr (pte s b k))) = slot_bytes E s (unat (pte_paddr (pte s b k)))"
      using D(15,16) by auto
    with True b(3) same show ?thesis by (simp add: content_def)
  qed (simp add: content_def same b(3))
qed

lemma evict_got_frame:
  assumes st: "evict_step E n A s t a j i p" and own: "owner s i = Some a"
    and c: "counters t = (if readonly (pte s a j) then counters s else counters (bump SWAP_WRITE s))"
  shows "got_frame E n A a i s t"
proof -
  note D = evict_stepD [OF st]
  have "length (ptabs t b) = length (ptabs s b)" for b using D(18) [of b] by simp
  moreover have "pte_vaddr (pte t b k) = pte_vaddr (pte s b k) \<and> pte_rwx (pte t b k) = pte_rwx (pte s b k)"
    if "k < length (ptabs s b)" for b k
    using D(18) [of b] that by (auto simp: nth_upd)
  moreover have "tlb_lookup E s va = Some e" if "tlb_lookup E t va = Some e" for va e
    using that unfolding D(17) by (simp split: if_splits)
  ultimately show ?thesis
    using D(5,7,8,9) evict_invariant [OF st] evict_kept [OF st] evict_nonresident [OF st] own c
    unfolding got_frame_def by (simp split: if_splits)
qed

lemma user_page_low_bits: "user_page va \<Longrightarrow> va AND 3 = 0"
  using unat_and_not_PAGE_FRAME [of va] and_3_aligned [of va]
  by (metis user_page_def unat_and_PAGE_FRAME mod_mult_self2_is_0)

lemma take_got_frame:
  assumes inv: "vm_inv E n A s" and a: "a \<in> A" and fa: "user_page fa"
    and i: "i < coremapSize s" "frame_free s i"
  shows "got_frame E n A a i s (s\<lparr>coremap := (coremap s)[i := taken_entry fa False (Some a)]\<rparr>)"
proof -
  note D = vm_invD [OF inv] and L = core_okD(2) [OF vm_invD(6) [OF inv]]
  let ?t = "s\<lparr>coremap := (coremap s)[i := taken_entry fa False (Some a)]\<rparr>"
  have none: "owner s i = None"
    using core_okD(7) [OF D(6) i(1)] i(2) free_bits [of "coremap s ! i"] by fastforce
  have own: "owner ?t = (owner s)(i := Some a)"
    using i(1) L by (auto simp: fun_eq_iff taken_entry_def nth_list_update)
  have mm: "mm_ok (frame_addr ?t) (coremapSize ?t) (owner ?t) (ptabs ?t) A (insert i {})"
    unfolding own using mm_alloc [OF D(9) none a]
    by (simp add: frame_addr_def [abs_def])
  have "core_ok ?t" by (rule core_ok_taken [OF D(6) user_page_low_bits [OF fa]])
  moreover have "swap_inv E n ?t" "slot_bytes E ?t = slot_bytes E s"
    using D(5) swap_inv_cong(1) [of ?t s E n] swap_inv_cong(2) [of ?t s E] by simp_all
  moreover have "tlb_lookup E ?t = tlb_lookup E s" "tlb_wf E ?t"
    using D(2) tlb_cong(1) [of ?t s E] tlb_cong(2) [of ?t s E] by simp_all
  moreover have "can_lock ?t" "proc_getas ?t = proc_getas s" "stats_ok ?t"
    using D(3,4) can_lock_cong [of ?t s] proc_getas_cong [of ?t s] stats_ok_cong [of ?t s] by simp_all
  ultimately have "vm_invH E n A {i} ?t"
    using D mm by (simp add: vm_invH_def)
  moreover have "content E ?t b k = content E s b k" for b k
    using \<open>slot_bytes E ?t = slot_bytes E s\<close> by (simp add: content_def)
  ultimately show ?thesis
    using i L \<open>tlb_lookup E ?t = tlb_lookup E s\<close>
    by (simp add: got_frame_def same_rest_def pages_kept_def taken_entry_def)
qed

lemma getPages_got_frame:
  assumes inv: "vm_inv E n A s" and a: "a \<in> A" and fa: "user_page fa" and room: "room E n a s"
  shows "\<exists>i t. getPages E 1 fa (Some a) s = Ret (frame_addr s i, t) \<and> got_frame E n A a i s t"
proof (cases "\<exists>i<coremapSize s. frame_free s i")
  case True
  then obtain i where i: "first_idx (frame_free s) 0 (coremapSize s) = Some i"
    using no_free_first [of s] by (meson not_Some_eq)
  then have "i < coremapSize s" "frame_free s i" using first_idx_SomeD [OF i] by auto
  from take_got_frame [OF inv a fa this] show ?thesis
    using getPage_free [OF vm_invD(6) [OF inv] i, of E False fa "Some a"] by (auto simp: getPages_def)
next
  case False
  with room obtain i0 k0 where "i0 < coremapSize s" "owner s i0 = Some a" "k0 < n"
    "\<not> bitmap_isset E (swapMap s) k0" "writes_ok E"
    unfolding room_def by blast
  then obtain i j p t where g: "getPage E False fa (Some a) s = Ret (frame_addr s i, t)"
    and e: "evict_step E n A s t a j i p" "owner s i = Some a"
    "counters t = (if readonly (pte s a j) then counters s else counters (bump SWAP_WRITE s))"
    using getPage_evict [OF inv a, of i0 k0 fa] False by blast
  from g evict_got_frame [OF e] show ?thesis
    by (intro exI [of _ i] exI [of _ t]) (simp add: getPages_def)
qed

end
