(* ===== verification/Vm_Correct.thy ===== *)
theory Vm_Correct
  imports Vm_Inv
begin

text \<open>
  Correctness of the fault handler: it finds the page of the faulting address, brings it into a
  frame without changing any other page, loads the TLB, and keeps the invariant of the VM system.
\<close>

section \<open>The page of an address\<close>

lemma length_seg_entries [simp]: "length (seg_entries v n rwx) = n"
  by (induction v n rwx rule: seg_entries.induct) simp_all

lemma nth_seg_entries:
  "k < n \<Longrightarrow> seg_entries v n rwx ! k =
     \<lparr>pte_paddr = 0, pte_vaddr = v + of_nat k * PAGE_SIZE, in_mem = False, in_swap = False, pte_rwx = rwx\<rparr>"
proof (induction v n rwx arbitrary: k rule: seg_entries.induct)
  case (2 v n rwx)
  then show ?case by (cases k) (simp_all add: algebra_simps)
qed simp

lemma pt_of_segments_Cons:
  "pt_of_segments (g # segs) = seg_entries (seg_start g) (unat (seg_npages g)) (seg_rwx g) @ pt_of_segments segs"
  "pt_of_segments [] = []"
  by (simp_all add: pt_of_segments_def)

lemma unat_page_of:
  assumes "unat v + n * 4096 \<le> 2 ^ 31" "k < n"
  shows "unat (v + of_nat k * PAGE_SIZE) = unat v + k * 4096"
proof -
  have "v + of_nat k * PAGE_SIZE = of_nat (unat v + k * 4096)" by (simp add: PAGE_SIZE_def)
  moreover have "unat v + k * 4096 < 2 ^ 32" using assms by simp
  ultimately show ?thesis by (simp only: unat_of_nat) simp
qed

lemma segs_ok_ConsD: "segs_ok (g # segs) \<Longrightarrow> seg_ok g \<and> segs_ok segs"
  by (cases segs) simp_all

lemma segs_ok_bounds:
  assumes "segs_ok (g # segs)"
  shows "unat (seg_start g) + length (pt_of_segments (g # segs)) * 4096 \<le> 2 ^ 31"
  using assms
proof (induction segs arbitrary: g)
  case Nil
  then show ?case by (simp add: pt_of_segments_Cons seg_ok_def seg_end_def)
next
  case (Cons h segs)
  then have "seg_end g \<le> unat (seg_start h)" "segs_ok (h # segs)" by simp_all
  with Cons.IH [of h] show ?case by (simp add: pt_of_segments_Cons(1) [of g] seg_end_def)
qed

lemma length_pt_of_segments: "segs_ok segs \<Longrightarrow> length (pt_of_segments segs) \<le> 0x80000"
  using segs_ok_bounds [of "hd segs" "tl segs"] by (cases segs) (auto simp: pt_of_segments_Cons(2))

lemma segs_above:
  assumes "segs_ok (g # segs)" "j < length (pt_of_segments (g # segs))"
  shows "unat (seg_start g) \<le> unat (pte_vaddr (pt_of_segments (g # segs) ! j))"
  using assms
proof (induction segs arbitrary: g j)
  case Nil
  then show ?case
    by (simp add: pt_of_segments_Cons nth_seg_entries seg_ok_def seg_end_def unat_page_of [of _ "unat (seg_npages g)"])
next
  case (Cons h segs)
  then have g: "seg_ok g" "seg_end g \<le> unat (seg_start h)" "segs_ok (h # segs)" by simp_all
  show ?case
  proof (cases "j < unat (seg_npages g)")
    case True
    then show ?thesis
      using g(1) by (simp add: pt_of_segments_Cons(1) [of g] nth_append nth_seg_entries seg_ok_def seg_end_def
          unat_page_of [of _ "unat (seg_npages g)"])
  next
    case False
    then have "unat (seg_start h) \<le> unat (pte_vaddr (pt_of_segments (h # segs) ! (j - unat (seg_npages g))))"
      using Cons.prems(2) by (intro Cons.IH [OF g(3)]) (simp add: pt_of_segments_Cons(1) [of g])
    with False g(2) show ?thesis
      by (simp add: pt_of_segments_Cons(1) [of g] nth_append seg_end_def)
  qed
qed

text \<open>The walk over the segments stops at the one the address lies in.\<close>

lemma seg_search_page:
  assumes "segs_ok segs" "j < length (pt_of_segments segs)" "fa = pte_vaddr (pt_of_segments segs ! j)"
  shows "\<exists>m seg last. seg_search fa np segs = Some (np + of_nat m, seg, last) \<and> seg \<in> set segs \<and>
    m \<le> j \<and> j < m + unat (seg_npages seg) \<and> m + unat (seg_npages seg) \<le> length (pt_of_segments segs) \<and>
    (\<forall>k<unat (seg_npages seg). pte_vaddr (pt_of_segments segs ! (m + k)) = seg_start seg + of_nat k * PAGE_SIZE)"
  using assms
proof (induction segs arbitrary: j np rule: segs_ok.induct)
  case 1
  then show ?case by (simp add: pt_of_segments_Cons)
next
  case (2 g)
  then show ?case
    by (intro exI [of _ 0]) (auto simp: pt_of_segments_Cons nth_seg_entries)
next
  case (3 g h rest)
  note ok = segs_ok_ConsD [OF "3.prems"(1)]
  let ?n = "unat (seg_npages g)"
  note app = pt_of_segments_Cons(1) [of g "h # rest"]
  show ?case
  proof (cases "j < ?n")
    case True
    then have "unat fa < seg_end g"
      using "3.prems"(3) ok
      by (simp add: app nth_append nth_seg_entries seg_ok_def seg_end_def unat_page_of [of _ ?n])
    then have "fa < seg_start h" using "3.prems"(1) by (simp add: word_less_nat_alt)
    with True show ?thesis
      by (intro exI [of _ 0]) (auto simp: app nth_append nth_seg_entries)
  next
    case False
    let ?j = "j - ?n"
    have j: "?j < length (pt_of_segments (h # rest))" "fa = pte_vaddr (pt_of_segments (h # rest) ! ?j)"
      using False "3.prems"(2,3) by (simp_all add: app nth_append)
    have nl: "\<not> fa < seg_start h"
      using segs_above [OF conjunct2 [OF ok] j(1)] j(2) by (simp add: word_less_nat_alt)
    obtain m seg last where IH: "seg_search fa (np + seg_npages g) (h # rest) = Some (np + seg_npages g + of_nat m, seg, last)"
      "seg \<in> set (h # rest)" "m \<le> ?j" "?j < m + unat (seg_npages seg)"
      "m + unat (seg_npages seg) \<le> length (pt_of_segments (h # rest))"
      "\<forall>k<unat (seg_npages seg). pte_vaddr (pt_of_segments (h # rest) ! (m + k)) = seg_start seg + of_nat k * PAGE_SIZE"
      using "3.IH" [OF conjunct2 [OF ok] j, of "np + seg_npages g"] by blast
    have "seg_search fa np (g # h # rest) = Some (np + of_nat (?n + m), seg, last)"
      using IH(1) nl by (simp add: add.assoc)
    moreover have "pte_vaddr (pt_of_segments (g # h # rest) ! (?n + m + k)) = seg_start seg + of_nat k * PAGE_SIZE"
      if "k < unat (seg_npages seg)" for k
      using IH(6) that unfolding app nth_append by (simp add: add.assoc)
    moreover have "?n + m \<le> j" "j < ?n + m + unat (seg_npages seg)" using IH(3,4) False by linarith+
    moreover have "?n + m + unat (seg_npages seg) \<le> length (pt_of_segments (g # h # rest))"
      using IH(5) by (simp add: app)
    ultimately show ?thesis using IH(2) by (intro exI [of _ "?n + m"] exI [of _ seg] exI [of _ last]) simp
  qed
qed

lemma segs_ok_all: "segs_ok segs \<Longrightarrow> g \<in> set segs \<Longrightarrow> seg_ok g"
  by (induction segs) (auto dest: segs_ok_ConsD)

lemma find_page:
  assumes ok: "as_ok x" and j: "j < length (as_ptab x)"
  defines "fa \<equiv> pte_vaddr (as_ptab x ! j)"
  shows "\<exists>np seg last k. seg_search fa 0 (as_segment x) = Some (np, seg, last) \<and>
    page_search fa np (seg_npages seg) (as_ptab x) = Ret (Some j) \<and> seg \<in> set (as_segment x) \<and>
    k < unat (seg_npages seg) \<and> fa = seg_start seg + of_nat k * PAGE_SIZE"
proof -
  let ?segs = "as_segment x" and ?pt = "as_ptab x"
  have segs: "segs_ok ?segs" and va: "map pte_vaddr ?pt = map pte_vaddr (pt_of_segments ?segs)"
    using ok by (simp_all add: as_ok_def)
  have len: "length ?pt = length (pt_of_segments ?segs)" using arg_cong [OF va, of length] by simp
  have at: "pte_vaddr (?pt ! k) = pte_vaddr (pt_of_segments ?segs ! k)" if "k < length ?pt" for k
    using arg_cong [OF va, of "\<lambda>l. l ! k"] that len by simp
  have fa: "fa = pte_vaddr (pt_of_segments ?segs ! j)" using at [OF j] by (simp add: fa_def)
  obtain m seg last where s: "seg_search fa 0 ?segs = Some (0 + of_nat m, seg, last)" "seg \<in> set ?segs"
    "m \<le> j" "j < m + unat (seg_npages seg)" "m + unat (seg_npages seg) \<le> length (pt_of_segments ?segs)"
    "\<forall>k<unat (seg_npages seg). pte_vaddr (pt_of_segments ?segs ! (m + k)) = seg_start seg + of_nat k * PAGE_SIZE"
    using seg_search_page [OF segs j [unfolded len] fa, of 0] by (elim exE conjE)
  have sok: "seg_ok seg" using segs_ok_all [OF segs s(2)] .
  let ?n = "unat (seg_npages seg)"
  have small: "m + ?n \<le> 0x80000" using s(5) length_pt_of_segments [OF segs] by linarith
  then have um: "unat (of_nat m :: w32) = m" by (simp add: unat_of_nat)
  have sum: "unat (of_nat m + seg_npages seg) = m + ?n"
    using small um by (simp add: unat_word_ariths)
  have vak: "unat (pte_vaddr (?pt ! (m + k))) = unat (seg_start seg) + k * 4096" if "k < ?n" for k
    using that s(5,6) len sok at [of "m + k"] unat_page_of [of "seg_start seg" ?n k]
    by (simp add: seg_ok_def seg_end_def)
  have "first_idx (\<lambda>i. pte_vaddr (?pt ! i) = fa) m ?n = Some j"
    unfolding first_idx_Some_iff
  proof (intro conjI allI impI)
    fix i assume i: "m \<le> i \<and> i < j"
    have d: "i - m < ?n" "j - m < ?n" using i s(3,4) by linarith+
    have "unat (pte_vaddr (?pt ! i)) = unat (seg_start seg) + (i - m) * 4096"
      "unat fa = unat (seg_start seg) + (j - m) * 4096"
      using vak [OF d(1)] vak [OF d(2)] i s(3) by (simp_all add: fa_def)
    moreover have "i - m < j - m" using i by linarith
    ultimately show "pte_vaddr (?pt ! i) \<noteq> fa" by auto
  qed (use s in \<open>simp_all add: fa_def\<close>)
  moreover have "\<not> of_nat m + seg_npages seg < of_nat m"
    using sum um by (simp add: word_less_nat_alt)
  ultimately have "page_search fa (of_nat m) (seg_npages seg) ?pt = Ret (Some j)"
    using s(5) len sum um pt_search_eq by (simp add: page_search_def)
  moreover have "fa = seg_start seg + of_nat (j - m) * PAGE_SIZE"
    using s(3,4) spec [OF s(6), of "j - m"] at [OF j] by (simp add: fa_def)
  ultimately show ?thesis using s(1-4) by (intro exI [of _ "of_nat m"] exI [of _ seg] exI [of _ last] exI [of _ "j - m"]) simp
qed

section \<open>Filling a frame keeps the invariant\<close>

definition loaded :: "pt_entry \<Rightarrow> paddr_t \<Rightarrow> pt_entry" where
  "loaded e p = e\<lparr>pte_paddr := p, in_swap := False, in_mem := True\<rparr>"

lemma loaded_simps [simp]:
  "pte_vaddr (loaded e p) = pte_vaddr e" "pte_rwx (loaded e p) = pte_rwx e"
  "pte_paddr (loaded e p) = p" "in_mem (loaded e p)" "\<not> in_swap (loaded e p)"
  by (simp_all add: loaded_def)

text \<open>
  \<open>fill_step E n A t u a j i\<close>: from \<open>t\<close>, where frame \<open>i\<close> holds no page, to \<open>u\<close>, page \<open>j\<close> of address space
  \<open>a\<close> entered the frame and gave up its swap slot; only that frame was written.
\<close>

definition fill_step ::
  "('h, 'd, 'b, 'x) os_ops_scheme \<Rightarrow> nat \<Rightarrow> nat set \<Rightarrow> ('h, 'd, 'b, 'a) core_st_scheme \<Rightarrow>
     ('h, 'd, 'b, 'a) core_st_scheme \<Rightarrow> nat \<Rightarrow> nat \<Rightarrow> nat \<Rightarrow> bool" where
  "fill_step E n A t u a j i \<longleftrightarrow>
     vm_invH E n A {i} t \<and> a \<in> A \<and> j < length (ptabs t a) \<and> \<not> in_mem (pte t a j) \<and>
     i < coremapSize t \<and> owner t i = Some a \<and>
     same_rest t u \<and> coremap u = coremap t \<and> next_svic u = next_svic t \<and> tlb_hw u = tlb_hw t \<and>
     next_victim u = next_victim t \<and> stats_ok u \<and> swap_inv E n u \<and>
     ptabs u = (ptabs t)(a := (ptabs t a)[j := loaded (pte t a j) (frame_addr t i)]) \<and>
     slot_bytes E u = (if in_swap (pte t a j) then (slot_bytes E t)(unat (pte_paddr (pte t a j)) := None)
        else slot_bytes E t) \<and>
     (\<forall>k<coremapSize t. k \<noteq> i \<longrightarrow>
        mem_read (frame_addr t k) 4096 (physmem u) = mem_read (frame_addr t k) 4096 (physmem t))"

lemma fill_stepD:
  assumes "fill_step E n A t u a j i"
  shows "vm_invH E n A {i} t" "a \<in> A" "j < length (ptabs t a)" "\<not> in_mem (pte t a j)"
    "i < coremapSize t" "owner t i = Some a" "same_rest t u" "coremap u = coremap t"
    "next_svic u = next_svic t" "tlb_hw u = tlb_hw t" "next_victim u = next_victim t" "stats_ok u"
    "swap_inv E n u"
    "ptabs u = (ptabs t)(a := (ptabs t a)[j := loaded (pte t a j) (frame_addr t i)])"
    "slot_bytes E u = (if in_swap (pte t a j) then (slot_bytes E t)(unat (pte_paddr (pte t a j)) := None)
        else slot_bytes E t)"
    "k < coremapSize t \<Longrightarrow> k \<noteq> i \<Longrightarrow>
        mem_read (frame_addr t k) 4096 (physmem u) = mem_read (frame_addr t k) 4096 (physmem t)"
    "ptabs u b = (if b = a then (ptabs t a)[j := loaded (pte t a j) (frame_addr t i)] else ptabs t b)"
proof -
  show tabs: "ptabs u = (ptabs t)(a := (ptabs t a)[j := loaded (pte t a j) (frame_addr t i)])"
    using assms by (simp add: fill_step_def)
  show "ptabs u b = (if b = a then (ptabs t a)[j := loaded (pte t a j) (frame_addr t i)] else ptabs t b)"
    using fun_cong [OF tabs, of b] by simp
  show "mem_read (frame_addr t k) 4096 (physmem u) = mem_read (frame_addr t k) 4096 (physmem t)"
    if "k < coremapSize t" "k \<noteq> i"
    using assms that unfolding fill_step_def by blast
qed (insert assms, unfold fill_step_def, elim conjE, assumption)+

lemma fill_spaces_ok:
  assumes st: "fill_step E n A t u a j i" and b: "b \<in> A"
  shows "as_ok (aspaces u b)"
proof -
  note D = fill_stepD [OF st]
  have eq: "(aspaces u b)\<lparr>as_ptab := []\<rparr> = (aspaces t b)\<lparr>as_ptab := []\<rparr>"
    using D(7) by (simp add: same_rest_def)
  show ?thesis
  proof (cases "b = a")
    case True
    have "ent_ok (pte t a j)" using vm_invD(8) [OF D(1,2)] D(3) by (simp add: as_ok_def)
    then have "ent_ok (loaded (pte t a j) (frame_addr t i))" by (simp add: ent_ok_def)
    with True D(3) D(17) [of b] show ?thesis
      by (intro as_ok_upd [OF vm_invD(8) [OF D(1) b] eq, where j = j and e = "loaded (pte t a j) (frame_addr t i)"]) simp_all
  next
    case False
    with as_ok_same [OF vm_invD(8) [OF D(1) b] eq] D(17) [of b] show ?thesis by simp
  qed
qed

lemma fill_invariant:
  assumes st: "fill_step E n A t u a j i"
  shows "vm_inv E n A u"
proof -
  note D = fill_stepD [OF st] and R = same_restD [OF fill_stepD(7) [OF st]]
  note I = vm_invD [OF D(1)]
  have sw: "sw_ok (dom (slot_bytes E u)) (ptabs u) A"
  proof -
    let ?old = "if in_swap (pte t a j) then {unat (pte_paddr (pte t a j))} else {}"
    have "dom (slot_bytes E u) = dom (slot_bytes E t) - ?old \<union> {}"
      using D(15) by auto
    then show ?thesis
      unfolding D(14) by (simp only:) (rule sw_change [OF I(10) D(2,3) refl], simp_all)
  qed
  have mm: "mm_ok (frame_addr u) (coremapSize u) (owner u) (ptabs u) A ({i} - {i})"
    unfolding D(8,14) R(3,4)
    by (rule mm_fill [OF I(9) frame_inj_on [OF I(6)] _ D(5,6,3,4)]) simp_all
  have co: "core_ok u"
    by (rule core_ok_cong [OF D(8) _ _ _ _ I(6)])
       (use D(7,9) core_okD [OF I(6)] in \<open>simp_all add: same_rest_def\<close>)
  have lk: "tlb_lookup E u = tlb_lookup E t" "tlb_wf E u"
    using tlb_cong(1) [of u t E] tlb_cong(2) [of u t E] D(10,11) I(2) by simp_all
  have coh: "coherent (tlb_lookup E u) (ptabs u b)" if "b \<in> A" "proc_getas u = Some b" for b
  proof (cases "b = a")
    case True
    with that R(1) have c: "coherent (tlb_lookup E t) (ptabs t a)" using I(11) by simp
    have "coherent (tlb_lookup E t) ((ptabs t a)[j := loaded (pte t a j) (frame_addr t i)])"
      by (rule coherent_change(2) [OF c D(3) _ D(4)]) simp
    with True D(17) [of b] lk show ?thesis by simp
  next
    case False
    with that R(1) D(17) [of b] lk I(11) show ?thesis by simp
  qed
  show ?thesis
    using I(1,4,7) D(12,13) R(1,2,5) lk(2) co sw mm coh fill_spaces_ok [OF st]
    by (simp add: vm_invH_def)
qed

lemma fill_content:
  assumes st: "fill_step E n A t u a j i"
  shows "content E u a j = Some (mem_read (frame_addr t i) 4096 (physmem u))"
    and "b \<in> A \<Longrightarrow> k < length (ptabs t b) \<Longrightarrow> (b, k) \<noteq> (a, j) \<Longrightarrow> content E u b k = content E t b k"
    and "(b, k) \<noteq> (a, j) \<Longrightarrow> pte u b k = pte t b k"
proof -
  note D = fill_stepD [OF st]
  show "content E u a j = Some (mem_read (frame_addr t i) 4096 (physmem u))"
    using D(3) D(17) [of a] by (simp add: content_def)
  show same: "pte u b k = pte t b k" if "(b, k) \<noteq> (a, j)"
    using that D(17) [of b] by auto
  assume b: "b \<in> A" "k < length (ptabs t b)" "(b, k) \<noteq> (a, j)"
  show "content E u b k = content E t b k"
  proof (cases "in_mem (pte t b k)")
    case True
    from mm_resident [OF vm_invD(9) [OF D(1)] b(1,2) True]
    obtain i' where "i' < coremapSize t" "i' \<noteq> i" "pte_paddr (pte t b k) = frame_addr t i'" by blast
    with True same [OF b(3)] D(16) show ?thesis by (simp add: content_def)
  next
    case False
    have "slot_bytes E u (unat (pte_paddr (pte t b k))) = slot_bytes E t (unat (pte_paddr (pte t b k)))"
      if "in_swap (pte t b k)"
    proof (cases "in_swap (pte t a j)")
      case True
      have "pte_paddr (pte t b k) \<noteq> pte_paddr (pte t a j)"
        using sw_unique [OF vm_invD(10) [OF D(1)] b(1) D(2) b(2) D(3) that True] b(3) by blast
      then have "unat (pte_paddr (pte t b k)) \<noteq> unat (pte_paddr (pte t a j))"
        by (metis unsigned_word_eqI)
      with D(15) show ?thesis by (simp split: if_splits)
    qed (use D(15) in simp)
    with False same [OF b(3)] show ?thesis by (simp add: content_def)
  qed
qed

section \<open>Work done while the page table is locked\<close>

lemma pt_locked_fields [simp]:
  "physmem (pt_locked a s) = physmem s" "disk (pt_locked a s) = disk s"
  "swapMap (pt_locked a s) = swapMap s" "used (pt_locked a s) = used s"
  "proc_getas (pt_locked a s) = proc_getas s" "stats_ok (pt_locked a s) = stats_ok s"
  "curthread (pt_locked a s) = curthread s" "in_interrupt (pt_locked a s) = in_interrupt s"
  by (simp_all add: pt_locked_def) (simp_all add: upd_as_def)

lemma pt_locked_swap [simp]:
  "swap_inv E n (pt_locked a s) = swap_inv E n s" "slot_bytes E (pt_locked a s) = slot_bytes E s"
  using swap_inv_cong(1) [of "pt_locked a s" s E n] swap_inv_cong(2) [of "pt_locked a s" s E]
  by (simp_all add: pt_locked_def upd_as_def)

lemma pt_locked_bump: "bump c (pt_locked a s) = pt_locked a (bump c s)"
  by (simp add: bump_def pt_locked_def upd_as_def)

lemma pt_locked_upd_pte: "upd_pte a j f (pt_locked a s) = pt_locked a (upd_pte a j f s)"
  by (cases "aspaces s a") (simp add: upd_pte_def pt_locked_def upd_as_def)

lemma pt_locked_mem: "(pt_locked a s)\<lparr>physmem := m\<rparr> = pt_locked a (s\<lparr>physmem := m\<rparr>)"
  by (simp add: pt_locked_def upd_as_def)

lemma pt_locked_swapped_in:
  "(pt_locked a s)\<lparr>physmem := m, swapMap := b, used := k\<rparr> = pt_locked a (s\<lparr>physmem := m, swapMap := b, used := k\<rparr>)"
  by (simp add: pt_locked_def upd_as_def)

lemmas pt_locked_commute = pt_locked_bump pt_locked_upd_pte pt_locked_mem pt_locked_swapped_in

lemma tlb_loadentry_locked:
  assumes "stats_ok s" "tlb_loadentry E fa p ro s = Ret (r, t)"
  shows "tlb_loadentry E fa p ro (pt_locked a s) = Ret (r, pt_locked a t)"
proof -
  have "tlb_free E (pt_locked a s) = tlb_free E s" "tlb_hw (pt_locked a s) = tlb_hw s"
    "next_victim (pt_locked a s) = next_victim s"
    by (simp_all add: tlb_free_def pt_locked_def upd_as_def)
  moreover have "(pt_locked a s)\<lparr>tlb_hw := h\<rparr> = pt_locked a (s\<lparr>tlb_hw := h\<rparr>)"
    "(pt_locked a s)\<lparr>tlb_full := f, next_victim := v, tlb_hw := h\<rparr> =
       pt_locked a (s\<lparr>tlb_full := f, next_victim := v, tlb_hw := h\<rparr>)" for h f v
    by (simp_all add: pt_locked_def upd_as_def)
  ultimately show ?thesis
    using assms by (auto simp: tlb_loadentry_eq pt_locked_bump split: option.splits)
qed

text \<open>Writes inside one frame.\<close>

lemma mem_read_other_frame_at:
  assumes "core_ok s" "i < coremapSize s" "k < coremapSize s" "k \<noteq> i" "unat off + length bs \<le> 4096"
  shows "mem_read (frame_addr s k) 4096 (mem_write (frame_addr s i + off) bs m) =
    mem_read (frame_addr s k) 4096 m"
  unfolding mem_read_def
proof (rule map_cong [OF refl])
  fix x assume "x \<in> set [0..<4096]"
  then have x: "x < 4096" by (simp only: set_upt atLeastLessThan_iff)
  let ?d = "frame_addr s k + of_nat x - frame_addr s i"
  have "4096 \<le> unat ?d" using frames_disjoint [OF assms(1-3) assms(4) [symmetric] x] .
  then have "length bs + unat off \<le> unat ?d" using assms(5) by linarith
  then have "length bs \<le> unat (?d - off)" by (simp add: unat_sub word_le_nat_alt)
  moreover have "?d - off = frame_addr s k + of_nat x - (frame_addr s i + off)" by simp
  ultimately have "length bs \<le> unat (frame_addr s k + of_nat x - (frame_addr s i + off))" by metis
  then show "mem_write (frame_addr s i + off) bs m (frame_addr s k + of_nat x) = m (frame_addr s k + of_nat x)"
    by (rule mem_write_other)
qed

lemma fill_intro:
  assumes t: "vm_invH E n A {i} t" and a: "a \<in> A" "j < length (ptabs t a)" "\<not> in_mem (pte t a j)"
    and i: "i < coremapSize t" "owner t i = Some a" and c: "length c = STATS_TOT"
    and r: "r = t\<lparr>physmem := m, swapMap := b, used := k\<rparr>"
    and u: "u = upd_pte a j (\<lambda>e. loaded e (frame_addr t i)) (r\<lparr>counters := c\<rparr>)"
    and sw: "swap_inv E n r" "slot_bytes E r = (if in_swap (pte t a j)
      then (slot_bytes E t)(unat (pte_paddr (pte t a j)) := None) else slot_bytes E t)"
    and m: "\<And>x. x < coremapSize t \<Longrightarrow> x \<noteq> i \<Longrightarrow>
      mem_read (frame_addr t x) 4096 m = mem_read (frame_addr t x) 4096 (physmem t)"
  shows "fill_step E n A t u a j i"
proof -
  have "swap_inv E n u = swap_inv E n r" "slot_bytes E u = slot_bytes E r"
    using swap_inv_cong(1) [of u r E n] swap_inv_cong(2) [of u r E]
    by (simp_all add: u upd_pte_def upd_as_def)
  moreover have "ptabs u = (ptabs t)(a := (ptabs t a)[j := loaded (pte t a j) (frame_addr t i)])"
    by (simp add: u r upd_pte_def fun_eq_iff)
  moreover have "same_rest t u" by (simp add: same_rest_def u r upd_pte_def upd_as_def)
  moreover have "stats_ok u" using vm_invD(3) [OF t] c
    by (simp add: stats_ok_def u r upd_pte_def upd_as_def)
  moreover have "physmem u = m" "coremap u = coremap t" "next_svic u = next_svic t" "tlb_hw u = tlb_hw t"
    "next_victim u = next_victim t"
    by (simp_all add: u r upd_pte_def upd_as_def)
  ultimately show ?thesis using t a i sw m by (simp add: fill_step_def)
qed

section \<open>Bringing a page into memory\<close>

definition counted :: "nat list \<Rightarrow> w32 list \<Rightarrow> w32 list" where
  "counted evs c = fold (\<lambda>i c. c[i := c ! i + 1]) evs c"

lemma counted_simps [simp]:
  "counted [] c = c" "counted (i # evs) c = counted evs (c[i := c ! i + 1])"
  by (simp_all add: counted_def)

lemma length_counted [simp]: "length (counted evs c) = length c"
  by (induction evs arbitrary: c) simp_all

text \<open>
  \<open>brought_in E n A a j s u bs evs\<close>: \<open>u\<close> is \<open>s\<close> with page \<open>j\<close> of \<open>a\<close> in a frame that now holds \<open>bs\<close>,
  after the events \<open>evs\<close> were counted.
\<close>

definition brought_in ::
  "('h, 'd, 'b, 'x) os_ops_scheme \<Rightarrow> nat \<Rightarrow> nat set \<Rightarrow> nat \<Rightarrow> nat \<Rightarrow> ('h, 'd, 'b, 'a) core_st_scheme \<Rightarrow>
     ('h, 'd, 'b, 'a) core_st_scheme \<Rightarrow> byte list \<Rightarrow> nat list \<Rightarrow> bool" where
  "brought_in E n A a j s u bs evs \<longleftrightarrow> (\<exists>i t. got_frame E n A a i s t \<and> fill_step E n A t u a j i \<and>
     content E u a j = Some bs \<and> counters u = counted evs (counters t))"

lemma locked_getPages:
  assumes inv: "vm_inv E n A s" and a: "a \<in> A" and fa: "user_page fa" and room: "room E n a s"
  shows "\<exists>i t. release_pt a (pt_locked a s) = Ret s \<and>
    getPages E 1 fa (Some a) s = Ret (frame_addr s i, t) \<and> got_frame E n A a i s t \<and>
    acquire_pt a t = Ret (pt_locked a t) \<and>
    (\<forall>j f. acquire_pt a (upd_pte a j f t) = Ret (pt_locked a (upd_pte a j f t)))"
proof -
  from getPages_got_frame [OF assms] obtain i t
    where g: "getPages E 1 fa (Some a) s = Ret (frame_addr s i, t)" "got_frame E n A a i s t" by blast
  have idle: "lock_idle (pt_lock (aspaces s a))" using vm_invD(8) [OF inv a] by (simp add: as_ok_def)
  have idlet: "lock_idle (pt_lock (aspaces t a))"
    using vm_invD(8) [OF got_frameD(2) [OF g(2)] a] by (simp add: as_ok_def)
  have "\<not> in_interrupt t" using can_lockD(2) [OF vm_invD(4) [OF got_frameD(2) [OF g(2)]]] .
  with idlet have "acquire_pt a t = Ret (pt_locked a t)"
    "acquire_pt a (upd_pte a j f t) = Ret (pt_locked a (upd_pte a j f t))" for j f
    by (auto intro!: acquire_pt_idle simp: upd_pte_def)
  with g release_pt_locked [OF idle] show ?thesis by blast
qed

lemma fault_in_swap:
  assumes inv: "vm_inv E n A s" and a: "a \<in> A" "j < length (ptabs s a)" and fa: "user_page fa"
    and e: "\<not> in_mem (pte s a j)" "in_swap (pte s a j)" and room: "room E n a s"
  shows "\<exists>w bs. fault_in E a j seg is_last fa (pt_locked a s) = Ret (pt_locked a w) \<and>
    content E s a j = Some bs \<and>
    brought_in E n A a j s (upd_pte a j (\<lambda>e. e\<lparr>in_mem := True\<rparr>) w) bs [SWAP_READ, PAGE_FAULT_DISK]"
proof -
  obtain i t where g: "release_pt a (pt_locked a s) = Ret s" "getPages E 1 fa (Some a) s = Ret (frame_addr s i, t)"
    "got_frame E n A a i s t" "acquire_pt a t = Ret (pt_locked a t)"
    using locked_getPages [OF inv a(1) fa room] by blast
  note G = got_frameD [OF g(3)]
  note I = vm_invD [OF G(2)]
  have et: "pte t a j = pte s a j" "j < length (ptabs t a)" using G(10) [OF a e(1)] G(7) a(2) by simp_all
  have fr: "frame_addr t = frame_addr s" "i < coremapSize t" using same_restD(3,4) [OF G(4)] G(1) by simp_all
  let ?q = "pte_paddr (pte s a j)" and ?p = "frame_addr s i"
  have "unat (pte_paddr (pte t a j)) \<in> dom (slot_bytes E t)" using sw_used [OF I(10) a(1) et(2)] et e(2) by simp
  then obtain bs where bs: "slot_bytes E t (unat ?q) = Some bs" using et(1) by auto
  note sb = slot_bytes_SomeD [OF I(5) bs]
  define m where "m = mem_write ?p bs (physmem t)"
  define r where "r = t\<lparr>physmem := m, swapMap := bitmap_unmark E (unat ?q) (swapMap t), used := used t - 1\<rparr>"
  define w where "w = bump PAGE_FAULT_DISK (bump SWAP_READ (upd_pte a j (\<lambda>e. e\<lparr>pte_paddr := ?p, in_swap := False\<rparr>) r))"
  let ?u = "upd_pte a j (\<lambda>e. e\<lparr>in_mem := True\<rparr>) w"
  have si: "swap_in E ?q ?p True (pt_locked a t) = Ret (None, ?p, pt_locked a r)"
    using swap_in_bytes [of E n "pt_locked a t" ?q bs ?p True] I(5) bs
    by (simp add: r_def m_def pt_locked_swapped_in)
  have st: "stats_ok (upd_pte a j f r)" for f
    using I(3) by (simp add: r_def stats_ok_def upd_pte_def upd_as_def)
  have run: "fault_in E a j seg is_last fa (pt_locked a s) = Ret (pt_locked a w)"
    using g si e(2) et(1) st
    by (simp add: fault_in_def w_def pt_locked_commute kern_simps stat_index_defs Let_def)
  have un: "swap_inv E n r" "slot_bytes E r = (slot_bytes E t)(unat ?q := None)"
    by (rule unmark_inv [OF I(5) sb(1)], simp add: r_def)+
  have u: "?u = upd_pte a j (\<lambda>e. loaded e (frame_addr t i))
      (r\<lparr>counters := counters (bump PAGE_FAULT_DISK (bump SWAP_READ t))\<rparr>)"
    using et(2) fr by (simp add: w_def r_def upd_pte_def upd_as_def bump_def loaded_def)
  have pm: "physmem ?u = m" unfolding u by (simp add: r_def upd_pte_def upd_as_def)
  have far: "mem_read (frame_addr t x) 4096 m = mem_read (frame_addr t x) 4096 (physmem t)"
    if "x < coremapSize t" "x \<noteq> i" for x
    using mem_read_other_frame [OF I(6) fr(2) that(1)] that(2) sb(3) fr(1) by (simp add: m_def)
  have "fill_step E n A t ?u a j i"
    by (rule fill_intro [OF G(2) a(1) et(2) _ fr(2) G(3) _ r_def u])
       (use I(3) e et un far in \<open>simp_all add: stats_ok_def counters_bump\<close>)
  moreover from fill_content(1) [OF this] have "content E ?u a j = Some bs"
    using sb(3) fr(1) mem_read_write_same [of bs ?p "physmem t"] pm by (simp add: m_def)
  moreover have "counters ?u = counted [SWAP_READ, PAGE_FAULT_DISK] (counters t)"
    unfolding u by (simp add: upd_pte_def upd_as_def counters_bump)
  moreover have "content E s a j = Some bs" using G(11) [OF a e(1)] bs e et by (simp add: content_def)
  ultimately show ?thesis
    using run g(3) unfolding brought_in_def by blast
qed

section \<open>Loading a page of the executable\<close>

text \<open>
  The number of bytes asked for, for page \<open>k\<close> of the segment, and where in the frame they go. The
  first page asks for everything up to the end of the frame, whatever the size in the file.
\<close>

definition elf_want :: "segment_t \<Rightarrow> nat \<Rightarrow> nat" where
  "elf_want seg k = (if k = 0 then 4096 - unat (initoffset seg) else min 4096 (unat (seg_filesize seg) - k * 4096))"

definition elf_at :: "segment_t \<Rightarrow> nat \<Rightarrow> w32" where
  "elf_at seg k = (if k = 0 then initoffset seg else 0)"

lemma aligned_and_PAGE_FRAME: "unat x mod 4096 = 0 \<Longrightarrow> x AND PAGE_FRAME = x"
  using unat_and_PAGE_FRAME [of x] div_mult_mod_eq [of "unat x" 4096] by (simp add: word_unat_eq_iff)

lemma load_segment_eq:
  assumes "\<not> ms < fs" "unat fs = n" "vop_read E v off n (disk s) = (e, bs)"
  shows "load_segment E v off p ms fs s =
    (case e of Some _ \<Rightarrow> e | None \<Rightarrow> if n \<le> length bs then None else Some ENOEXEC,
      s\<lparr>physmem := mem_write p bs (physmem s)\<rparr>)"
  using assms by (simp add: load_segment_def Let_def split: option.split)

lemma load_elf_ondemand_eq:
  assumes seg: "seg_ok seg" "k < unat (seg_npages seg)" and as: "proc_getas s = Some a"
    and rd: "vop_read E (as_v (aspaces s a)) (seg_offset seg + int k * 4096) (elf_want seg k) (disk s) = (e, bs)"
  shows "load_elf_ondemand E seg p (seg_start seg + of_nat k * PAGE_SIZE) s =
    Ret (case e of Some _ \<Rightarrow> e | None \<Rightarrow> if elf_want seg k \<le> length bs then None else Some ENOEXEC,
      s\<lparr>physmem := mem_write (p + elf_at seg k) bs (physmem s)\<rparr>)"
proof -
  let ?fa = "seg_start seg + of_nat k * PAGE_SIZE" and ?amt = "of_nat k * PAGE_SIZE :: w32"
  have st: "unat (seg_start seg) mod 4096 = 0" "unat (seg_start seg) + unat (seg_npages seg) * 4096 \<le> 2 ^ 31"
    "unat (seg_size seg) = unat (seg_npages seg) * 4096" "unat (initoffset seg) < 4096"
    using seg(1) by (simp_all add: seg_ok_def seg_end_def)
  have ufa: "unat ?fa = unat (seg_start seg) + k * 4096" by (rule unat_page_of [OF st(2) seg(2)])
  then have fa: "?fa AND PAGE_FRAME = ?fa" using st(1) by (intro aligned_and_PAGE_FRAME) presburger
  have uamt: "unat ?amt = k * 4096"
    using unat_page_of [of 0 "unat (seg_npages seg)" k] st(2) seg(2) by simp
  then have amt: "?amt AND PAGE_FRAME = ?amt" by (intro aligned_and_PAGE_FRAME) simp
  have uiamt: "uint ?amt = int k * 4096" using uamt by (metis of_nat_mult of_nat_numeral uint_nat)
  have up: "unat PAGE_SIZE = 4096" by (simp add: PAGE_SIZE_def)
  have le: "?amt \<le> seg_size seg" using uamt st(3) seg(2) by (simp add: word_le_nat_alt)
  have "unat (seg_size seg - ?amt) \<ge> 4096" using le uamt st(3) seg(2) by (simp add: unat_sub)
  then have ms: "(if seg_size seg - ?amt > PAGE_SIZE then PAGE_SIZE else seg_size seg - ?amt) = PAGE_SIZE"
    using up by (metis (mono_tags) word_le_nat_alt antisym_conv2 not_less)
  define fs where "fs = (if seg_filesize seg < ?amt then 0 else if seg_filesize seg - ?amt > PAGE_SIZE then PAGE_SIZE
      else seg_filesize seg - ?amt)"
  have ufs: "unat fs = min 4096 (unat (seg_filesize seg) - k * 4096)"
    using uamt up by (auto simp: fs_def word_less_nat_alt unat_sub word_le_nat_alt)
  have zero: "?amt = 0 \<longleftrightarrow> k = 0" using uamt by (metis mult_eq_0_iff unat_eq_zero zero_neq_numeral)
  let ?ms = "if k = 0 then PAGE_SIZE - initoffset seg else PAGE_SIZE"
  let ?fs = "if k = 0 then PAGE_SIZE - initoffset seg else fs"
  have run: "load_elf_ondemand E seg p ?fa s =
      Ret (load_segment E (as_v (aspaces s a)) (seg_offset seg + int k * 4096) (p + elf_at seg k) ?ms ?fs s)"
    unfolding load_elf_ondemand_def Let_def as fa option.case add_diff_cancel_left' amt ms fs_def [symmetric] uiamt
    using zero by (simp add: elf_at_def)
  have "\<not> ?ms < ?fs" using ufs up by (simp add: word_less_nat_alt)
  moreover have "unat ?fs = elf_want seg k"
    using st(4) up ufs by (simp add: elf_want_def unat_sub word_le_nat_alt)
  ultimately show ?thesis
    unfolding run by (intro arg_cong [where f = Ret] load_segment_eq rd)
qed

lemma elf_write_bound: "seg_ok seg \<Longrightarrow> unat (elf_at seg k) + elf_want seg k \<le> 4096"
  by (auto simp: elf_at_def elf_want_def seg_ok_def)

lemma fresh_brought_in:
  assumes g: "got_frame E n A a i s t" and a: "a \<in> A" "j < length (ptabs s a)"
    and e: "\<not> in_mem (pte s a j)" "\<not> in_swap (pte s a j)"
    and u: "u = upd_pte a j (\<lambda>e. loaded e (frame_addr t i)) (t\<lparr>physmem := m, counters := counted evs (counters t)\<rparr>)"
    and m: "\<And>x. x < coremapSize t \<Longrightarrow> x \<noteq> i \<Longrightarrow>
      mem_read (frame_addr t x) 4096 m = mem_read (frame_addr t x) 4096 (physmem t)"
  shows "brought_in E n A a j s u (mem_read (frame_addr s i) 4096 m) evs"
proof -
  note G = got_frameD [OF g]
  note I = vm_invD [OF G(2)]
  have et: "pte t a j = pte s a j" "j < length (ptabs t a)" using G(10) [OF a e(1)] G(7) a(2) by simp_all
  have fr: "frame_addr t = frame_addr s" "i < coremapSize t" using same_restD(3,4) [OF G(4)] G(1) by simp_all
  let ?r = "t\<lparr>physmem := m, swapMap := swapMap t, used := used t\<rparr>"
  have "fill_step E n A t u a j i"
    by (rule fill_intro [OF G(2) a(1) et(2) _ fr(2) G(3) _ refl [of ?r], of "counted evs (counters t)"])
       (use I(3,5) e et m u in \<open>simp_all add: stats_ok_def\<close>)
  moreover from fill_content(1) [OF this] have "content E u a j = Some (mem_read (frame_addr s i) 4096 m)"
    using fr(1) by (simp add: u upd_pte_def upd_as_def)
  moreover have "counters u = counted evs (counters t)" by (simp add: u upd_pte_def upd_as_def)
  ultimately show ?thesis using g unfolding brought_in_def by blast
qed

text \<open>What the frame holds before \<open>load_elf_ondemand\<close> writes to it stays where it does not write.\<close>

lemma fault_in_fresh:
  assumes inv: "vm_inv E n A s" and a: "a \<in> A" "j < length (ptabs s a)" and fa: "user_page fa"
    and e: "\<not> in_mem (pte s a j)" "\<not> in_swap (pte s a j)" and room: "room E n a s"
    and cur: "proc_getas s = Some a" and seg: "seg_ok seg" "k < unat (seg_npages seg)"
      "fa = seg_start seg + of_nat k * PAGE_SIZE"
  shows "\<exists>w bs. fault_in E a j seg is_last fa (pt_locked a s) = Ret (pt_locked a w) \<and>
    (is_last \<longrightarrow> bs = replicate 4096 0) \<and>
    brought_in E n A a j s (upd_pte a j (\<lambda>e. e\<lparr>in_mem := True\<rparr>) w) bs
      (if is_last then [PAGE_FAULT_ZEROED] else [ELF_READ, PAGE_FAULT_DISK])"
proof -
  obtain i t where g: "release_pt a (pt_locked a s) = Ret s" "getPages E 1 fa (Some a) s = Ret (frame_addr s i, t)"
    "got_frame E n A a i s t" "\<And>f. acquire_pt a (upd_pte a j f t) = Ret (pt_locked a (upd_pte a j f t))"
    using locked_getPages [OF inv a(1) fa room] by blast
  note G = got_frameD [OF g(3)]
  note I = vm_invD [OF G(2)]
  let ?p = "frame_addr s i"
  have p0: "pte_paddr (pte s a j) = 0"
    using vm_invD(8) [OF inv a(1)] a(2) e by (simp add: as_ok_def ent_ok_def)
  have et: "pte t a j = pte s a j" "j < length (ptabs t a)" using G(10) [OF a e(1)] G(7) a(2) by simp_all
  have fr: "frame_addr t = frame_addr s" "i < coremapSize t" using same_restD(3,4) [OF G(4)] G(1) by simp_all
  define t1 where "t1 = upd_pte a j (\<lambda>e. e\<lparr>pte_paddr := ?p\<rparr>) t"
  have t1: "pte_paddr (pte t1 a j) = ?p" "physmem t1 = physmem t" "proc_getas t1 = Some a" "counters t1 = counters t"
    "stats_ok (t1\<lparr>physmem := m\<rparr>)" for m
    using et(2) cur same_restD(1) [OF G(4)] I(3)
    by (simp_all add: t1_def upd_pte_def) (simp_all add: upd_as_def stats_ok_def)
  have acq: "acquire_pt a t1 = Ret (pt_locked a t1)" using g(4) by (simp add: t1_def)
  have "(pte s a j)\<lparr>pte_paddr := ?p, in_mem := True\<rparr> = loaded (pte s a j) ?p"
    using e(2) by (cases "pte s a j") (simp add: loaded_def)
  then have fin: "upd_pte a j (\<lambda>e. e\<lparr>in_mem := True\<rparr>) (t1\<lparr>physmem := m, counters := c\<rparr>) =
      upd_pte a j (\<lambda>e. loaded e (frame_addr t i)) (t\<lparr>physmem := m, counters := c\<rparr>)" for m c
    using et fr by (simp add: t1_def upd_pte_def upd_as_def)
  show ?thesis
  proof (cases is_last)
    case True
    let ?m = "bzero ?p 4096 (physmem t)"
    let ?w = "bump PAGE_FAULT_ZEROED (t1\<lparr>physmem := ?m\<rparr>)"
    have "fault_in E a j seg is_last fa (pt_locked a s) = Ret (pt_locked a ?w)"
      using True g(1,2) acq e(2) p0 t1
      by (simp add: fault_in_def t1_def [symmetric] pt_locked_commute kern_simps stat_index_defs)
    moreover have "brought_in E n A a j s (upd_pte a j (\<lambda>e. e\<lparr>in_mem := True\<rparr>) ?w)
        (mem_read ?p 4096 ?m) [PAGE_FAULT_ZEROED]"
      by (rule fresh_brought_in [OF g(3) a e]) 
         (use mem_read_other_frame [OF I(6) fr(2)] fr(1) fin t1(4) in \<open>simp_all add: bzero_def bump_def\<close>)
    moreover have "mem_read ?p 4096 ?m = replicate 4096 0"
      using mem_read_write_same [of "replicate 4096 0" ?p "physmem t"] by (simp add: bzero_def)
    ultimately show ?thesis using True by auto
  next
    case False
    obtain x bs where rd: "vop_read E (as_v (aspaces (pt_locked a t1) a)) (seg_offset seg + int k * 4096)
        (elf_want seg k) (disk (pt_locked a t1)) = (x, bs)" by (metis prod.collapse)
    let ?m = "mem_write (?p + elf_at seg k) bs (physmem t)"
    let ?w = "bump PAGE_FAULT_DISK (bump ELF_READ (t1\<lparr>physmem := ?m\<rparr>))"
    have len: "unat (elf_at seg k) + length bs \<le> 4096"
      using vop_read_length [OF swap_invD(1) [OF I(5)] rd] elf_write_bound [OF seg(1), of k] by linarith
    have "fault_in E a j seg is_last fa (pt_locked a s) = Ret (pt_locked a ?w)"
      using False g(1,2) acq e(2) p0 t1 load_elf_ondemand_eq [OF seg(1,2) _ rd, of ?p]
      by (simp add: fault_in_def t1_def [symmetric] seg(3) pt_locked_commute kern_simps stat_index_defs)
    moreover have "brought_in E n A a j s (upd_pte a j (\<lambda>e. e\<lparr>in_mem := True\<rparr>) ?w)
        (mem_read ?p 4096 ?m) [ELF_READ, PAGE_FAULT_DISK]"
      by (rule fresh_brought_in [OF g(3) a e])
         (use mem_read_other_frame_at [OF I(6) fr(2) _ _ len] fr(1) fin t1(4) in \<open>simp_all add: bump_def\<close>)
    ultimately show ?thesis using False by auto
  qed
qed

section \<open>Counting the events of a fault\<close>

lemma counted_append: "counted ys (counted xs c) = counted (xs @ ys) c"
  by (simp add: counted_def)

lemma counted_nth: "i < length c \<Longrightarrow> counted evs c ! i = c ! i + of_nat (count_list evs i)"
  by (induction evs arbitrary: c) (auto simp: nth_list_update)

text \<open>
  What a served fault counts between \<open>TLB_FAULT\<close> and the load of the TLB, and what that load counts.
\<close>

definition fault_events :: "nat list set" where
  "fault_events = {[TLB_RELOAD]} \<union> (\<Union>w\<in>{[], [SWAP_WRITE]}. (\<lambda>e. w @ e) `
     {[SWAP_READ, PAGE_FAULT_DISK], [ELF_READ, PAGE_FAULT_DISK], [PAGE_FAULT_ZEROED]})"

text \<open>Each of the three sums \<open>vm_stats_print\<close> compares grows by as much as its counterpart.\<close>

lemma fault_events_balance:
  assumes "evs \<in> fault_events" "x \<in> {TLB_FAULT_WITH_FREE, TLB_FAULT_WITH_REPLACE}"
  defines "N \<equiv> count_list (TLB_FAULT # evs @ [x])"
  shows "N TLB_FAULT = N TLB_FAULT_WITH_FREE + N TLB_FAULT_WITH_REPLACE"
    "N TLB_FAULT = N PAGE_FAULT_DISK + N PAGE_FAULT_ZEROED + N TLB_RELOAD"
    "N PAGE_FAULT_DISK = N ELF_READ + N SWAP_READ"
  using assms by (auto simp: fault_events_def stat_index_defs)

lemma stats_consistent_iff:
  "stats_consistent s \<longleftrightarrow>
     counters s ! TLB_FAULT = counters s ! TLB_FAULT_WITH_FREE + counters s ! TLB_FAULT_WITH_REPLACE \<and>
     counters s ! TLB_FAULT = counters s ! PAGE_FAULT_DISK + counters s ! PAGE_FAULT_ZEROED + counters s ! TLB_RELOAD \<and>
     counters s ! PAGE_FAULT_DISK = counters s ! ELF_READ + counters s ! SWAP_READ"
  unfolding stats_consistent_def stats_report_of_def Let_def
  by (simp only: stats_report.simps not_not)

lemma fault_events_consistent:
  assumes "length (counters s) = STATS_TOT" "stats_consistent s" "evs \<in> fault_events"
    "x \<in> {TLB_FAULT_WITH_FREE, TLB_FAULT_WITH_REPLACE}"
    "counters t = counted (TLB_FAULT # evs @ [x]) (counters s)"
  shows "stats_consistent t"
proof -
  define N where "N = count_list (TLB_FAULT # evs @ [x])"
  have nth: "counters t ! i = counters s ! i + of_nat (N i)" if "i < STATS_TOT" for i
    using assms(1,5) that counted_nth [of i "counters s" "TLB_FAULT # evs @ [x]"] by (simp add: N_def)
  note bal = fault_events_balance [OF assms(3,4), folded N_def]
  have idx: "TLB_FAULT < STATS_TOT" "TLB_FAULT_WITH_FREE < STATS_TOT" "TLB_FAULT_WITH_REPLACE < STATS_TOT"
    "TLB_RELOAD < STATS_TOT" "PAGE_FAULT_ZEROED < STATS_TOT" "PAGE_FAULT_DISK < STATS_TOT"
    "ELF_READ < STATS_TOT" "SWAP_READ < STATS_TOT"
    by (simp_all add: stat_index_defs)
  note eqs = assms(2) [unfolded stats_consistent_iff]
  note sums = arg_cong2 [where f = "(+)", OF conjunct1 [OF eqs] arg_cong [OF bal(1), of of_nat]]
    arg_cong2 [where f = "(+)", OF conjunct1 [OF conjunct2 [OF eqs]] arg_cong [OF bal(2), of of_nat]]
    arg_cong2 [where f = "(+)", OF conjunct2 [OF conjunct2 [OF eqs]] arg_cong [OF bal(3), of of_nat]]
  show ?thesis
    unfolding stats_consistent_iff idx [THEN nth]
  proof (intro conjI, goal_cases)
    case 1
    from sums(1) show ?case by (simp only: of_nat_add ac_simps)
  next
    case 2
    from sums(2) show ?case by (simp only: of_nat_add ac_simps)
  next
    case 3
    from sums(3) show ?case by (simp only: of_nat_add ac_simps)
  qed
qed

section \<open>Changes to the TLB and the counters alone\<close>

lemma vm_invH_tlb:
  assumes inv: "vm_invH E n A H s" and c: "length c = STATS_TOT"
    and v: "v = s\<lparr>counters := c, tlb_hw := h, tlb_full := f, next_victim := k\<rparr>" and wf: "tlb_wf E v"
    and coh: "\<And>a. a \<in> A \<Longrightarrow> proc_getas s = Some a \<Longrightarrow> coherent (tlb_lookup E v) (ptabs s a)"
  shows "vm_invH E n A H v" "content E v = content E s" "same_rest s v"
proof -
  note D = vm_invD [OF inv]
  show sr: "same_rest s v" by (simp add: same_rest_def v)
  note R = same_restD [OF sr]
  have sw: "swap_inv E n v" "slot_bytes E v = slot_bytes E s"
    using D(5) swap_inv_cong(1) [of v s E n] swap_inv_cong(2) [of v s E] by (simp_all add: v)
  have "core_ok v" by (rule core_ok_cong [OF _ _ _ _ _ D(6)]) (use core_okD [OF D(6)] in \<open>simp_all add: v\<close>)
  moreover have "stats_ok v" using D(3) c by (simp add: stats_ok_def v)
  moreover have eq: "aspaces v = aspaces s" "coremap v = coremap s" "physmem v = physmem s" by (simp_all add: v)
  ultimately show "vm_invH E n A H v"
    using D(1,4,7-10) wf coh sw R(1-5) by (simp add: vm_invH_def)
  show "content E v = content E s" by (intro ext) (simp add: content_def eq sw)
qed

lemma vm_inv_bump:
  assumes inv: "vm_invH E n A H s"
  shows "vm_invH E n A H (bump c s)" "content E (bump c s) = content E s" "same_rest s (bump c s)"
    "tlb_lookup E (bump c s) = tlb_lookup E s" "counters (bump c s) = counted [c] (counters s)"
proof -
  note D = vm_invD [OF inv]
  show lk: "tlb_lookup E (bump c s) = tlb_lookup E s" using tlb_cong(1) [of "bump c s" s E] by (simp add: bump_def)
  have wf: "tlb_wf E (bump c s)" using tlb_cong(2) [of "bump c s" s E] D(2) by (simp add: bump_def)
  have eq: "bump c s = s\<lparr>counters := counted [c] (counters s), tlb_hw := tlb_hw s, tlb_full := tlb_full s,
      next_victim := next_victim s\<rparr>" by (simp add: bump_def)
  note * = vm_invH_tlb [OF inv _ eq wf, unfolded lk]
  show "vm_invH E n A H (bump c s)" "content E (bump c s) = content E s" "same_rest s (bump c s)"
    by (rule *, use D in \<open>simp_all add: stats_ok_def\<close>)+
  show "counters (bump c s) = counted [c] (counters s)" by (simp add: counters_bump)
qed

lemma tlb_load_inv:
  assumes inv: "vm_inv E n A u" and cur: "proc_getas u = Some a" and a: "a \<in> A"
    and j: "j < length (ptabs u a)" "in_mem (pte u a j)" "user_page (pte_vaddr (pte u a j))"
    and miss: "tlb_lookup E u (pte_vaddr (pte u a j)) = None"
  defines "lo \<equiv> tlb_entrylo (pte_paddr (pte u a j)) (pte_rwx (pte u a j) AND 2 = 0)"
  shows "\<exists>v x. tlb_loadentry E (pte_vaddr (pte u a j)) (pte_paddr (pte u a j)) (pte_rwx (pte u a j) AND 2 = 0) u =
      Ret (None, v) \<and> vm_inv E n A v \<and> content E v = content E u \<and> same_rest u v \<and> aspaces v = aspaces u \<and>
      tlb_lookup E v (pte_vaddr (pte u a j)) = Some lo \<and>
      (\<forall>va e. tlb_lookup E v va = Some e \<longrightarrow> va = pte_vaddr (pte u a j) \<or> tlb_lookup E u va = Some e) \<and>
      x \<in> {TLB_FAULT_WITH_FREE, TLB_FAULT_WITH_REPLACE} \<and> counters v = counted [x] (counters u)"
proof -
  note D = vm_invD [OF inv]
  let ?fa = "pte_vaddr (pte u a j)"
  obtain v where run: "tlb_loadentry E ?fa (pte_paddr (pte u a j)) (pte_rwx (pte u a j) AND 2 = 0) u = Ret (None, v)"
    using tlb_loadentry_eq [OF D(3)] by blast
  obtain x h f k where x: "x \<in> {TLB_FAULT_WITH_FREE, TLB_FAULT_WITH_REPLACE}"
    and v: "v = u\<lparr>counters := counted [x] (counters u), tlb_hw := h, tlb_full := f, next_victim := k\<rparr>"
  proof (cases "tlb_free E u")
    case None
    then show thesis
      using run tlb_loadentry_eq [OF D(3), of E] by (intro that [where x = TLB_FAULT_WITH_REPLACE and h = "tlb_hw v" and f = "tlb_full v" and k = "next_victim v"]) (auto simp: bump_def)
  next
    case (Some i)
    then show thesis
      using run tlb_loadentry_eq [OF D(3), of E]
      by (intro that [where x = TLB_FAULT_WITH_FREE and h = "tlb_hw v" and f = "tlb_full v" and k = "next_victim v"]) (auto simp: bump_def)
  qed
  have wf: "tlb_wf E v" by (rule tlb_loadentry_wf [OF D(3,1,2) run j(3) miss])
  note lk = tlb_loadentry_lookup [OF D(3,1,2) run j(3) miss]
  have old: "va = ?fa \<and> e = lo \<or> tlb_lookup E u va = Some e" if "tlb_lookup E v va = Some e" for va e
    using that lk by (auto simp: lo_def split: if_splits)
  have coh: "coherent (tlb_lookup E v) (ptabs u b)" if "b \<in> A" "proc_getas u = Some b" for b
    using that cur coherent_load [OF D(11) [OF a cur] j(1,2), of "tlb_lookup E v"] old by (auto simp: lo_def)
  note * = vm_invH_tlb [OF inv _ v wf coh]
  have "length (counted [x] (counters u)) = STATS_TOT" using D(3) by (simp add: stats_ok_def)
  note ** = * [OF this]
  have "tlb_lookup E v ?fa = Some lo" by (simp add: lk lo_def)
  moreover have "aspaces v = aspaces u" "counters v = counted [x] (counters u)" by (simp_all add: v)
  ultimately show ?thesis using run ** x old by (intro exI [of _ v] exI [of _ x]) blast
qed

section \<open>The handler serves the fault\<close>

lemma room_bump [simp]: "room E n a (bump c s) = room E n a s"
  by (simp add: room_def bump_def)

text \<open>The page tables have the same pages, with the same rights.\<close>

definition same_shape ::
  "nat set \<Rightarrow> ('h, 'd, 'b, 'a) core_st_scheme \<Rightarrow> ('h, 'd, 'b, 'a) core_st_scheme \<Rightarrow> bool" where
  "same_shape A s t \<longleftrightarrow> (\<forall>b\<in>A. length (ptabs t b) = length (ptabs s b) \<and>
     (\<forall>k<length (ptabs s b). pte_vaddr (pte t b k) = pte_vaddr (pte s b k) \<and> pte_rwx (pte t b k) = pte_rwx (pte s b k)))"

lemma brought_in_ready:
  assumes b: "brought_in E n A a j s u bs evs" and j: "a \<in> A" "j < length (ptabs s a)"
  shows "vm_inv E n A u" "in_mem (pte u a j)" "pte_vaddr (pte u a j) = pte_vaddr (pte s a j)"
    "pte_rwx (pte u a j) = pte_rwx (pte s a j)" "length (ptabs u b) = length (ptabs s b)"
    "same_rest s u" "pages_kept E (all_pages A s - {(a, j)}) s u" "content E u a j = Some bs"
    "tlb_lookup E u va = Some e \<Longrightarrow> tlb_lookup E s va = Some e"
    "\<exists>w\<in>{[], [SWAP_WRITE]}. counters u = counted (w @ evs) (counters s)" "same_shape A s u"
proof -
  from b obtain i t where g: "got_frame E n A a i s t" and f: "fill_step E n A t u a j i"
    and c: "content E u a j = Some bs" "counters u = counted evs (counters t)"
    unfolding brought_in_def by blast
  note G = got_frameD [OF g] and F = fill_stepD [OF f]
  show "vm_inv E n A u" "content E u a j = Some bs" using fill_invariant [OF f] c by simp_all
  show "in_mem (pte u a j)" "pte_vaddr (pte u a j) = pte_vaddr (pte s a j)"
    "pte_rwx (pte u a j) = pte_rwx (pte s a j)"
    using F(3) F(17) [of a] G(8,9) [OF j] by simp_all
  show "length (ptabs u b) = length (ptabs s b)" using F(17) [of b] G(7) [of b] by (cases "b = a") simp_all
  show "same_shape A s u"
    unfolding same_shape_def
  proof (intro ballI conjI allI impI)
    fix b k assume b: "b \<in> A"
    show "length (ptabs u b) = length (ptabs s b)" using F(17) [of b] G(7) [of b] by (cases "b = a") simp_all
    assume k: "k < length (ptabs s b)"
    then have "k < length (ptabs t b)" using G(7) [of b] by simp
    then show "pte_vaddr (pte u b k) = pte_vaddr (pte s b k)" "pte_rwx (pte u b k) = pte_rwx (pte s b k)"
      using F(3) F(17) [of b] G(8,9) [OF b k] by (auto simp: nth_list_update)
  qed
  show "same_rest s u" using same_rest_trans [OF G(4) F(7)] .
  show "pages_kept E (all_pages A s - {(a, j)}) s u"
  proof -
    have "content E u b k = content E t b k" if "(b, k) \<in> all_pages A s - {(a, j)}" for b k
      using that fill_content(2) [OF f, of b k] G(7) [of b] by (auto simp: all_pages_def)
    then show ?thesis using G(6) unfolding pages_kept_def by force
  qed
  have "tlb_lookup E u = tlb_lookup E t" using tlb_cong(1) [of u t E] F(10) by simp
  then show "tlb_lookup E s va = Some e" if "tlb_lookup E u va = Some e" using that G(12) by simp
  show "\<exists>w\<in>{[], [SWAP_WRITE]}. counters u = counted (w @ evs) (counters s)"
    using G(13) c(2) by (auto simp: counters_bump)
qed

lemma segs_last: "segs_ok (g # segs) \<Longrightarrow> seg_start g \<le> seg_start (last (g # segs))"
proof (induction segs arbitrary: g)
  case (Cons h segs)
  then have "seg_start h \<le> seg_start (last (h # segs))" "seg_end g \<le> unat (seg_start h)" by auto
  moreover from this(2) have "seg_start g \<le> seg_start h" by (simp add: seg_end_def word_le_nat_alt)
  ultimately show ?case by (metis last_ConsR list.distinct(1) order_trans)
qed simp

lemma seg_search_last:
  "segs_ok segs \<Longrightarrow> seg_search fa np segs = Some (m, seg, l) \<Longrightarrow> seg_start (last segs) \<le> fa \<Longrightarrow> l"
proof (induction fa np segs rule: seg_search.induct)
  case (3 fa np g h rest)
  have "seg_start h \<le> fa" using segs_last [of h rest] 3(2,4) by (simp split: if_splits)
  then have "\<not> fa < seg_start h" by simp
  with 3 show ?case by (simp only: seg_search.simps if_False segs_ok.simps last.simps list.distinct) simp
qed simp_all

text \<open>
  \<open>fault_page\<close>: after the counter, the segment walk and the lock, the handler works on entry \<open>j\<close>.
\<close>

lemma vm_fault_found:
  assumes inv: "vm_inv E n A s" and cur: "proc_getas s = Some a" and a: "a \<in> A" and ft: "ft \<in> {VM_FAULT_READ, VM_FAULT_WRITE}"
    and j: "j < length (ptabs s a)" "pte_vaddr (pte s a j) = va AND PAGE_FRAME"
  shows "\<exists>seg is_last k. seg_ok seg \<and> k < unat (seg_npages seg) \<and>
    va AND PAGE_FRAME = seg_start seg + of_nat k * PAGE_SIZE \<and>
    (seg_start (last (as_segment (aspaces s a))) \<le> va AND PAGE_FRAME \<longrightarrow> is_last) \<and>
    vm_fault E ft va s = (let s1 = bump TLB_FAULT s in
      kbind (if \<not> in_mem (pte s a j)
             then kbind (fault_in E a j seg is_last (va AND PAGE_FRAME) (pt_locked a s1))
                    (\<lambda>s3. Ret (upd_pte a j (\<lambda>e. e\<lparr>in_mem := True\<rparr>) s3))
             else Ret (pt_locked a (bump TLB_RELOAD s1))) (\<lambda>s4.
      kbind (tlb_loadentry E (va AND PAGE_FRAME) (pte_paddr (pte s4 a j)) (pte_rwx (pte s4 a j) AND 2 = 0) s4)
        (\<lambda>(result, s5). kbind (release_pt a s5) (\<lambda>s6. Ret (result, s6)))))"
proof -
  note D = vm_invD [OF inv]
  have ok: "as_ok (aspaces s a)" using D(8) [OF a] .
  then have segs: "segs_ok (as_segment (aspaces s a))" and idle: "lock_idle (pt_lock (aspaces s a))"
    by (simp_all add: as_ok_def)
  from find_page [OF ok j(1)] obtain np seg l k
    where f: "seg_search (va AND PAGE_FRAME) 0 (as_segment (aspaces s a)) = Some (np, seg, l)"
      "page_search (va AND PAGE_FRAME) np (seg_npages seg) (ptabs s a) = Ret (Some j)"
      "seg \<in> set (as_segment (aspaces s a))" "k < unat (seg_npages seg)"
      "va AND PAGE_FRAME = seg_start seg + of_nat k * PAGE_SIZE"
    unfolding j(2) by blast
  let ?s1 = "bump TLB_FAULT s"
  have b: "aspaces ?s1 = aspaces s" "proc_getas ?s1 = Some a" "curproc ?s1 \<noteq> None" "stats_ok ?s1" "\<not> in_interrupt ?s1"
    using cur D(3) can_lockD(2) [OF D(4)]
    by (auto simp: bump_def proc_getas_def curproc_def stats_ok_def in_interrupt_def split: option.splits)
  have inc: "vm_stats_inc TLB_FAULT s = Ret ?s1"
    "vm_stats_inc TLB_RELOAD (pt_locked a ?s1) = Ret (pt_locked a (bump TLB_RELOAD ?s1))"
    using D(3) b(4) by (simp_all add: kern_simps stat_index_defs pt_locked_bump)
  have acq: "acquire_pt a ?s1 = Ret (pt_locked a ?s1)" using b idle by (intro acquire_pt_idle) simp_all
  have "vm_fault E ft va s = (let s1 = ?s1 in
      kbind (if \<not> in_mem (pte s a j)
             then kbind (fault_in E a j seg l (va AND PAGE_FRAME) (pt_locked a s1))
                    (\<lambda>s3. Ret (upd_pte a j (\<lambda>e. e\<lparr>in_mem := True\<rparr>) s3))
             else Ret (pt_locked a (bump TLB_RELOAD s1))) (\<lambda>s4.
      kbind (tlb_loadentry E (va AND PAGE_FRAME) (pte_paddr (pte s4 a j)) (pte_rwx (pte s4 a j) AND 2 = 0) s4)
        (\<lambda>(result, s5). kbind (release_pt a s5) (\<lambda>s6. Ret (result, s6)))))"
    using ft b f(1,2) inc acq by (auto simp: vm_fault_def Let_def)
  then show ?thesis using seg_search_last [OF segs f(1)] segs_ok_all [OF segs f(3)] f(4,5)
    by (intro exI [of _ seg] exI [of _ l] exI [of _ k]) blast
qed

definition served ::
  "('h, 'd, 'b, 'x) os_ops_scheme \<Rightarrow> nat \<Rightarrow> nat set \<Rightarrow> nat \<Rightarrow> nat \<Rightarrow> ('h, 'd, 'b, 'a) core_st_scheme \<Rightarrow>
     ('h, 'd, 'b, 'a) core_st_scheme \<Rightarrow> bool" where
  "served E n A a j s t \<longleftrightarrow>
     vm_inv E n A t \<and> same_rest s t \<and> same_shape A s t \<and> in_mem (pte t a j) \<and>
     tlb_lookup E t (pte_vaddr (pte s a j)) = Some (tlb_entrylo (pte_paddr (pte t a j)) (readonly (pte s a j))) \<and>
     (\<forall>va e. tlb_lookup E t va = Some e \<longrightarrow> va = pte_vaddr (pte s a j) \<or> tlb_lookup E s va = Some e) \<and>
     pages_kept E (all_pages A s - {(a, j)}) s t \<and>
     (content E s a j \<noteq> None \<longrightarrow> content E t a j = content E s a j) \<and>
     (content E s a j = None \<longrightarrow> seg_start (last (as_segment (aspaces s a))) \<le> pte_vaddr (pte s a j) \<longrightarrow>
        content E t a j = Some (replicate 4096 0)) \<and>
     (\<exists>evs x. evs \<in> fault_events \<and> x \<in> {TLB_FAULT_WITH_FREE, TLB_FAULT_WITH_REPLACE} \<and>
        counters t = counted (TLB_FAULT # evs @ [x]) (counters s))"

text \<open>The part of the handler before the TLB is loaded: the page is in memory afterwards.\<close>

lemma page_brought_in:
  assumes inv: "vm_inv E n A s" and cur: "proc_getas s = Some a" and a: "a \<in> A" and j: "j < length (ptabs s a)"
    and fa: "pte_vaddr (pte s a j) = fa" and out: "\<not> in_mem (pte s a j)" and room: "room E n a s"
    and seg: "seg_ok seg" "k < unat (seg_npages seg)" "fa = seg_start seg + of_nat k * PAGE_SIZE"
  shows "\<exists>w bs evs. fault_in E a j seg is_last fa (pt_locked a s) = Ret (pt_locked a w) \<and>
    brought_in E n A a j s (upd_pte a j (\<lambda>e. e\<lparr>in_mem := True\<rparr>) w) bs evs \<and>
    (content E s a j \<noteq> None \<longrightarrow> content E s a j = Some bs) \<and>
    (content E s a j = None \<longrightarrow> is_last \<longrightarrow> bs = replicate 4096 0) \<and>
    evs \<in> {[SWAP_READ, PAGE_FAULT_DISK], [ELF_READ, PAGE_FAULT_DISK], [PAGE_FAULT_ZEROED]}"
proof -
  have up: "user_page fa" using vm_invD(8) [OF inv a] j fa by (auto simp: as_ok_def ent_ok_def)
  show ?thesis
  proof (cases "in_swap (pte s a j)")
    case True
    from fault_in_swap [OF inv a j up out True room, of seg is_last] obtain w bs
      where "fault_in E a j seg is_last fa (pt_locked a s) = Ret (pt_locked a w)" "content E s a j = Some bs"
        "brought_in E n A a j s (upd_pte a j (\<lambda>e. e\<lparr>in_mem := True\<rparr>) w) bs [SWAP_READ, PAGE_FAULT_DISK]"
      by blast
    then show ?thesis
      by (intro exI [of _ w] exI [of _ bs] exI [of _ "[SWAP_READ, PAGE_FAULT_DISK]"]) simp
  next
    case False
    then have "content E s a j = None" using out by (simp add: content_def)
    moreover obtain w bs where "fault_in E a j seg is_last fa (pt_locked a s) = Ret (pt_locked a w)"
      "is_last \<longrightarrow> bs = replicate 4096 0" "brought_in E n A a j s (upd_pte a j (\<lambda>e. e\<lparr>in_mem := True\<rparr>) w) bs
        (if is_last then [PAGE_FAULT_ZEROED] else [ELF_READ, PAGE_FAULT_DISK])"
      using fault_in_fresh [OF inv a j up out False room cur seg, of is_last] by blast
    ultimately show ?thesis
      by (intro exI [of _ w] exI [of _ bs]
          exI [of _ "if is_last then [PAGE_FAULT_ZEROED] else [ELF_READ, PAGE_FAULT_DISK]"]) simp
  qed
qed


text \<open>\<open>resident\<close> is what holds of the page when the TLB is about to be loaded.\<close>

definition resident ::
  "('h, 'd, 'b, 'x) os_ops_scheme \<Rightarrow> nat \<Rightarrow> nat set \<Rightarrow> nat \<Rightarrow> nat \<Rightarrow> bool \<Rightarrow> ('h, 'd, 'b, 'a) core_st_scheme \<Rightarrow>
     ('h, 'd, 'b, 'a) core_st_scheme \<Rightarrow> bool" where
  "resident E n A a j is_last s u \<longleftrightarrow>
     vm_inv E n A u \<and> same_rest s u \<and> same_shape A s u \<and> in_mem (pte u a j) \<and> length (ptabs u a) = length (ptabs s a) \<and>
     pte_vaddr (pte u a j) = pte_vaddr (pte s a j) \<and> pte_rwx (pte u a j) = pte_rwx (pte s a j) \<and>
     pages_kept E (all_pages A s - {(a, j)}) s u \<and>
     (content E s a j \<noteq> None \<longrightarrow> content E u a j = content E s a j) \<and>
     (content E s a j = None \<longrightarrow> is_last \<longrightarrow> content E u a j = Some (replicate 4096 0)) \<and>
     (\<forall>va e. tlb_lookup E u va = Some e \<longrightarrow> tlb_lookup E s va = Some e) \<and>
     (\<exists>evs\<in>fault_events. counters u = counted evs (counters s))"

lemma resident_reload:
  assumes inv: "vm_inv E n A s" and j: "in_mem (pte s a j)"
  shows "resident E n A a j is_last s (bump TLB_RELOAD s)"
proof -
  have "aspaces (bump TLB_RELOAD s) = aspaces s" by (simp add: bump_def)
  moreover have "content E s a j \<noteq> None" using j by (simp add: content_def)
  ultimately show ?thesis
    using vm_inv_bump [OF inv, of TLB_RELOAD] j
    by (auto simp: resident_def pages_kept_def fault_events_def same_shape_def)
qed

lemma resident_fault:
  assumes inv: "vm_inv E n A s" and cur: "proc_getas s = Some a" and a: "a \<in> A" and j: "j < length (ptabs s a)"
    and fa: "pte_vaddr (pte s a j) = fa" and out: "\<not> in_mem (pte s a j)" and room: "room E n a s"
    and seg: "seg_ok seg" "k < unat (seg_npages seg)" "fa = seg_start seg + of_nat k * PAGE_SIZE"
  shows "\<exists>w. fault_in E a j seg is_last fa (pt_locked a s) = Ret (pt_locked a w) \<and>
    resident E n A a j is_last s (upd_pte a j (\<lambda>e. e\<lparr>in_mem := True\<rparr>) w)"
proof -
  obtain w bs evs where f: "fault_in E a j seg is_last fa (pt_locked a s) = Ret (pt_locked a w)"
    "brought_in E n A a j s (upd_pte a j (\<lambda>e. e\<lparr>in_mem := True\<rparr>) w) bs evs"
    "content E s a j \<noteq> None \<longrightarrow> content E s a j = Some bs"
    "content E s a j = None \<longrightarrow> is_last \<longrightarrow> bs = replicate 4096 0"
    "evs \<in> {[SWAP_READ, PAGE_FAULT_DISK], [ELF_READ, PAGE_FAULT_DISK], [PAGE_FAULT_ZEROED]}"
    using page_brought_in [OF assms, of is_last] by (elim exE conjE)
  note B = brought_in_ready [OF f(2) a j]
  obtain w' where w': "w' \<in> {[], [SWAP_WRITE]}" "counters (upd_pte a j (\<lambda>e. e\<lparr>in_mem := True\<rparr>) w) = counted (w' @ evs) (counters s)"
    using B(10) by blast
  have "w' @ evs \<in> fault_events" using w'(1) f(5) unfolding fault_events_def by blast
  with B f(3,4) w'(2) have "resident E n A a j is_last s (upd_pte a j (\<lambda>e. e\<lparr>in_mem := True\<rparr>) w)"
    unfolding resident_def by auto
  with f(1) show ?thesis by blast
qed

lemma resident_served:
  assumes inv: "vm_inv E n A s" and cur: "proc_getas s = Some a" and a: "a \<in> A" and j: "j < length (ptabs s a)"
    and miss: "tlb_lookup E s (pte_vaddr (pte s a j)) = None"
    and r: "resident E n A a j is_last (bump TLB_FAULT s) u"
    and last: "seg_start (last (as_segment (aspaces s a))) \<le> pte_vaddr (pte s a j) \<Longrightarrow> is_last"
  shows "\<exists>t. tlb_loadentry E (pte_vaddr (pte s a j)) (pte_paddr (pte u a j)) (pte_rwx (pte u a j) AND 2 = 0) u = Ret (None, t) \<and>
    served E n A a j s t"
proof -
  note B = vm_inv_bump [OF inv, of TLB_FAULT]
  have as1: "aspaces (bump TLB_FAULT s) = aspaces s" by (simp add: bump_def)
  have sr: "same_rest s u" using r same_rest_trans [OF B(3)] by (simp add: resident_def)
  have u: "vm_inv E n A u" "in_mem (pte u a j)" "j < length (ptabs u a)"
    "pte_vaddr (pte u a j) = pte_vaddr (pte s a j)" "pte_rwx (pte u a j) = pte_rwx (pte s a j)"
    using r j as1 by (simp_all add: resident_def)
  have curu: "proc_getas u = Some a" using same_restD(1) [OF sr] cur by simp
  have up: "user_page (pte_vaddr (pte s a j))"
    using vm_invD(8) [OF inv a] j by (auto simp: as_ok_def ent_ok_def)
  have sub: "tlb_lookup E u va = Some e \<Longrightarrow> tlb_lookup E s va = Some e" for va e
    using r B(4) by (simp add: resident_def)
  then have miss': "tlb_lookup E u (pte_vaddr (pte s a j)) = None" using miss by (metis option.exhaust)
  obtain v x where v: "tlb_loadentry E (pte_vaddr (pte s a j)) (pte_paddr (pte u a j)) (pte_rwx (pte u a j) AND 2 = 0) u = Ret (None, v)"
    "vm_inv E n A v" "content E v = content E u" "same_rest u v" "aspaces v = aspaces u"
    "tlb_lookup E v (pte_vaddr (pte s a j)) = Some (tlb_entrylo (pte_paddr (pte u a j)) (pte_rwx (pte u a j) AND 2 = 0))"
    "\<forall>va e. tlb_lookup E v va = Some e \<longrightarrow> va = pte_vaddr (pte s a j) \<or> tlb_lookup E u va = Some e"
    "x \<in> {TLB_FAULT_WITH_FREE, TLB_FAULT_WITH_REPLACE}" "counters v = counted [x] (counters u)"
    using tlb_load_inv [OF u(1) curu a u(3,2), unfolded u(4), OF up miss'] by (elim exE conjE)
  obtain evs where evs: "evs \<in> fault_events" "counters u = counted evs (counters (bump TLB_FAULT s))"
    using r unfolding resident_def by blast
  then have cv: "counters v = counted (TLB_FAULT # evs @ [x]) (counters s)"
    using v(9) B(5) counted_append [of "[x]" "[TLB_FAULT] @ evs"] counted_append [of evs "[TLB_FAULT]"] by simp
  have sh: "same_shape A s v" using r v(5) as1 by (simp add: resident_def same_shape_def)
  have pk: "pages_kept E (all_pages A s - {(a, j)}) s v"
    using r B(2) v(3) as1 by (simp add: resident_def pages_kept_def all_pages_def)
  have cont: "content E s a j \<noteq> None \<longrightarrow> content E v a j = content E s a j"
    "content E s a j = None \<longrightarrow> is_last \<longrightarrow> content E v a j = Some (replicate 4096 0)"
    using r B(2) v(3) by (simp_all add: resident_def)
  have "served E n A a j s v"
    unfolding served_def
  proof (intro conjI allI impI)
    show "tlb_lookup E v (pte_vaddr (pte s a j)) = Some (tlb_entrylo (pte_paddr (pte v a j)) (readonly (pte s a j)))"
      using v(5,6) u(5) by (simp add: readonly_def)
    show "\<exists>evs x. evs \<in> fault_events \<and> x \<in> {TLB_FAULT_WITH_FREE, TLB_FAULT_WITH_REPLACE} \<and>
        counters v = counted (TLB_FAULT # evs @ [x]) (counters s)"
      using evs(1) v(8) cv by (intro exI [of _ evs] exI [of _ x] conjI)
    fix va e assume "tlb_lookup E v va = Some e"
    then show "va = pte_vaddr (pte s a j) \<or> tlb_lookup E s va = Some e" using v(7) sub by blast
  qed (use v(2,5) u(2) same_rest_trans [OF sr v(4)] sh pk cont last in simp_all)
  with v(1) show ?thesis by blast
qed

lemma vm_fault_serves:
  assumes inv: "vm_inv E n A s" and cur: "proc_getas s = Some a" and a: "a \<in> A" and ft: "ft \<in> {VM_FAULT_READ, VM_FAULT_WRITE}"
    and j: "j < length (ptabs s a)" "pte_vaddr (pte s a j) = va AND PAGE_FRAME"
    and miss: "tlb_lookup E s (va AND PAGE_FRAME) = None" and room: "in_mem (pte s a j) \<or> room E n a s"
  shows "\<exists>t. vm_fault E ft va s = Ret (None, t) \<and> served E n A a j s t"
proof -
  let ?fa = "va AND PAGE_FRAME" and ?s1 = "bump TLB_FAULT s"
  note B = vm_inv_bump [OF inv, of TLB_FAULT]
  have as1: "aspaces ?s1 = aspaces s" by (simp add: bump_def)
  have cur1: "proc_getas ?s1 = Some a" using same_restD(1) [OF B(3)] cur by simp
  from vm_fault_found [OF inv cur a ft j] obtain seg l k
    where seg: "seg_ok seg" "k < unat (seg_npages seg)" "?fa = seg_start seg + of_nat k * PAGE_SIZE"
      and l: "seg_start (last (as_segment (aspaces s a))) \<le> ?fa \<longrightarrow> l"
      and run: "vm_fault E ft va s = (let s1 = ?s1 in
      kbind (if \<not> in_mem (pte s a j)
             then kbind (fault_in E a j seg l ?fa (pt_locked a s1))
                    (\<lambda>s3. Ret (upd_pte a j (\<lambda>e. e\<lparr>in_mem := True\<rparr>) s3))
             else Ret (pt_locked a (bump TLB_RELOAD s1))) (\<lambda>s4.
      kbind (tlb_loadentry E ?fa (pte_paddr (pte s4 a j)) (pte_rwx (pte s4 a j) AND 2 = 0) s4)
        (\<lambda>(result, s5). kbind (release_pt a s5) (\<lambda>s6. Ret (result, s6)))))"
    by (elim exE conjE)
  obtain u where u: "resident E n A a j l ?s1 u"
    and step: "(if \<not> in_mem (pte s a j)
             then kbind (fault_in E a j seg l ?fa (pt_locked a ?s1))
                    (\<lambda>s3. Ret (upd_pte a j (\<lambda>e. e\<lparr>in_mem := True\<rparr>) s3))
             else Ret (pt_locked a (bump TLB_RELOAD ?s1))) = Ret (pt_locked a u)"
  proof (cases "in_mem (pte s a j)")
    case True
    then show thesis using resident_reload [OF B(1), of a j l] as1 by (intro that) simp_all
  next
    case False
    have "\<exists>w. fault_in E a j seg l ?fa (pt_locked a ?s1) = Ret (pt_locked a w) \<and>
        resident E n A a j l ?s1 (upd_pte a j (\<lambda>e. e\<lparr>in_mem := True\<rparr>) w)"
      by (rule resident_fault [OF B(1) cur1 a _ _ _ _ seg]) (use False j room as1 in simp_all)
    then show thesis using False by (elim exE conjE) (rule that, simp_all add: pt_locked_upd_pte)
  qed
  have uinv: "vm_inv E n A u" using u by (simp add: resident_def)
  obtain t where t: "tlb_loadentry E ?fa (pte_paddr (pte u a j)) (pte_rwx (pte u a j) AND 2 = 0) u = Ret (None, t)"
    "served E n A a j s t"
    using resident_served [OF inv cur a j(1) _ u] miss l j(2) by auto
  have "lock_idle (pt_lock (aspaces t a))"
    using vm_invD(8) [of E n A "{}" t a] t(2) a by (simp add: served_def as_ok_def)
  then have "release_pt a (pt_locked a t) = Ret t" by (rule release_pt_locked)
  moreover have "tlb_loadentry E ?fa (pte_paddr (pte u a j)) (pte_rwx (pte u a j) AND 2 = 0) (pt_locked a u) = Ret (None, pt_locked a t)"
    using tlb_loadentry_locked [OF vm_invD(3) [OF uinv] t(1)] .
  ultimately have "vm_fault E ft va s = Ret (None, t)"
    unfolding run Let_def step by simp
  with t(2) show ?thesis by blast
qed

end
