(* ===== verification/Sim_Vm.thy ===== *)
theory Sim_Vm
  imports Vm_Correct
begin

text \<open>
  A state of the VM system on the concrete machine: one process whose address space has a page of
  text and a page of stack, and one frame, which holds the page of text. A fault on the stack has
  to evict that page.
\<close>

definition sim_seg :: "vaddr_t \<Rightarrow> w32 \<Rightarrow> segment_t" where
  "sim_seg v rwx = \<lparr>seg_start = v, seg_size = 4096, seg_filesize = 4096, seg_npages = 1, seg_rwx = rwx,
     seg_offset = 0, initoffset = 0\<rparr>"

definition sim_as :: "pt_entry list \<Rightarrow> addrspace" where
  "sim_as pt = \<lparr>as_pt = 0x80000000, as_ptab = pt, as_segment = [sim_seg 0x400000 7, sim_seg 0x7FFFF000 6],
     as_v = 1, npages = 2, pt_lock = sim_lock ''PT_lock'', progname = Some ''prog''\<rparr>"

definition sim_frame :: "c_entry" where
  "sim_frame = \<lparr>c_vaddr = 0x400002, c_as = Some 0, allocpages = 1\<rparr>"

definition sim_vm :: "nat list \<Rightarrow> pt_entry list \<Rightarrow> (sim_tlb, sim_disk, sim_bitmap) core_st" where
  "sim_vm ss pt = sim_boot 4 ss (as_st_ext (\<lambda>_. sim_as pt) 1
     (core_st_ext [sim_frame] 1 0 0x20000 0x21000 True 0 ()))"

definition sim_pt :: "pt_entry list" where
  "sim_pt = [\<lparr>pte_paddr = 0x20000, pte_vaddr = 0x400000, in_mem = True, in_swap = False, pte_rwx = 7\<rparr>,
     \<lparr>pte_paddr = 0, pte_vaddr = 0x7FFFF000, in_mem = False, in_swap = False, pte_rwx = 6\<rparr>]"

lemma sim_vm_fields [simp]:
  "aspaces (sim_vm ss pt) a = sim_as pt" "coremap (sim_vm ss pt) = [sim_frame]" "coremapSize (sim_vm ss pt) = 1"
  "firstpaddr (sim_vm ss pt) = 0x20000" "coremapActive (sim_vm ss pt)" "next_svic (sim_vm ss pt) = 0"
  by (simp_all add: sim_vm_def sim_boot_def)

lemma sim_boot_no_tlb [simp]: "tlb_lookup (sim_opsx k x) (sim_boot n ss m) = Map.empty"
  by (intro ext) (simp add: tlb_lookup_None_iff tlb_slot_def)

lemma sim_boot_slots [simp]: "dom (slot_bytes (sim_opsx n x) (sim_boot n ss m)) = set ss"
  by (simp add: dom_slot_bytes swap_slots_def)

lemma sim_boot_as [simp]: "proc_getas (sim_boot n ss m) = Some 0"
  by (simp add: proc_getas_def curproc_def sim_thread_def sim_proc_def)

lemmas sim_vm_simps = sim_boot_ready sim_boot_tlb_wf sim_boot_no_tlb sim_boot_slots sim_boot_as

lemma sim_vm_state [simp]:
  "tlb_wf (sim_opsx 4 x) (sim_vm ss pt)" "stats_ok (sim_vm ss pt)" "can_lock (sim_vm ss pt)"
  "tlb_lookup (sim_opsx 4 x) (sim_vm ss pt) = Map.empty" "dom (slot_bytes (sim_opsx 4 x) (sim_vm ss pt)) = set ss"
  "proc_getas (sim_vm ss pt) = Some 0" "frame_addr (sim_vm ss pt) i = of_nat i * PAGE_SIZE + 0x20000"
  "swapMap (sim_vm ss pt) = (\<lambda>i. i \<in> set ss)"
  by (simp_all add: frame_addr_def) (simp_all add: sim_vm_def)

lemma sim_seg_simps [simp]:
  "seg_start (sim_seg v rwx) = v" "seg_npages (sim_seg v rwx) = 1" "seg_rwx (sim_seg v rwx) = rwx"
  "seg_ok (sim_seg v rwx) \<longleftrightarrow> unat v mod 4096 = 0 \<and> unat v + 4096 \<le> 2 ^ 31" "seg_end (sim_seg v rwx) = unat v + 4096"
  by (simp_all add: sim_seg_def seg_ok_def seg_end_def)

lemma sim_as_simps [simp]: "as_ptab (sim_as pt) = pt" "as_segment (sim_as pt) = [sim_seg 0x400000 7, sim_seg 0x7FFFF000 6]"
  "npages (sim_as pt) = 2" "pt_lock (sim_as pt) = sim_lock ''PT_lock''"
  by (simp_all add: sim_as_def)

lemma sim_pt_ok: "as_ok (sim_as sim_pt)"
  by (simp add: as_ok_def sim_pt_def ent_ok_def user_page_def PAGE_FRAME_def pt_of_segments_def)

lemma sim_vm_inv: "vm_inv (sim_opsx 4 x) 4 {0} (sim_vm [] sim_pt)"
proof -
  have "core_ok (sim_vm [] sim_pt)" by (simp add: core_ok_def sim_frame_def)
  moreover have "mm_ok (frame_addr (sim_vm [] sim_pt)) (coremapSize (sim_vm [] sim_pt)) (owner (sim_vm [] sim_pt))
      (ptabs (sim_vm [] sim_pt)) {0} {}"
    by (auto simp: mm_ok_def sim_pt_def sim_frame_def less_Suc_eq PAGE_SIZE_def)
  moreover have "sw_ok {} (ptabs (sim_vm [] sim_pt)) {0}"
    by (auto simp: sw_ok_def sim_pt_def less_Suc_eq)
  moreover have "swap_inv (sim_opsx 4 x) 4 (sim_vm [] sim_pt)"
    unfolding sim_vm_def by (rule sim_boot_swap_inv) simp_all
  ultimately show ?thesis
    by (simp add: vm_invH_def sim_pt_ok)
qed

lemma sim_vm_room: "room (sim_opsx 4 x) 4 0 (sim_vm [] sim_pt)"
  unfolding room_def by (intro disjI2 conjI exI [of _ 0]) (simp_all add: sim_frame_def)

text \<open>The premises of the theorems on \<open>vm_fault\<close> for a write to the stack.\<close>

lemma sim_fault:
  "vm_inv (sim_ops 4) 4 {0} (sim_vm [] sim_pt)" "proc_getas (sim_vm [] sim_pt) = Some 0" "0 \<in> {0 :: nat}"
  "VM_FAULT_WRITE \<in> {VM_FAULT_READ, VM_FAULT_WRITE}" "1 < length (ptabs (sim_vm [] sim_pt) 0)"
  "pte_vaddr (pte (sim_vm [] sim_pt) 0 1) = 0x7FFFF123 AND PAGE_FRAME"
  "tlb_lookup (sim_ops 4) (sim_vm [] sim_pt) (0x7FFFF123 AND PAGE_FRAME) = None"
  "in_mem (pte (sim_vm [] sim_pt) 0 1) \<or> room (sim_ops 4) 4 0 (sim_vm [] sim_pt)"
  using sim_vm_inv sim_vm_room by (simp_all add: sim_pt_def PAGE_FRAME_def)

lemma sim_vm_stats: "stats_consistent (sim_vm ss pt)"
  by (simp add: sim_vm_def stats_consistent_def stats_report_of_def Let_def stat_index_defs)

text \<open>
  The operations of the file system on that machine: every name opens vnode 1, and closing it has no
  effect on the disk. \<open>sim_vm_ops\<close> are all operations the address spaces use.
\<close>

abbreviation sim_vm_ops :: "nat \<Rightarrow> (sim_tlb, sim_disk, sim_bitmap) vm_ops" where
  "sim_vm_ops n \<equiv> sim_opsx n (vm_ops_ext (\<lambda>name d. (None, 1, name, d)) (\<lambda>v d. d) (\<lambda>n d. (0, d)) ())"

lemma sim_vm_ops_simps [simp]:
  "vfs_open (sim_vm_ops n) name d = (None, 1, name, d)" "vfs_close (sim_vm_ops n) v d = d"
  "ram_stealmem (sim_vm_ops n) k d = (0, d)"
  by (simp_all add: sim_opsx_def)

text \<open>A map of three frames, all free.\<close>

definition sim_free :: "(sim_tlb, sim_disk, sim_bitmap) core_st" where
  "sim_free = (sim_vm [] [])\<lparr>coremap := replicate 3 \<lparr>c_vaddr = 0, c_as = None, allocpages = 0\<rparr>, coremapSize := 3\<rparr>"

lemma sim_free_ok [simp]: "core_ok sim_free" "free_frames sim_free = {..<3}"
  by (auto simp: sim_free_def core_ok_def free_frames_def CUSED_def CRES_def)

end
