(* ===== verification/Addrspace_Correct.thy ===== *)
theory Addrspace_Correct
  imports Sim_Vm
begin

text \<open>
  Correctness of the address space operations: the regions an executable defines, the page table
  built for them, and the release of everything an address space holds.
\<close>

section \<open>Regions\<close>

text \<open>The segment \<open>as_define_region\<close> appends.\<close>

definition region :: "vaddr_t \<Rightarrow> w32 \<Rightarrow> w32 \<Rightarrow> w32 \<Rightarrow> w32 \<Rightarrow> w32 \<Rightarrow> int \<Rightarrow> segment_t" where
  "region va memsize filesize r w x off =
     (let sz = (memsize + (va AND NOT PAGE_FRAME) + PAGE_SIZE - 1) AND PAGE_FRAME in
      \<lparr>seg_start = va AND PAGE_FRAME, seg_size = sz, seg_filesize = filesize, seg_npages = sz div PAGE_SIZE,
       seg_rwx = (r AND 4) OR (w AND 2) OR (x AND 1), seg_offset = off, initoffset = va AND NOT PAGE_FRAME\<rparr>)"

lemma as_define_region_eq:
  "kmem s = True # km \<Longrightarrow> as_define_region a va memsize filesize r w x off s =
     (None, upd_as a (\<lambda>y. y\<lparr>as_segment := as_segment y @ [region va memsize filesize r w x off]\<rparr>)
        (s\<lparr>kmem := km, kheap := kheap s + 1\<rparr>))"
  by (simp add: as_define_region_def kmalloc_def region_def Let_def)

lemma region_bounds:
  assumes "unat va + unat memsize \<le> 2 ^ 31"
  and g_def: "g = region va memsize filesize r w x off"
  shows "seg_ok g" "unat (seg_start g) \<le> unat va" "unat va < unat (seg_start g) + 4096"
    "unat va + unat memsize \<le> seg_end g" "seg_end g < unat va + unat memsize + 4096"
    "unat (initoffset g) = unat va - unat (seg_start g)"
proof -
  let ?o = "unat va mod 4096"
  have st: "unat (seg_start g) = unat va div 4096 * 4096"
    by (simp add: g_def region_def Let_def unat_and_PAGE_FRAME)
  have io: "unat (initoffset g) = ?o"
    by (simp add: g_def region_def Let_def unat_and_not_PAGE_FRAME)
  have vo: "unat va = unat va div 4096 * 4096 + ?o" by simp
  have o: "?o < 4096" by simp
  have vo': "va AND NOT PAGE_FRAME = of_nat ?o"
    using o by (simp add: word_unat_eq_iff unat_of_nat unat_and_not_PAGE_FRAME)
  let ?m = "unat memsize + ?o + 4095"
  have "memsize + (va AND NOT PAGE_FRAME) + PAGE_SIZE - 1 = of_nat ?m"
    unfolding vo' by (simp add: PAGE_SIZE_def)
  moreover have "?m < 2 ^ 32" using assms(1) o by simp
  ultimately have um: "unat (memsize + (va AND NOT PAGE_FRAME) + PAGE_SIZE - 1) = ?m"
    by (simp only: unat_of_nat) simp
  then have sz: "unat (seg_size g) = ?m div 4096 * 4096"
    by (simp add: g_def region_def Let_def unat_and_PAGE_FRAME)
  have "seg_npages g = seg_size g div PAGE_SIZE" by (simp add: g_def region_def Let_def)
  then have np: "unat (seg_npages g) = ?m div 4096"
    by (simp add: unat_div_distrib sz PAGE_SIZE_def)
  have e: "seg_end g = unat va div 4096 * 4096 + ?m div 4096 * 4096"
    by (simp add: seg_end_def st np)
  have m1: "?m div 4096 * 4096 \<le> ?m" "?m < ?m div 4096 * 4096 + 4096"
    using div_mult_mod_eq [of ?m 4096] mod_less_divisor [of 4096 ?m] by linarith+
  show "unat (seg_start g) \<le> unat va" "unat va < unat (seg_start g) + 4096"
    "unat va + unat memsize \<le> seg_end g" "seg_end g < unat va + unat memsize + 4096"
    "unat (initoffset g) = unat va - unat (seg_start g)"
    unfolding e st io using vo o m1 by linarith+
  have e': "seg_end g = (unat va div 4096 + ?m div 4096) * 4096" unfolding e by simp
  have "seg_end g < (0x80000 + 1) * 4096"
    using \<open>seg_end g < unat va + unat memsize + 4096\<close> assms(1) by simp
  then have "unat va div 4096 + ?m div 4096 \<le> 0x80000" unfolding e' mult_less_cancel2 by simp
  then have "seg_end g \<le> 2 ^ 31" unfolding e' by simp
  then show "seg_ok g" using sz np io o by (simp add: seg_ok_def st)
qed

section \<open>What the invariant depends on\<close>

lemma mm_ok_cong:
  assumes "mm_ok fr N own pt A H" "\<And>i. i < N \<Longrightarrow> own' i = own i" "\<And>b. b \<in> A \<Longrightarrow> pt' b = pt b"
  shows "mm_ok fr N own' pt' A H"
  unfolding mm_ok_def
proof (intro conjI ballI allI impI)
  fix b j assume b: "b \<in> A" "j < length (pt' b)" "in_mem (pt' b ! j)"
  then obtain i where "i < N" "i \<notin> H" "own i = Some b" "pte_paddr (pt b ! j) = fr i"
    using mm_resident [OF assms(1) b(1)] assms(3) by auto
  with b assms(2,3) show "\<exists>i<N. i \<notin> H \<and> own' i = Some b \<and> pte_paddr (pt' b ! j) = fr i" by auto
next
  fix b j k assume "b \<in> A" "j < length (pt' b)" "k < length (pt' b)" "in_mem (pt' b ! j)" "in_mem (pt' b ! k)"
    "pte_paddr (pt' b ! j) = pte_paddr (pt' b ! k)"
  then show "j = k" using mm_unique [OF assms(1)] assms(3) by auto
next
  fix i b assume i: "i < N" "own' i = Some b"
  then have o: "own i = Some b" using assms(2) by simp
  show "b \<in> A" by (rule mm_owned(1) [OF assms(1) i(1) o])
  then show "\<exists>j<length (pt' b). in_mem (pt' b ! j) \<and> pte_paddr (pt' b ! j) = fr i" if "i \<notin> H"
    using mm_owned(2) [OF assms(1) i(1) o that] assms(3) by auto
qed

lemma sw_ok_cong:
  assumes "sw_ok S pt A" "\<And>b. b \<in> A \<Longrightarrow> pt' b = pt b"
  shows "sw_ok S pt' A"
  using assms(1) unfolding sw_ok_def by (simp add: assms(2) cong: ball_cong bex_cong)

text \<open>
  \<open>same_vm A s t\<close>: the states agree on everything the invariant for the address spaces \<open>A\<close> looks at,
  except that the map of frames may differ in frames without an owner.
\<close>

definition same_vm ::
  "nat set \<Rightarrow> ('h, 'd, 'b, 'a) core_st_scheme \<Rightarrow> ('h, 'd, 'b, 'a) core_st_scheme \<Rightarrow> bool" where
  "same_vm A s t \<longleftrightarrow>
     threads t = threads s \<and> curthread t = curthread s \<and> allcpus t = allcpus s \<and> curcpu t = curcpu s \<and>
     curcpu_exists t = curcpu_exists s \<and> procs t = procs s \<and>
     counters t = counters s \<and> stats_lock t = stats_lock s \<and>
     tlb_hw t = tlb_hw s \<and> next_victim t = next_victim s \<and> physmem t = physmem s \<and>
     swapFile t = swapFile s \<and> swapFileSize t = swapFileSize s \<and> swapMap t = swapMap s \<and>
     swap_lock t = swap_lock s \<and> used t = used s \<and> disk t = disk s \<and>
     firstpaddr t = firstpaddr s \<and> coremapSize t = coremapSize s \<and> (\<forall>b\<in>A. aspaces t b = aspaces s b)"

lemma same_vmD:
  assumes "same_vm A s t"
  shows "proc_getas t = proc_getas s" "can_lock t = can_lock s" "stats_ok t = stats_ok s"
    "tlb_wf E t = tlb_wf E s" "tlb_lookup E t = tlb_lookup E s" "swap_inv E n t = swap_inv E n s"
    "slot_bytes E t = slot_bytes E s" "frame_addr t = frame_addr s" "coremapSize t = coremapSize s"
    "firstpaddr t = firstpaddr s" "b \<in> A \<Longrightarrow> aspaces t b = aspaces s b" "in_interrupt t = in_interrupt s"
proof -
  show "swap_inv E n t = swap_inv E n s" "slot_bytes E t = slot_bytes E s"
    by (rule swap_inv_cong; use assms in \<open>simp add: same_vm_def\<close>)+
  show "tlb_wf E t = tlb_wf E s" "tlb_lookup E t = tlb_lookup E s"
    by (rule tlb_cong; use assms in \<open>simp add: same_vm_def\<close>)+
  show "frame_addr t = frame_addr s" using assms by (simp add: same_vm_def frame_addr_def fun_eq_iff)
  show "proc_getas t = proc_getas s" by (rule proc_getas_cong) (use assms in \<open>simp_all add: same_vm_def\<close>)
  show "can_lock t = can_lock s" by (rule can_lock_cong) (use assms in \<open>simp_all add: same_vm_def\<close>)
  show "stats_ok t = stats_ok s" by (rule stats_ok_cong) (use assms in \<open>simp_all add: same_vm_def\<close>)
qed (use assms in \<open>simp_all add: same_vm_def in_interrupt_def\<close>)

lemma same_vm_inv:
  assumes sv: "same_vm A s t" and inv: "vm_inv E n A s" and co: "core_ok t"
    and own: "\<And>i. i < coremapSize s \<Longrightarrow> owner t i = owner s i"
  shows "vm_inv E n A t" "b \<in> A \<Longrightarrow> content E t b k = content E s b k"
proof -
  note D = vm_invD [OF inv] and S = same_vmD [OF sv]
  note SE = S(4) [of E] S(5) [of E] S(6) [of E n] S(7) [of E]
  have "mm_ok (frame_addr t) (coremapSize t) (owner t) (ptabs t) A {}"
    unfolding S(8,9) by (rule mm_ok_cong [OF D(9) own]) (simp_all add: S(11))
  moreover have "sw_ok (dom (slot_bytes E t)) (ptabs t) A"
    unfolding SE(4) by (rule sw_ok_cong [OF D(10)]) (simp add: S(11))
  ultimately show "vm_inv E n A t"
    using D(1-5,7,8,11) co S(1-3,8-11) SE by (simp add: vm_invH_def)
  have "physmem t = physmem s" using sv by (simp add: same_vm_def)
  then show "content E t b k = content E s b k" if "b \<in> A"
    using that SE(4) S(11) by (simp add: content_def)
qed

lemma mm_insert:
  assumes mm: "mm_ok fr N own pt A H" and a: "\<And>j. j < length (pt a) \<Longrightarrow> \<not> in_mem (pt a ! j)"
  shows "mm_ok fr N own pt (insert a A) H"
  unfolding mm_ok_def
proof (intro conjI ballI allI impI)
  fix b j assume "b \<in> insert a A" "j < length (pt b)" "in_mem (pt b ! j)"
  then show "\<exists>i<N. i \<notin> H \<and> own i = Some b \<and> pte_paddr (pt b ! j) = fr i"
    using mm_resident [OF mm] a by blast
next
  fix b j k assume "b \<in> insert a A" "j < length (pt b)" "k < length (pt b)" "in_mem (pt b ! j)" "in_mem (pt b ! k)"
    "pte_paddr (pt b ! j) = pte_paddr (pt b ! k)"
  then show "j = k" using mm_unique [OF mm] a by blast
qed (use mm_owned [OF mm] in blast)+

lemma sw_insert:
  assumes sw: "sw_ok S pt A" and a: "\<And>j. j < length (pt a) \<Longrightarrow> \<not> in_swap (pt a ! j)"
  shows "sw_ok S pt (insert a A)"
  unfolding sw_ok_def
proof (intro conjI ballI allI impI)
  fix b j assume "b \<in> insert a A" "j < length (pt b)" "in_swap (pt b ! j)"
  then show "unat (pte_paddr (pt b ! j)) \<in> S" using sw_used [OF sw] a by blast
next
  fix b c j k assume bc: "b \<in> insert a A" "c \<in> insert a A" "j < length (pt b)" "k < length (pt c)"
    "in_swap (pt b ! j)" "in_swap (pt c ! k)" "pte_paddr (pt b ! j) = pte_paddr (pt c ! k)"
  then have "b \<in> A" "c \<in> A" using a by auto
  from sw_unique [OF sw this bc(3-7)] show "b = c" "j = k" by simp_all
next
  fix x assume "x \<in> S"
  then show "\<exists>b\<in>insert a A. \<exists>j<length (pt b). in_swap (pt b ! j) \<and> unat (pte_paddr (pt b ! j)) = x"
    using sw_needed [OF sw] by blast
qed

text \<open>An address space whose pages are all outside memory and the swap file joins the others.\<close>

lemma vm_inv_insert:
  assumes inv: "vm_inv E n A s" and ok: "as_ok (aspaces s a)"
    and fresh: "\<And>e. e \<in> set (ptabs s a) \<Longrightarrow> \<not> in_mem e \<and> \<not> in_swap e"
    and own: "\<And>i. i < coremapSize s \<Longrightarrow> owner s i \<noteq> Some a"
    and coh: "proc_getas s = Some a \<Longrightarrow> coherent (tlb_lookup E s) (ptabs s a)"
  shows "vm_inv E n (insert a A) s"
proof -
  note D = vm_invD [OF inv]
  have none: "\<not> in_mem (ptabs s a ! j)" "\<not> in_swap (ptabs s a ! j)" if "j < length (ptabs s a)" for j
    using fresh that by simp_all
  have "mm_ok (frame_addr s) (coremapSize s) (owner s) (ptabs s) (insert a A) {}"
    by (rule mm_insert [OF D(9) none(1)])
  moreover have "sw_ok (dom (slot_bytes E s)) (ptabs s) (insert a A)"
    by (rule sw_insert [OF D(10) none(2)])
  ultimately show ?thesis using D(1-8,11) ok coh by (auto simp: vm_invH_def)
qed

section \<open>The page table of a new address space\<close>

lemma fresh_entry:
  assumes "segs_ok segs" "e \<in> set (pt_of_segments segs)"
  shows "user_page (pte_vaddr e)" "\<not> in_mem e" "\<not> in_swap e" "pte_paddr e = 0"
proof -
  from assms(2) obtain g where g: "g \<in> set segs"
    "e \<in> set (seg_entries (seg_start g) (unat (seg_npages g)) (seg_rwx g))"
    by (auto simp: pt_of_segments_def)
  then obtain k where k: "k < unat (seg_npages g)"
    "e = \<lparr>pte_paddr = 0, pte_vaddr = seg_start g + of_nat k * PAGE_SIZE, in_mem = False, in_swap = False, pte_rwx = seg_rwx g\<rparr>"
    unfolding in_set_conv_nth length_seg_entries by (metis nth_seg_entries)
  then show "\<not> in_mem e" "\<not> in_swap e" "pte_paddr e = 0" by simp_all
  have ok: "unat (seg_start g) mod 4096 = 0" "unat (seg_start g) + unat (seg_npages g) * 4096 \<le> 2 ^ 31"
    using segs_ok_all [OF assms(1) g(1)] by (simp_all add: seg_ok_def seg_end_def)
  have u: "unat (pte_vaddr e) = unat (seg_start g) + k * 4096" using unat_page_of [OF ok(2) k(1)] k(2) by simp
  have "unat (pte_vaddr e) mod 4096 = 0" using u ok(1) by (metis mod_mult_self3 add.commute)
  moreover have "k * 4096 + 4096 \<le> unat (seg_npages g) * 4096" using k(1) by simp
  then have "unat (pte_vaddr e) < 2 ^ 31" using u ok(2) by linarith
  ultimately show "user_page (pte_vaddr e)"
    by (simp add: user_page_def aligned_and_PAGE_FRAME word_less_nat_alt)
qed

lemma unat_sum_npages:
  "segs_ok segs \<Longrightarrow> unat (sum_list (map seg_npages segs)) = length (pt_of_segments segs)"
proof (induction segs)
  case (Cons g segs)
  then have "unat (sum_list (map seg_npages segs)) = length (pt_of_segments segs)"
    using segs_ok_ConsD by blast
  moreover have "length (pt_of_segments (g # segs)) \<le> 0x80000" by (rule length_pt_of_segments [OF Cons.prems])
  ultimately show ?case by (simp add: pt_of_segments_Cons unat_word_ariths)
qed (simp add: pt_of_segments_def)

lemma fresh_as_ok:
  assumes "segs_ok (as_segment x)" "as_ptab x = pt_of_segments (as_segment x)"
    "npages x = sum_list (map seg_npages (as_segment x))" "lock_idle (pt_lock x)"
  shows "as_ok x"
  using assms fresh_entry [OF assms(1)] unat_sum_npages [OF assms(1)] by (auto simp: as_ok_def ent_ok_def)

section \<open>Frames for a page table\<close>

lemma free_no_owner: "core_ok s \<Longrightarrow> i \<in> free_frames s \<Longrightarrow> owner s i = None"
  using core_okD(7) [of s i] free_bits [of "coremap s ! i"] by (fastforce simp: free_frames_def)

text \<open>The number of frames a page table of \<open>k\<close> entries needs.\<close>

definition pt_frames :: "nat \<Rightarrow> nat" where
  "pt_frames k = (k * 12 + 4095) div 4096"

lemma ptAlloc_ok:
  assumes co: "core_ok s" and n: "0 < unat n" "unat n \<le> 0x80000"
    and room: "pt_frames (unat n) < unat (getAvailableRam s)" "{g..<g + pt_frames (unat n)} \<subseteq> free_frames s"
  defines "K \<equiv> pt_frames (unat n)"
  shows "\<exists>f c. ptAlloc E n s = Ret (frame_addr s f, s\<lparr>coremap := c\<rparr>) \<and> core_ok (s\<lparr>coremap := c\<rparr>) \<and>
    {f..<f + K} \<subseteq> free_frames s \<and> free_frames (s\<lparr>coremap := c\<rparr>) = free_frames s - {f..<f + K} \<and>
    (\<forall>i<coremapSize s. c_as (c ! i) = owner s i) \<and> allocpages (c ! f) = K \<and> f + K \<le> coremapSize s"
proof -
  note L = core_okD(2) [OF co]
  have "unat (sizeof_pt_entry * n) = unat n * 12"
    using n(2) by (simp add: sizeof_pt_entry_def unat_word_ariths)
  then have num: "unat (DIVROUNDUP (sizeof_pt_entry * n) PAGE_SIZE) = K"
    using unat_DIVROUNDUP [of "sizeof_pt_entry * n"] n(2) by (simp add: K_def pt_frames_def)
  have K0: "0 < K" using n(1) by (simp add: K_def pt_frames_def)
  have avail: "getAvailableRam s > DIVROUNDUP (sizeof_pt_entry * n) PAGE_SIZE"
    using room(1) num by (simp add: word_less_nat_alt K_def)
  show ?thesis
  proof (cases "K = 1")
    case True
    then have "g \<in> free_frames s" using room(2) by (auto simp: K_def)
    from first_free_exists [OF this] obtain f
      where f: "first_idx (frame_free s) 0 (coremapSize s) = Some f" "f < coremapSize s" "frame_free s f" by blast
    have ff: "f \<in> free_frames s" using f by (simp add: free_frames_def)
    let ?c = "(coremap s)[f := taken_entry 0 True None]"
    have "ptAlloc E n s = Ret (frame_addr s f, s\<lparr>coremap := ?c\<rparr>)"
      using avail num True getPage_free [OF co f(1), of E True 0 None]
      by (simp add: ptAlloc_def word_less_nat_alt)
    moreover have "c_as (?c ! i) = owner s i" if "i < coremapSize s" for i
      using free_no_owner [OF co ff] that f(2) L by (auto simp add: nth_list_update taken_entry_def)
    ultimately show ?thesis
      using True ff f(2) L core_ok_taken [OF co, of 0 f True None] free_frames_taken [OF co f(2), of 0 True None]
      by (intro exI [of _ f] exI [of _ ?c]) (simp add: taken_entry_def)
  next
    case False
    then have K1: "1 < K" using K0 by simp
    obtain f where f: "run_scan (frame_free s) K 0 0 (coremapSize s) = Some f" "{f..<f + K} \<subseteq> free_frames s"
      using run_scan_exists [OF K0 room(2) [folded K_def]] by (elim exE conjE) (rule that)
    have b: "f + K \<le> coremapSize s" using f(2) K0 free_frames_fits [of f K s] by simp
    let ?c = "take_run f K True None s"
    have "ptAlloc E n s = Ret (frame_addr s f, s\<lparr>coremap := ?c\<rparr>)"
      using avail num K1 getMultiplePages_eq [OF co K0 f(1), of True None]
      by (simp add: ptAlloc_def word_less_nat_alt)
    moreover have "c_as (?c ! i) = owner s i" if "i < coremapSize s" for i
    proof (cases "i \<in> {f..<f + K}")
      case True
      then have "owner s i = None" using f(2) free_no_owner [OF co] by blast
      with True that L show ?thesis by (simp add: take_run_def)
    qed (use that L in \<open>auto simp add: take_run_def\<close>)
    moreover have "allocpages (?c ! f) = K" using b K0 L by (simp add: take_run_def)
    ultimately show ?thesis
      using f(2) b core_ok_take_run [OF co, of f K True None] free_frames_take_run [OF co b, of True None]
      by (intro exI [of _ f] exI [of _ ?c]) simp
  qed
qed

text \<open>\<open>pt_at s a f k\<close>: the page table of \<open>a\<close> lies in the \<open>k\<close> frames from \<open>f\<close> on, allocated together and owned by nobody.\<close>

definition pt_at :: "('h, 'd, 'b, 'a) core_st_scheme \<Rightarrow> nat \<Rightarrow> nat \<Rightarrow> nat \<Rightarrow> bool" where
  "pt_at s a f k \<longleftrightarrow> as_pt (aspaces s a) = PADDR_TO_KVADDR (frame_addr s f) \<and> 0 < k \<and>
     allocpages (coremap s ! f) = k \<and> f + k \<le> coremapSize s \<and> (\<forall>i\<in>{f..<f + k}. owner s i = None)"

section \<open>Preparing an address space for its program\<close>

text \<open>The stack segment \<open>as_prepare_load\<close> adds below \<open>USERSTACK\<close>.\<close>

definition stack_seg :: segment_t where
  "stack_seg = region (USERSTACK - STACKPAGES * PAGE_SIZE) (STACKPAGES * PAGE_SIZE) (STACKPAGES * PAGE_SIZE)
     PF_R PF_W 0 0"

definition load_segs :: "('h, 'd, 'b, 'a) core_st_scheme \<Rightarrow> nat \<Rightarrow> segment_t list" where
  "load_segs s a = as_segment (aspaces s a) @ [stack_seg]"

lemma stack_seg_npages: "0 < unat (seg_npages stack_seg)"
  by (simp add: stack_seg_def region_def Let_def STACKPAGES_def USERSTACK_def PAGE_SIZE_def PAGE_FRAME_def)

lemma core_map_cong:
  assumes "coremapActive t = coremapActive s" "coremap t = coremap s" "coremapSize t = coremapSize s"
    "next_svic t = next_svic s" "firstpaddr t = firstpaddr s"
  shows "core_ok t = core_ok s" "free_frames t = free_frames s" "frame_addr t = frame_addr s"
  using assms by (simp_all add: core_ok_def free_frames_def frame_addr_def fun_eq_iff)

lemma getAvailableRam_cong:
  "coremapSize t = coremapSize s \<Longrightarrow> ram_used t = ram_used s \<Longrightarrow> getAvailableRam t = getAvailableRam s"
  by (simp add: getAvailableRam_def)

lemma pt_frames_pos: "0 < k \<Longrightarrow> 0 < pt_frames k"
  by (simp add: pt_frames_def div_greater_zero_iff)

text \<open>The value of \<open>as_prepare_load\<close> when there is memory for the segment and the page table.\<close>

lemma as_prepare_load_eq:
  assumes co: "core_ok s" and ni: "\<not> in_interrupt s" and idle: "lock_idle (pt_lock (aspaces s a))"
    and km: "kmem s = True # km" and segs: "segs_ok (load_segs s a)"
    and room: "pt_frames (length (pt_of_segments (load_segs s a))) < unat (getAvailableRam s)"
      "{g..<g + pt_frames (length (pt_of_segments (load_segs s a)))} \<subseteq> free_frames s"
  defines "K \<equiv> pt_frames (length (pt_of_segments (load_segs s a)))"
  shows "\<exists>f c. as_prepare_load E a s = Ret (None, upd_as a (\<lambda>x. x\<lparr>as_segment := load_segs s a,
      npages := sum_list (map seg_npages (load_segs s a)), as_pt := PADDR_TO_KVADDR (frame_addr s f),
      as_ptab := pt_of_segments (load_segs s a)\<rparr>) (s\<lparr>kmem := km, kheap := kheap s + 1, coremap := c\<rparr>)) \<and>
    core_ok (s\<lparr>coremap := c\<rparr>) \<and> {f..<f + K} \<subseteq> free_frames s \<and>
    free_frames (s\<lparr>coremap := c\<rparr>) = free_frames s - {f..<f + K} \<and>
    (\<forall>i<coremapSize s. c_as (c ! i) = owner s i) \<and> allocpages (c ! f) = K \<and> f + K \<le> coremapSize s"
proof -
  let ?segs = "load_segs s a" and ?s0 = "s\<lparr>kmem := km, kheap := kheap s + 1\<rparr>"
  let ?np = "sum_list (map seg_npages ?segs)"
  define s2 where "s2 = upd_as a (\<lambda>x. x\<lparr>as_segment := ?segs, npages := ?np\<rparr>) ?s0"
  define s3 where "s3 = pt_locked a s2"
  note np = unat_sum_npages [OF segs]
  have np0: "0 < unat ?np" using stack_seg_npages np
    by (simp add: load_segs_def pt_of_segments_def)
  have np1: "unat ?np \<le> 0x80000" using length_pt_of_segments [OF segs] np by simp
  have s3: "npages (aspaces s3 a) = ?np" "as_segment (aspaces s3 a) = ?segs"
    by (simp_all add: s3_def s2_def upd_as_def)
  have cs: "core_ok s3 = core_ok s" "free_frames s3 = free_frames s" "frame_addr s3 = frame_addr s"
    by (rule core_map_cong; simp add: s3_def s2_def pt_locked_def upd_as_def)+
  have av: "getAvailableRam s3 = getAvailableRam s"
    by (rule getAvailableRam_cong) (simp_all add: s3_def s2_def pt_locked_def upd_as_def)
  have fl: "coremapSize s3 = coremapSize s" "coremap s3 = coremap s"
    by (simp_all add: s3_def s2_def pt_locked_def upd_as_def)
  note P = ptAlloc_ok [of s3 ?np g E, unfolded cs(1,2) av np fl, OF co np0 [unfolded np] np1 [unfolded np] room, folded K_def]
  obtain f c where fc: "ptAlloc E ?np s3 = Ret (frame_addr s3 f, s3\<lparr>coremap := c\<rparr>)"
    "core_ok (s3\<lparr>coremap := c\<rparr>)" "{f..<f + K} \<subseteq> free_frames s"
    "free_frames (s3\<lparr>coremap := c\<rparr>) = free_frames s - {f..<f + K}"
    "\<forall>i<coremapSize s. c_as (c ! i) = owner s i" "allocpages (c ! f) = K" "f + K \<le> coremapSize s"
    using P by (elim exE conjE) (rule that)
  have K0: "0 < K" using np0 pt_frames_pos unfolding K_def np by simp
  then have "frame_addr s f \<noteq> 0" using frame_addr_nonzero [OF co, of f] fc(7) by simp
  moreover have "\<not> in_interrupt s2" using ni by (simp add: s2_def upd_as_def in_interrupt_def)
  moreover have "lock_idle (pt_lock (aspaces s2 a))" using idle by (simp add: s2_def upd_as_def)
  ultimately have acq: "acquire_pt a s2 = Ret s3" and f0: "frame_addr s f \<noteq> 0"
    by (simp_all add: acquire_pt_idle s3_def)
  have s2e: "upd_as a (\<lambda>x. x\<lparr>npages := sum_list (map seg_npages (as_segment x))\<rparr>)
      (upd_as a (\<lambda>y. y\<lparr>as_segment := as_segment y @ [stack_seg]\<rparr>) (s\<lparr>kmem := km, kheap := Suc (kheap s)\<rparr>)) = s2"
    by (simp add: s2_def load_segs_def upd_as_def)
  have "as_prepare_load E a s = kbind (release_pt a (upd_as a (\<lambda>x. x\<lparr>as_pt := PADDR_TO_KVADDR (frame_addr s f),
      as_ptab := pt_of_segments ?segs\<rparr>) (s3\<lparr>coremap := c\<rparr>))) (\<lambda>s6. Ret (None, s6))"
    using fc(1) s3 np acq f0
    by (simp add: as_prepare_load_def Let_def as_define_region_eq [OF km] stack_seg_def [symmetric] s2e cs)
  also have "release_pt a (upd_as a (\<lambda>x. x\<lparr>as_pt := PADDR_TO_KVADDR (frame_addr s f),
      as_ptab := pt_of_segments ?segs\<rparr>) (s3\<lparr>coremap := c\<rparr>)) = Ret (upd_as a (\<lambda>x. x\<lparr>as_segment := ?segs,
      npages := ?np, as_pt := PADDR_TO_KVADDR (frame_addr s f), as_ptab := pt_of_segments ?segs\<rparr>) (?s0\<lparr>coremap := c\<rparr>))"
    using idle by (subst release_pt_by [OF idle])
      (simp add: s3_def s2_def pt_locked_def upd_as_def, cases "aspaces s a", simp add: s3_def s2_def pt_locked_def upd_as_def)
  finally have run: "as_prepare_load E a s = Ret (None, upd_as a (\<lambda>x. x\<lparr>as_segment := ?segs,
      npages := ?np, as_pt := PADDR_TO_KVADDR (frame_addr s f), as_ptab := pt_of_segments ?segs\<rparr>) (?s0\<lparr>coremap := c\<rparr>))"
    by simp
  have c3: "core_ok (s3\<lparr>coremap := c\<rparr>) = core_ok (s\<lparr>coremap := c\<rparr>)"
    "free_frames (s3\<lparr>coremap := c\<rparr>) = free_frames (s\<lparr>coremap := c\<rparr>)"
    by (rule core_map_cong; simp add: s3_def s2_def pt_locked_def upd_as_def)+
  show ?thesis using run fc(2-7) unfolding c3 by (intro exI [of _ f] exI [of _ c]) simp
qed

lemma as_prepare_load_ok:
  assumes inv: "vm_inv E n A s" and aA: "a \<notin> A" and idle: "lock_idle (pt_lock (aspaces s a))"
    and own: "\<forall>i<coremapSize s. owner s i \<noteq> Some a"
    and tlb: "proc_getas s = Some a \<longrightarrow> tlb_lookup E s = (\<lambda>_. None)"
    and km: "kmem s = True # km" and segs: "segs_ok (load_segs s a)"
    and room: "pt_frames (length (pt_of_segments (load_segs s a))) < unat (getAvailableRam s)"
      "{g..<g + pt_frames (length (pt_of_segments (load_segs s a)))} \<subseteq> free_frames s"
  defines "K \<equiv> pt_frames (length (pt_of_segments (load_segs s a)))"
  shows "\<exists>f t. as_prepare_load E a s = Ret (None, t) \<and> vm_inv E n (insert a A) t \<and>
    as_segment (aspaces t a) = load_segs s a \<and> ptabs t a = pt_of_segments (load_segs s a) \<and>
    pt_at t a f K \<and> {f..<f + K} \<subseteq> free_frames s \<and> free_frames t = free_frames s - {f..<f + K} \<and>
    slot_bytes E t = slot_bytes E s \<and> (\<forall>b\<in>A. ptabs t b = ptabs s b \<and> (\<forall>k. content E t b k = content E s b k))"
proof -
  note D = vm_invD [OF inv]
  have ni: "\<not> in_interrupt s" using D(4) by (simp add: can_lock_def)
  let ?segs = "load_segs s a"
  obtain f c where run: "as_prepare_load E a s = Ret (None, upd_as a (\<lambda>x. x\<lparr>as_segment := ?segs,
      npages := sum_list (map seg_npages ?segs), as_pt := PADDR_TO_KVADDR (frame_addr s f),
      as_ptab := pt_of_segments ?segs\<rparr>) (s\<lparr>kmem := km, kheap := kheap s + 1, coremap := c\<rparr>))" (is "_ = Ret (None, ?t)")
    and fc: "core_ok (s\<lparr>coremap := c\<rparr>)" "{f..<f + K} \<subseteq> free_frames s"
    "free_frames (s\<lparr>coremap := c\<rparr>) = free_frames s - {f..<f + K}"
    "\<forall>i<coremapSize s. c_as (c ! i) = owner s i" "allocpages (c ! f) = K" "f + K \<le> coremapSize s"
    using as_prepare_load_eq [OF D(6) ni idle km segs room, folded K_def, of E] by (elim exE conjE) (rule that)
  have c: "core_ok ?t = core_ok (s\<lparr>coremap := c\<rparr>)" "free_frames ?t = free_frames (s\<lparr>coremap := c\<rparr>)"
    by (rule core_map_cong; simp add: upd_as_def)+
  have sv: "same_vm A s ?t" using aA by (auto simp add: same_vm_def upd_as_def)
  have ot: "owner ?t i = owner s i" if "i < coremapSize s" for i
    using fc(4) that by (simp add: upd_as_def)
  note S = same_vm_inv [OF sv inv fc(1) [folded c(1)] ot]
  have x: "aspaces ?t a = (aspaces s a)\<lparr>as_segment := ?segs, npages := sum_list (map seg_npages ?segs),
      as_pt := PADDR_TO_KVADDR (frame_addr s f), as_ptab := pt_of_segments ?segs\<rparr>" by (simp add: upd_as_def)
  have "vm_inv E n (insert a A) ?t"
  proof (rule vm_inv_insert [OF S(1)])
    show "as_ok (aspaces ?t a)" unfolding x by (rule fresh_as_ok) (use segs idle in simp_all)
    show "\<not> in_mem e \<and> \<not> in_swap e" if "e \<in> set (ptabs ?t a)" for e
      using fresh_entry [OF segs] that unfolding x by simp
    show "owner ?t i \<noteq> Some a" if "i < coremapSize ?t" for i
      using own ot [of i] that by (simp add: upd_as_def)
    show "coherent (tlb_lookup E ?t) (ptabs ?t a)" if "proc_getas ?t = Some a"
      using that tlb unfolding same_vmD(1) [OF sv] same_vmD(5) [OF sv, of E] by (simp add: coherent_def)
  qed simp_all
  moreover have "ptabs ?t b = ptabs s b" if "b \<in> A" for b using that same_vmD(11) [OF sv that] by simp
  moreover have "0 < pt_frames (length (pt_of_segments ?segs))"
    by (rule pt_frames_pos) (use stack_seg_npages in \<open>simp add: load_segs_def pt_of_segments_def\<close>)
  then have "pt_at ?t a f K"
    using fc(2,5,6) ot free_no_owner [OF D(6)] x same_vmD(8,9) [OF sv] subsetD [OF fc(2)]
    by (simp add: pt_at_def K_def) (simp add: upd_as_def)
  ultimately show ?thesis
    using run fc(2,3) c(2) S(2) x same_vmD(7) [OF sv, of E] by (intro exI [of _ f] exI [of _ ?t]) simp
qed

section \<open>Releasing an address space\<close>

text \<open>The swap slots the pages from index \<open>i\<close> on occupy.\<close>

definition swapped_slots :: "pt_entry list \<Rightarrow> nat \<Rightarrow> nat set" where
  "swapped_slots pt i = {unat (pte_paddr (pt ! k)) |k. i \<le> k \<and> k < length pt \<and> in_swap (pt ! k)}"

lemma swapped_slots_Suc:
  assumes "i < length pt"
  shows "swapped_slots pt i = (if in_swap (pt ! i) then insert (unat (pte_paddr (pt ! i))) else id) (swapped_slots pt (Suc i))"
proof -
  have "i \<le> k \<longleftrightarrow> k = i \<or> Suc i \<le> k" for k by auto
  then show ?thesis using assms by (auto simp: swapped_slots_def)
qed

lemma clear_swapped_ok:
  assumes "swap_inv E N s" "i + m = length (ptabs s a)"
    and "\<And>k. i \<le> k \<Longrightarrow> k < length (ptabs s a) \<Longrightarrow> in_swap (ptabs s a ! k) \<Longrightarrow> slot_bytes E s (unat (pte_paddr (ptabs s a ! k))) \<noteq> None"
    and "\<And>k l. i \<le> k \<Longrightarrow> k < length (ptabs s a) \<Longrightarrow> in_swap (ptabs s a ! k) \<Longrightarrow> i \<le> l \<Longrightarrow> l < length (ptabs s a) \<Longrightarrow>
      in_swap (ptabs s a ! l) \<Longrightarrow> pte_paddr (ptabs s a ! k) = pte_paddr (ptabs s a ! l) \<Longrightarrow> k = l"
  shows "\<exists>sw u. clear_swapped E a i m s = Ret (s\<lparr>swapMap := sw, used := u\<rparr>) \<and> swap_inv E N (s\<lparr>swapMap := sw, used := u\<rparr>) \<and>
    slot_bytes E (s\<lparr>swapMap := sw, used := u\<rparr>) = slot_bytes E s |` (- swapped_slots (ptabs s a) i)"
  using assms
proof (induction m arbitrary: i s)
  case 0
  then have "swapped_slots (ptabs s a) i = {}" by (auto simp: swapped_slots_def)
  with 0 show ?case by (intro exI [of _ "swapMap s"] exI [of _ "used s"]) simp
next
  case (Suc m)
  let ?e = "ptabs s a ! i"
  have i: "i < length (ptabs s a)" using Suc.prems(2) by simp
  show ?case
  proof (cases "in_swap ?e")
    case False
    note IH = Suc.IH [OF Suc.prems(1), of "Suc i"]
    show ?thesis using IH Suc.prems i False swapped_slots_Suc [OF i] by simp
  next
    case True
    let ?x = "unat (pte_paddr ?e)"
    have set: "bitmap_isset E (swapMap s) ?x"
      using Suc.prems(3) [OF order_refl i True] by (simp add: slot_bytes_def split: if_splits)
    define t where "t = s\<lparr>swapMap := bitmap_unmark E ?x (swapMap s), used := used s - 1\<rparr>"
    have U: "swap_inv E N t" "slot_bytes E t = (slot_bytes E s)(?x := None)"
      using unmark_inv [OF Suc.prems(1) set, of t "physmem s"] by (simp_all add: t_def)
    have pt: "ptabs t a = ptabs s a" by (simp add: t_def)
    have ne: "unat (pte_paddr (ptabs s a ! k)) \<noteq> ?x" if "Suc i \<le> k" "k < length (ptabs s a)" "in_swap (ptabs s a ! k)" for k
      using Suc.prems(4) [of k i] that i True by (auto simp: word_unat_eq_iff)
    have used: "slot_bytes E t (unat (pte_paddr (ptabs s a ! k))) \<noteq> None"
      if "Suc i \<le> k" "k < length (ptabs s a)" "in_swap (ptabs s a ! k)" for k
      using Suc.prems(3) [of k] ne [OF that] that by (simp add: U(2))
    have m: "Suc i + m = length (ptabs s a)" using Suc.prems(2) by simp
    have "\<exists>sw u. clear_swapped E a (Suc i) m t = Ret (t\<lparr>swapMap := sw, used := u\<rparr>) \<and>
      swap_inv E N (t\<lparr>swapMap := sw, used := u\<rparr>) \<and>
      slot_bytes E (t\<lparr>swapMap := sw, used := u\<rparr>) = slot_bytes E t |` (- swapped_slots (ptabs s a) (Suc i))"
      by (rule Suc.IH [OF U(1), of "Suc i", unfolded pt, OF m used]) (simp_all add: Suc.prems(4))
    then obtain sw u where IH: "clear_swapped E a (Suc i) m t = Ret (t\<lparr>swapMap := sw, used := u\<rparr>)"
      "swap_inv E N (t\<lparr>swapMap := sw, used := u\<rparr>)"
      "slot_bytes E (t\<lparr>swapMap := sw, used := u\<rparr>) = slot_bytes E t |` (- swapped_slots (ptabs s a) (Suc i))"
      by (elim exE conjE) (rule that)
    have "clear_swap E (pte_paddr (pte s a i)) s = Ret t"
      using clear_swap_ok [OF swap_invD(4) [OF Suc.prems(1)]] by (simp add: t_def)
    then have "clear_swapped E a i (Suc m) s = Ret (s\<lparr>swapMap := sw, used := u\<rparr>)"
      using IH(1) i True by (simp add: t_def)
    moreover have "slot_bytes E t |` (- swapped_slots (ptabs s a) (Suc i)) = slot_bytes E s |` (- swapped_slots (ptabs s a) i)"
      unfolding U(2) swapped_slots_Suc [OF i] using True by (auto simp: restrict_map_def fun_eq_iff)
    ultimately show ?thesis using IH(2,3) by (intro exI [of _ sw] exI [of _ u]) (simp add: t_def)
  qed
qed

lemma mm_remove:
  assumes mm: "mm_ok fr N own pt A H" and own: "\<And>i. i < N \<Longrightarrow> own' i = (if own i = Some a then None else own i)"
  shows "mm_ok fr N own' pt (A - {a}) H"
  unfolding mm_ok_def
proof (intro conjI ballI allI impI)
  fix b j assume b: "b \<in> A - {a}" "j < length (pt b)" "in_mem (pt b ! j)"
  then obtain i where "i < N" "i \<notin> H" "own i = Some b" "pte_paddr (pt b ! j) = fr i"
    using mm_resident [OF mm] by blast
  with b own show "\<exists>i<N. i \<notin> H \<and> own' i = Some b \<and> pte_paddr (pt b ! j) = fr i" by auto
next
  fix b j k assume "b \<in> A - {a}" "j < length (pt b)" "k < length (pt b)" "in_mem (pt b ! j)" "in_mem (pt b ! k)"
    "pte_paddr (pt b ! j) = pte_paddr (pt b ! k)"
  then show "j = k" using mm_unique [OF mm] by blast
next
  fix i b assume i: "i < N" "own' i = Some b"
  then have o: "own i = Some b" "b \<noteq> a" using own by (auto split: if_splits)
  show "b \<in> A - {a}" using mm_owned(1) [OF mm i(1) o(1)] o(2) by simp
  show "\<exists>j<length (pt b). in_mem (pt b ! j) \<and> pte_paddr (pt b ! j) = fr i" if "i \<notin> H"
    using mm_owned(2) [OF mm i(1) o(1) that] .
qed

lemma sw_remove:
  assumes sw: "sw_ok S pt A" and a: "a \<in> A"
  shows "sw_ok (S - swapped_slots (pt a) 0) pt (A - {a})"
  unfolding sw_ok_def
proof (intro conjI ballI allI impI)
  fix b j assume b: "b \<in> A - {a}" "j < length (pt b)" "in_swap (pt b ! j)"
  have "unat (pte_paddr (pt b ! j)) \<notin> swapped_slots (pt a) 0"
  proof
    assume "unat (pte_paddr (pt b ! j)) \<in> swapped_slots (pt a) 0"
    then obtain k where k: "k < length (pt a)" "in_swap (pt a ! k)" "pte_paddr (pt a ! k) = pte_paddr (pt b ! j)"
      by (auto simp: swapped_slots_def word_unat_eq_iff)
    from sw_unique [OF sw a _ k(1) b(2) k(2) b(3) k(3)] b(1) show False by simp
  qed
  then show "unat (pte_paddr (pt b ! j)) \<in> S - swapped_slots (pt a) 0" using sw_used [OF sw, of b j] b by simp
next
  fix b c j k assume bc: "b \<in> A - {a}" "c \<in> A - {a}" "j < length (pt b)" "k < length (pt c)"
    "in_swap (pt b ! j)" "in_swap (pt c ! k)" "pte_paddr (pt b ! j) = pte_paddr (pt c ! k)"
  then show "b = c" "j = k" using sw_unique [OF sw _ _ bc(3-7)] by simp_all
next
  fix x assume x: "x \<in> S - swapped_slots (pt a) 0"
  then obtain b j where b: "b \<in> A" "j < length (pt b)" "in_swap (pt b ! j)" "unat (pte_paddr (pt b ! j)) = x"
    using sw_needed [OF sw] by blast
  have "b \<noteq> a" using x b by (auto simp: swapped_slots_def)
  with b show "\<exists>b\<in>A - {a}. \<exists>j<length (pt b). in_swap (pt b ! j) \<and> unat (pte_paddr (pt b ! j)) = x" by blast
qed

lemma can_sleep_ok: "can_lock s \<Longrightarrow> can_sleep s k = k"
  by (simp add: can_sleep_def can_lock_def KASSERT_def)

lemma fold_kfree: "fold (\<lambda>_. kfree) xs s = s\<lparr>kheap := kheap s - length xs\<rparr>"
  by (induction xs arbitrary: s) (simp_all add: kfree_def)

text \<open>Closing a file leaves what a later read of any file returns.\<close>

definition close_laws :: "('h, 'd, 'b, 'x) vm_ops_scheme \<Rightarrow> bool" where
  "close_laws E \<longleftrightarrow> (\<forall>w d v off k. vop_read E v off k (vfs_close E w d) = vop_read E v off k d)"

lemma swap_inv_close:
  assumes "close_laws E"
  shows "swap_inv E n (s\<lparr>disk := vfs_close E w (disk s)\<rparr>) = swap_inv E n s"
    "slot_bytes E (s\<lparr>disk := vfs_close E w (disk s)\<rparr>) = slot_bytes E s"
  using assms
  by (auto simp: close_laws_def swap_inv_def swap_ok_def swap_slots_def slot_data_def in_interrupt_def slot_bytes_def
      fun_eq_iff)

definition drop_owner :: "nat \<Rightarrow> c_entry list \<Rightarrow> c_entry list" where
  "drop_owner a = map (\<lambda>e. if c_as e = Some a then e\<lparr>c_vaddr := 0, c_as := None\<rparr> else e)"

lemma as_destroy_eq:
  assumes inv: "vm_inv E n A s" and a: "a \<in> A" and cl: "close_laws E" and pt: "pt_at s a f k"
  shows "\<exists>sw u h. as_destroy E a s = Ret (s\<lparr>disk := vfs_close E (as_v (aspaces s a)) (disk s), kheap := h,
      swapMap := sw, used := u, coremap := drop_owner a (give_run f k (coremap s))\<rparr>) \<and>
    swap_inv E n (s\<lparr>disk := vfs_close E (as_v (aspaces s a)) (disk s), swapMap := sw, used := u\<rparr>) \<and>
    slot_bytes E (s\<lparr>disk := vfs_close E (as_v (aspaces s a)) (disk s), swapMap := sw, used := u\<rparr>) =
      slot_bytes E s |` (- swapped_slots (ptabs s a) 0)"
proof -
  note D = vm_invD [OF inv]
  let ?d = "vfs_close E (as_v (aspaces s a)) (disk s)"
  define s2 where "s2 = s\<lparr>disk := ?d, kheap := kheap s - length (as_segment (aspaces s a))\<rparr>"
  define s3 where "s3 = pt_locked a s2"
  have ok: "unat (npages (aspaces s a)) = length (ptabs s a)" "lock_idle (pt_lock (aspaces s a))"
    using D(8) [OF a] by (simp_all add: as_ok_def)
  have f2: "aspaces s2 = aspaces s" "ptabs s3 a = ptabs s a" by (simp_all add: s2_def s3_def)
  have i3: "swap_inv E n s3" "slot_bytes E s3 = slot_bytes E s"
    using swap_inv_cong(1) [of s3 "s\<lparr>disk := ?d\<rparr>" E n] swap_inv_cong(2) [of s3 "s\<lparr>disk := ?d\<rparr>" E] 
      swap_inv_close(1) [OF cl, where s = s and n = n] swap_inv_close(2) [OF cl, where s = s] D(5)
    by (simp_all add: s3_def s2_def pt_locked_def upd_as_def)
  have u: "slot_bytes E s3 (unat (pte_paddr (ptabs s3 a ! k))) \<noteq> None" if "k < length (ptabs s3 a)" "in_swap (ptabs s3 a ! k)" for k
    using sw_used [OF D(10) a] that unfolding f2 i3 by blast
  have "\<exists>sw u. clear_swapped E a 0 (length (ptabs s a)) s3 = Ret (s3\<lparr>swapMap := sw, used := u\<rparr>) \<and>
    swap_inv E n (s3\<lparr>swapMap := sw, used := u\<rparr>) \<and>
    slot_bytes E (s3\<lparr>swapMap := sw, used := u\<rparr>) = slot_bytes E s3 |` (- swapped_slots (ptabs s3 a) 0)"
    by (rule clear_swapped_ok [OF i3(1)]) (use u sw_unique [OF D(10) a a] f2(2) in auto)
  then obtain sw u where c: "clear_swapped E a 0 (length (ptabs s a)) s3 = Ret (s3\<lparr>swapMap := sw, used := u\<rparr>)"
    "swap_inv E n (s3\<lparr>swapMap := sw, used := u\<rparr>)"
    "slot_bytes E (s3\<lparr>swapMap := sw, used := u\<rparr>) = slot_bytes E s3 |` (- swapped_slots (ptabs s3 a) 0)"
    by (elim exE conjE) (rule that)
  let ?t = "s2\<lparr>swapMap := sw, used := u\<rparr>"
  have rel: "release_pt a (s3\<lparr>swapMap := sw, used := u\<rparr>) = Ret ?t"
    by (subst release_pt_by [OF ok(2)]) (simp_all add: s3_def s2_def pt_locked_def upd_as_def)
  have idle: "wc_threads (sem_wchan (lk_sem (pt_lock (aspaces ?t a)))) = []" using ok(2) f2 by (simp add: lock_idle_def)
  define t6 where "t6 = ?t\<lparr>kheap := kheap ?t - 5\<rparr>"
  have lock: "lock_destroy (pt_lock (aspaces ?t a)) ?t = Ret t6"
    unfolding lock_destroy_def sem_destroy_def wchan_destroy_def using idle by (simp add: kfree_def t6_def)
  have co6: "core_ok t6" "frame_addr t6 = frame_addr s"
    using D(6) core_map_cong(1) [of t6 s] core_map_cong(3) [of t6 s] by (simp_all add: t6_def s2_def)
  have P: "allocpages (coremap t6 ! f) = k" "f < coremapSize t6" "f + k \<le> coremapSize t6" "0 < k"
    "as_pt (aspaces t6 a) - MIPS_KSEG0 = frame_addr t6 f"
    using pt co6(2) by (auto simp: pt_at_def t6_def s2_def PADDR_TO_KVADDR_def)
  define t7 where "t7 = t6\<lparr>coremap := give_run f k (coremap t6)\<rparr>"
  have free: "freepages (as_pt (aspaces t6 a) - MIPS_KSEG0) t6 = Ret t7"
    unfolding P(5) t7_def by (rule freepages_eq [OF co6(1) P(2,1,3,4)])
  have "length (coremap t7) = coremapSize t7" using core_okD(2) [OF co6(1)] by (simp add: t7_def give_run_def)
  note fa = freeAs_eq [OF this, of "Some a", folded drop_owner_def]
  have ni: "\<not> in_interrupt s2" using D(4) by (simp add: s2_def can_lock_def in_interrupt_def)
  have acq: "acquire_pt a s2 = Ret s3" using ni ok(2) f2(1) by (simp add: acquire_pt_idle s3_def)
  have "as_destroy E a s = Ret (kfree (freeAs (Some a) t7))"
    using rel lock free c(1) acq ok(1) f2 s3_def
    by (simp add: as_destroy_def can_sleep_ok [OF D(4)] fold_kfree Let_def s2_def [symmetric])
  moreover have "kfree (freeAs (Some a) t7) = s\<lparr>disk := ?d, kheap := kheap t7 - 1, swapMap := sw, used := u,
      coremap := drop_owner a (give_run f k (coremap s))\<rparr>"
    unfolding fa by (simp add: kfree_def t7_def t6_def s2_def)
  moreover have "swap_inv E n (s3\<lparr>swapMap := sw, used := u\<rparr>) = swap_inv E n (s\<lparr>disk := ?d, swapMap := sw, used := u\<rparr>)"
    "slot_bytes E (s3\<lparr>swapMap := sw, used := u\<rparr>) = slot_bytes E (s\<lparr>disk := ?d, swapMap := sw, used := u\<rparr>)"
    by (rule swap_inv_cong; simp add: s3_def s2_def pt_locked_def upd_as_def)+
  ultimately show ?thesis using c(2,3) f2(2) i3(2) by (intro exI [of _ sw] exI [of _ u] exI [of _ "kheap t7 - 1"]) simp
qed

lemma drop_owner_simps [simp]:
  "length (drop_owner a cs) = length cs"
  "i < length cs \<Longrightarrow> drop_owner a cs ! i = (if c_as (cs ! i) = Some a then (cs ! i)\<lparr>c_vaddr := 0, c_as := None\<rparr> else cs ! i)"
  by (simp_all add: drop_owner_def)

text \<open>The frames after the page table and the pages are given back.\<close>

lemma released_frames:
  assumes co: "core_ok s" and b: "f + k \<le> coremapSize s"
    and c_def: "c = drop_owner a (give_run f k (coremap s))"
  shows "core_ok (s\<lparr>coremap := c\<rparr>)"
    "free_frames (s\<lparr>coremap := c\<rparr>) = free_frames s \<union> {f..<f + k} \<union> {i. i < coremapSize s \<and> owner s i = Some a}"
    "i < coremapSize s \<Longrightarrow> c_as (c ! i) = (if i \<in> {f..<f + k} \<or> owner s i = Some a then None else owner s i)"
proof -
  note L = core_okD(2) [OF co]
  have n: "c ! i = (if i \<in> {f..<f + k} then give_run f k (coremap s) ! i
      else if owner s i = Some a then (coremap s ! i)\<lparr>c_vaddr := 0, c_as := None\<rparr> else coremap s ! i)"
    if "i < coremapSize s" for i
    using that L b by (simp add: c_def give_run_def)
  have g: "c_as (give_run f k (coremap s) ! i) = None" "c_vaddr (give_run f k (coremap s) ! i) = 0"
    if "i \<in> {f..<f + k}" for i using that L b by (simp_all add: give_run_def)
  show "core_ok (s\<lparr>coremap := c\<rparr>)"
  proof (rule core_ok_upd [OF co])
    show "length c = coremapSize s" using L by (simp add: c_def give_run_def)
    show "c_vaddr (c ! i) AND 3 = 2" if "i < coremapSize s" "c_as (c ! i) \<noteq> None" for i
      using that core_okD(7) [OF co that(1)] g by (simp add: n split: if_splits)
  qed
  show "i < coremapSize s \<Longrightarrow> c_as (c ! i) = (if i \<in> {f..<f + k} \<or> owner s i = Some a then None else owner s i)"
    using g by (simp add: n)
  have fr: "frame_free (s\<lparr>coremap := c\<rparr>) i \<longleftrightarrow> i \<in> {f..<f + k} \<or> owner s i = Some a \<or> frame_free s i"
    if "i < coremapSize s" for i
    using that g by (auto simp: n CUSED_def CRES_def)
  show "free_frames (s\<lparr>coremap := c\<rparr>) = free_frames s \<union> {f..<f + k} \<union> {i. i < coremapSize s \<and> owner s i = Some a}"
  proof (rule set_eqI)
    show "i \<in> free_frames (s\<lparr>coremap := c\<rparr>) \<longleftrightarrow> i \<in> free_frames s \<union> {f..<f + k} \<union> {i. i < coremapSize s \<and> owner s i = Some a}" for i
      using fr [of i] b by (cases "i < coremapSize s") (auto simp: free_frames_def)
  qed
qed

lemma as_destroy_ok:
  assumes inv: "vm_inv E n A s" and a: "a \<in> A" and cl: "close_laws E" and pt: "pt_at s a f k"
  shows "\<exists>t. as_destroy E a s = Ret t \<and> vm_inv E n (A - {a}) t \<and>
    free_frames t = free_frames s \<union> {f..<f + k} \<union> {i. i < coremapSize s \<and> owner s i = Some a} \<and>
    slot_bytes E t = slot_bytes E s |` (- swapped_slots (ptabs s a) 0) \<and>
    (\<forall>b\<in>A - {a}. ptabs t b = ptabs s b \<and> (\<forall>j<length (ptabs s b). content E t b j = content E s b j))"
proof -
  note D = vm_invD [OF inv]
  let ?d = "vfs_close E (as_v (aspaces s a)) (disk s)" and ?c = "drop_owner a (give_run f k (coremap s))"
  from as_destroy_eq [OF assms] obtain sw u h where
    run: "as_destroy E a s = Ret (s\<lparr>disk := ?d, kheap := h, swapMap := sw, used := u, coremap := ?c\<rparr>)" (is "_ = Ret ?t")
    and sw: "swap_inv E n (s\<lparr>disk := ?d, swapMap := sw, used := u\<rparr>)"
    "slot_bytes E (s\<lparr>disk := ?d, swapMap := sw, used := u\<rparr>) = slot_bytes E s |` (- swapped_slots (ptabs s a) 0)"
    by (elim exE conjE) (rule that)
  have b: "f + k \<le> coremapSize s" "\<And>i. i \<in> {f..<f + k} \<Longrightarrow> owner s i = None" using pt by (auto simp: pt_at_def)
  note R = released_frames [OF D(6) b(1), where a = a and c = ?c, OF refl]
  have sq: "swap_inv E n ?t = swap_inv E n (s\<lparr>disk := ?d, swapMap := sw, used := u\<rparr>)"
    "slot_bytes E ?t = slot_bytes E (s\<lparr>disk := ?d, swapMap := sw, used := u\<rparr>)"
    by (rule swap_inv_cong; simp)+
  have cq: "core_ok ?t = core_ok (s\<lparr>coremap := ?c\<rparr>)" "free_frames ?t = free_frames (s\<lparr>coremap := ?c\<rparr>)"
    by (rule core_map_cong(1,2); simp)+
  have fq: "frame_addr ?t = frame_addr s" by (simp add: frame_addr_def fun_eq_iff)
  have tq: "tlb_wf E ?t = tlb_wf E s" "tlb_lookup E ?t = tlb_lookup E s" by (rule tlb_cong; simp)+
  have oq: "proc_getas ?t = proc_getas s" "can_lock ?t = can_lock s" "stats_ok ?t = stats_ok s"
    by (rule proc_getas_cong can_lock_cong stats_ok_cong; simp)+
  have own: "owner ?t i = (if owner s i = Some a then None else owner s i)" if "i < coremapSize s" for i
    using R(3) [OF that] b(2) by auto
  have slots: "slot_bytes E ?t = slot_bytes E s |` (- swapped_slots (ptabs s a) 0)" unfolding sq(2) sw(2) ..
  have dom: "dom (slot_bytes E ?t) = dom (slot_bytes E s) - swapped_slots (ptabs s a) 0"
    unfolding slots by (auto simp: dom_def restrict_map_def split: if_splits)
  note S = sw_remove [OF D(10) a, folded dom]
  have "mm_ok (frame_addr s) (coremapSize s) (owner ?t) (ptabs s) (A - {a}) {}"
    by (rule mm_remove [OF D(9) own])
  then have "vm_inv E n (A - {a}) ?t"
    using D(1,2,3,4,7,8,11) sw(1) R(1) S unfolding vm_invH_def sq(1) cq(1) fq tq oq by simp
  moreover have "content E ?t b j = content E s b j" if "b \<in> A - {a}" "j < length (ptabs s b)" for b j
    using sw_used [OF S that(1,2)] that(2) unfolding dom by (auto simp: content_def slots restrict_map_def)
  ultimately show ?thesis using run R(2) cq(2) slots by (intro exI [of _ ?t]) simp
qed

section \<open>The life of an address space\<close>

text \<open>
  \<open>loadable E n A a s\<close>: \<open>a\<close> is a new address space, next to the address spaces \<open>A\<close>, with sorted segments
  below the stack and room for its page table.
\<close>

definition loadable ::
  "('h, 'd, 'b, 'x) vm_ops_scheme \<Rightarrow> nat \<Rightarrow> nat set \<Rightarrow> nat \<Rightarrow> ('h, 'd, 'b, 'a) core_st_scheme \<Rightarrow> bool" where
  "loadable E n A a s \<longleftrightarrow>
     vm_inv E n A s \<and> a \<notin> A \<and> lock_idle (pt_lock (aspaces s a)) \<and>
     (\<forall>i<coremapSize s. owner s i \<noteq> Some a) \<and>
     (proc_getas s = Some a \<longrightarrow> tlb_lookup E s = (\<lambda>_. None)) \<and>
     (\<exists>km. kmem s = True # km) \<and> segs_ok (load_segs s a) \<and>
     pt_frames (length (pt_of_segments (load_segs s a))) < unat (getAvailableRam s) \<and>
     (\<exists>g. {g..<g + pt_frames (length (pt_of_segments (load_segs s a)))} \<subseteq> free_frames s)"

lemma loadableE:
  assumes "loadable E n A a s"
  obtains f t where "as_prepare_load E a s = Ret (None, t)" "vm_inv E n (insert a A) t"
    "as_segment (aspaces t a) = load_segs s a" "ptabs t a = pt_of_segments (load_segs s a)"
    "pt_at t a f (pt_frames (length (pt_of_segments (load_segs s a))))"
    "{f..<f + pt_frames (length (pt_of_segments (load_segs s a)))} \<subseteq> free_frames s"
    "free_frames t = free_frames s - {f..<f + pt_frames (length (pt_of_segments (load_segs s a)))}"
    "slot_bytes E t = slot_bytes E s"
    "\<forall>b\<in>A. ptabs t b = ptabs s b \<and> (\<forall>k. content E t b k = content E s b k)"
proof -
  from assms obtain km g where p: "vm_inv E n A s" "a \<notin> A" "lock_idle (pt_lock (aspaces s a))"
    "\<forall>i<coremapSize s. owner s i \<noteq> Some a" "proc_getas s = Some a \<longrightarrow> tlb_lookup E s = (\<lambda>_. None)"
    "kmem s = True # km" "segs_ok (load_segs s a)"
    "pt_frames (length (pt_of_segments (load_segs s a))) < unat (getAvailableRam s)"
    "{g..<g + pt_frames (length (pt_of_segments (load_segs s a)))} \<subseteq> free_frames s"
    unfolding loadable_def by (elim exE conjE) (rule that)
  from as_prepare_load_ok [OF p] show ?thesis by (elim exE conjE) (rule that)
qed

text \<open>Nothing of a new address space is in memory or in the swap file.\<close>

lemma fresh_holds_nothing:
  assumes inv: "vm_inv E n B t" and pt: "ptabs t a = pt_of_segments segs" "segs_ok segs"
  shows "{i. i < coremapSize t \<and> owner t i = Some a} = {}" "swapped_slots (ptabs t a) 0 = {}"
proof -
  have e: "\<not> in_mem (ptabs t a ! j)" "\<not> in_swap (ptabs t a ! j)" if "j < length (ptabs t a)" for j
    using fresh_entry(2,3) [OF pt(2)] that unfolding pt(1) by simp_all
  show "{i. i < coremapSize t \<and> owner t i = Some a} = {}"
    using mm_owned(2) [OF vm_invD(9) [OF inv]] e(1) by blast
  show "swapped_slots (ptabs t a) 0 = {}" using e(2) by (auto simp: swapped_slots_def)
qed

lemma prepare_destroy:
  assumes ld: "loadable E n A a s" and cl: "close_laws E"
  shows "\<exists>t u. as_prepare_load E a s = Ret (None, t) \<and> as_destroy E a t = Ret u \<and> vm_inv E n A u \<and>
    free_frames u = free_frames s \<and> slot_bytes E u = slot_bytes E s \<and>
    (\<forall>b\<in>A. ptabs u b = ptabs s b \<and> (\<forall>j<length (ptabs s b). content E u b j = content E s b j))"
proof (rule loadableE [OF ld])
  fix f t
  let ?k = "pt_frames (length (pt_of_segments (load_segs s a)))"
  assume t: "as_prepare_load E a s = Ret (None, t)" "vm_inv E n (insert a A) t"
    "ptabs t a = pt_of_segments (load_segs s a)" "pt_at t a f ?k" "{f..<f + ?k} \<subseteq> free_frames s"
    "free_frames t = free_frames s - {f..<f + ?k}" "slot_bytes E t = slot_bytes E s"
    and oth: "\<forall>b\<in>A. ptabs t b = ptabs s b \<and> (\<forall>k. content E t b k = content E s b k)"
  have a: "a \<notin> A" "segs_ok (load_segs s a)" using ld by (simp_all add: loadable_def)
  note F = fresh_holds_nothing [OF t(2,3) a(2)]
  from as_destroy_ok [OF t(2) insertI1 cl t(4)] obtain u where u: "as_destroy E a t = Ret u"
    "vm_inv E n (insert a A - {a}) u" "free_frames u = free_frames t \<union> {f..<f + ?k}"
    "slot_bytes E u = slot_bytes E t"
    "\<forall>b\<in>insert a A - {a}. ptabs u b = ptabs t b \<and> (\<forall>j<length (ptabs t b). content E u b j = content E t b j)"
    unfolding F by (elim exE conjE) (rule that; simp add: restrict_map_def fun_eq_iff)
  have "free_frames u = free_frames s" using u(3) t(5,6) by blast
  moreover have "insert a A - {a} = A" using a(1) by blast
  ultimately show ?thesis using t(1,7) u(1,2,4,5) oth by (intro exI [of _ t] exI [of _ u]) simp
qed

section \<open>Address spaces on the concrete machine\<close>

text \<open>
  A new address space with one page of text, on a machine with three free frames.
\<close>

definition sim_new :: "(sim_tlb, sim_disk, sim_bitmap) core_st" where
  "sim_new = sim_free\<lparr>kmem := [True], aspaces := (\<lambda>_. (sim_as [])\<lparr>as_segment := [sim_seg 0x400000 7]\<rparr>)\<rparr>"

lemma sim_new_segs: "load_segs sim_new 0 = [sim_seg 0x400000 7,
    \<lparr>seg_start = 0x7FFEE000, seg_size = 0x12000, seg_filesize = 0x12000, seg_npages = 18, seg_rwx = 6,
     seg_offset = 0, initoffset = 0\<rparr>]"
  by (simp add: load_segs_def sim_new_def stack_seg_def region_def Let_def STACKPAGES_def USERSTACK_def
      PAGE_SIZE_def PAGE_FRAME_def PF_R_def PF_W_def)

lemma sim_new_pages: "length (pt_of_segments (load_segs sim_new 0)) = 19"
  by (simp add: sim_new_segs pt_of_segments_def)

lemma sim_new_ready:
  "vm_inv (sim_vm_ops 4) 4 {} sim_new" "lock_idle (pt_lock (aspaces sim_new 0))"
  "\<And>i. i < coremapSize sim_new \<Longrightarrow> owner sim_new i \<noteq> Some 0"
  "proc_getas sim_new = Some 0 \<Longrightarrow> tlb_lookup (sim_vm_ops 4) sim_new = (\<lambda>_. None)"
  "kmem sim_new = True # []" "segs_ok (load_segs sim_new 0)"
  "pt_frames (length (pt_of_segments (load_segs sim_new 0))) < unat (getAvailableRam sim_new)"
  "{0..<0 + pt_frames (length (pt_of_segments (load_segs sim_new 0)))} \<subseteq> free_frames sim_new"
proof -
  have f: "free_frames sim_new = free_frames sim_free" by (simp add: sim_new_def free_frames_def)
  show "{0..<0 + pt_frames (length (pt_of_segments (load_segs sim_new 0)))} \<subseteq> free_frames sim_new"
    unfolding f sim_new_pages by (simp add: pt_frames_def)
  show "pt_frames (length (pt_of_segments (load_segs sim_new 0))) < unat (getAvailableRam sim_new)"
    unfolding sim_new_pages pt_frames_def by (simp add: getAvailableRam_def sim_new_def sim_free_def sim_vm_def sim_boot_def)
  show "segs_ok (load_segs sim_new 0)"
    by (simp add: sim_new_segs seg_ok_def seg_end_def) (simp add: sim_seg_def)
  show lk: "lock_idle (pt_lock (aspaces sim_new 0))" by (simp add: sim_new_def)
  show "kmem sim_new = True # []" by (simp add: sim_new_def)
  show own: "owner sim_new i \<noteq> Some 0" if "i < coremapSize sim_new" for i
    using that by (auto simp: sim_new_def sim_free_def less_Suc_eq numeral_3_eq_3)
  have q: "tlb_wf (sim_vm_ops 4) sim_new = tlb_wf (sim_vm_ops 4) (sim_vm [] [])"
    "tlb_lookup (sim_vm_ops 4) sim_new = tlb_lookup (sim_vm_ops 4) (sim_vm [] [])"
    by (rule tlb_cong; simp add: sim_new_def sim_free_def)+
  then show "tlb_lookup (sim_vm_ops 4) sim_new = (\<lambda>_. None)" by simp
  have w: "swap_inv (sim_vm_ops 4) 4 sim_new = swap_inv (sim_vm_ops 4) 4 (sim_vm [] [])"
    "slot_bytes (sim_vm_ops 4) sim_new = slot_bytes (sim_vm_ops 4) (sim_vm [] [])"
    by (rule swap_inv_cong; simp add: sim_new_def sim_free_def)+
  have o: "can_lock sim_new = can_lock (sim_vm [] [])" "stats_ok sim_new = stats_ok (sim_vm [] [])"
    by (rule can_lock_cong stats_ok_cong; simp add: sim_new_def sim_free_def)+
  have "core_ok sim_new = core_ok sim_free" by (rule core_map_cong) (simp_all add: sim_new_def)
  moreover have "swap_inv (sim_vm_ops 4) 4 (sim_vm [] [])"
    unfolding sim_vm_def by (rule sim_boot_swap_inv) simp_all
  moreover have "firstpaddr sim_new = 0x20000" by (simp add: sim_new_def sim_free_def)
  moreover have "mm_ok (frame_addr sim_new) (coremapSize sim_new) (owner sim_new) (ptabs sim_new) {} {}"
    by (auto simp: mm_ok_def sim_new_def sim_free_def less_Suc_eq numeral_3_eq_3)
  moreover have "dom (slot_bytes (sim_vm_ops 4) sim_new) = {}" unfolding w by simp
  ultimately show "vm_inv (sim_vm_ops 4) 4 {} sim_new"
    using q w o by (simp add: vm_invH_def sw_ok_def)
qed


lemma sim_new_loadable: "loadable (sim_vm_ops 4) 4 {} 0 sim_new"
  unfolding loadable_def using sim_new_ready by blast

lemma sim_new_free: "free_frames sim_new = {..<3}"
proof -
  have "free_frames sim_new = free_frames sim_free" by (simp add: sim_new_def free_frames_def)
  then show ?thesis by simp
qed

lemma sim_close: "close_laws (sim_vm_ops n)"
  unfolding close_laws_def sim_vm_ops_simps by simp

text \<open>The address space of \<open>sim_vm\<close> with a frame for its page table.\<close>

definition sim_dying :: "(sim_tlb, sim_disk, sim_bitmap) core_st" where
  "sim_dying = (sim_vm [] sim_pt)\<lparr>coremap := [sim_frame, \<lparr>c_vaddr = 3, c_as = None, allocpages = 1\<rparr>],
     coremapSize := 2, aspaces := (\<lambda>_. (sim_as sim_pt)\<lparr>as_pt := 0x80021000\<rparr>)\<rparr>"

lemma sim_dying_inv:
  "vm_inv (sim_vm_ops 4) 4 {0} sim_dying" "pt_at sim_dying 0 1 1"
  "free_frames sim_dying = {}" "{i. i < coremapSize sim_dying \<and> owner sim_dying i = Some 0} = {0}"
proof -
  show "free_frames sim_dying = {}"
    by (auto simp: sim_dying_def free_frames_def sim_frame_def CUSED_def CRES_def nth_Cons' split: if_splits)
  show "{i. i < coremapSize sim_dying \<and> owner sim_dying i = Some 0} = {0}"
    by (auto simp: sim_dying_def sim_frame_def less_Suc_eq numeral_2_eq_2)
  show "pt_at sim_dying 0 1 1"
    by (simp add: pt_at_def sim_dying_def frame_addr_def PADDR_TO_KVADDR_def MIPS_KSEG0_def PAGE_SIZE_def)
  have q: "tlb_wf (sim_vm_ops 4) sim_dying = tlb_wf (sim_vm_ops 4) (sim_vm [] sim_pt)"
    "tlb_lookup (sim_vm_ops 4) sim_dying = tlb_lookup (sim_vm_ops 4) (sim_vm [] sim_pt)"
    by (rule tlb_cong; simp add: sim_dying_def)+
  have w: "swap_inv (sim_vm_ops 4) 4 sim_dying = swap_inv (sim_vm_ops 4) 4 (sim_vm [] sim_pt)"
    "slot_bytes (sim_vm_ops 4) sim_dying = slot_bytes (sim_vm_ops 4) (sim_vm [] sim_pt)"
    by (rule swap_inv_cong; simp add: sim_dying_def)+
  have o: "can_lock sim_dying = can_lock (sim_vm [] sim_pt)" "stats_ok sim_dying = stats_ok (sim_vm [] sim_pt)"
    by (rule can_lock_cong stats_ok_cong; simp add: sim_dying_def)+
  have "core_ok sim_dying" by (simp add: core_ok_def sim_dying_def sim_frame_def nth_Cons')
  moreover have "mm_ok (frame_addr sim_dying) (coremapSize sim_dying) (owner sim_dying) (ptabs sim_dying) {0} {}"
    by (auto simp: mm_ok_def sim_dying_def sim_pt_def sim_frame_def less_2_cases_iff less_Suc_eq PAGE_SIZE_def frame_addr_def)
  moreover have "sw_ok {} (ptabs sim_dying) {0}"
    by (auto simp: sw_ok_def sim_dying_def sim_pt_def less_Suc_eq)
  moreover have "dom (slot_bytes (sim_vm_ops 4) sim_dying) = {}" unfolding w by simp
  moreover have "swap_inv (sim_vm_ops 4) 4 (sim_vm [] sim_pt)" by (rule vm_invD(5) [OF sim_vm_inv])
  moreover have "as_ok (aspaces sim_dying 0)" "firstpaddr sim_dying = 0x20000"
    using sim_pt_ok by (simp_all add: sim_dying_def as_ok_def)
  ultimately show "vm_inv (sim_vm_ops 4) 4 {0} sim_dying"
    using q w o by (simp add: vm_invH_def coherent_def)
qed

end
