(* ===== verification/User_Memory.thy ===== *)
theory User_Memory
  imports Addrspace_Correct
begin


text \<open>
  What a user program sees: a flat memory. An access goes through the TLB; when the TLB has no
  entry for the page, or not the right to write, the hardware raises the exception that makes the
  kernel call \<open>vm_fault\<close> and runs the instruction again. The theory shows that loads and stores of a
  process behave as on an array of bytes, whatever pages the kernel moves between memory and the
  swap file meanwhile.
\<close>

section \<open>Accesses\<close>

text \<open>The translation of the MMU: the physical address and the right to write.\<close>

definition mmu ::
  "('h, 'd, 'b, 'x) os_ops_scheme \<Rightarrow> vaddr_t \<Rightarrow> ('h, 'd, 'b, 'a) core_st_scheme \<Rightarrow> (paddr_t \<times> bool) option" where
  "mmu E va s = map_option (\<lambda>lo. ((lo AND PAGE_FRAME) + (va AND NOT PAGE_FRAME), lo AND TLBLO_DIRTY \<noteq> 0))
     (tlb_lookup E s (va AND PAGE_FRAME))"

definition exn_of ::
  "('h, 'd, 'b, 'x) os_ops_scheme \<Rightarrow> bool \<Rightarrow> vaddr_t \<Rightarrow> ('h, 'd, 'b, 'a) core_st_scheme \<Rightarrow> fault_type option" where
  "exn_of E wr va s = (case mmu E va s of
       None \<Rightarrow> Some (if wr then VM_FAULT_WRITE else VM_FAULT_READ)
     | Some (p, w) \<Rightarrow> if wr \<and> \<not> w then Some VM_FAULT_READONLY else None)"

partial_function (option) user_access ::
  "('h, 'd, 'b, 'x) os_ops_scheme \<Rightarrow> bool \<Rightarrow> vaddr_t \<Rightarrow> ('h, 'd, 'b, 'a) core_st_scheme \<Rightarrow>
     (paddr_t option \<times> ('h, 'd, 'b, 'a) core_st_scheme) kres option" where
  "user_access E wr va s = (case exn_of E wr va s of
       None \<Rightarrow> Some (Ret (map_option fst (mmu E va s), s))
     | Some ft \<Rightarrow> (case vm_fault E ft va s of
           Ret (err, t) \<Rightarrow> if err \<noteq> None then Some (Ret (None, t)) else user_access E wr va t
         | Panic m \<Rightarrow> Some (Panic m)
         | Undef \<Rightarrow> Some Undef
         | Sleeps \<Rightarrow> Some Sleeps
         | Diverges \<Rightarrow> Some Diverges))"

datatype uop = Load vaddr_t | Store vaddr_t byte

definition user_op ::
  "('h, 'd, 'b, 'x) os_ops_scheme \<Rightarrow> uop \<Rightarrow> ('h, 'd, 'b, 'a) core_st_scheme \<Rightarrow>
     (byte list \<times> ('h, 'd, 'b, 'a) core_st_scheme) kres" where
  "user_op E c s = (case c of
       Load va \<Rightarrow> (case user_access E False va s of
           None \<Rightarrow> Diverges
         | Some r \<Rightarrow> kbind r (\<lambda>(p, t). case p of None \<Rightarrow> Undef | Some p \<Rightarrow> Ret ([physmem t p], t)))
     | Store va b \<Rightarrow> (case user_access E True va s of
           None \<Rightarrow> Diverges
         | Some r \<Rightarrow> kbind r (\<lambda>(p, t). case p of None \<Rightarrow> Undef
             | Some p \<Rightarrow> Ret ([], t\<lparr>physmem := mem_write p [b] (physmem t)\<rparr>))))"

fun user_run ::
  "('h, 'd, 'b, 'x) os_ops_scheme \<Rightarrow> uop list \<Rightarrow> ('h, 'd, 'b, 'a) core_st_scheme \<Rightarrow>
     (byte list \<times> ('h, 'd, 'b, 'a) core_st_scheme) kres" where
  "user_run E [] s = Ret ([], s)"
| "user_run E (c # cs) s =
     kbind (user_op E c s) (\<lambda>(bs, t). kbind (user_run E cs t) (\<lambda>(bs', u). Ret (bs @ bs', u)))"

text \<open>The same program on an array of bytes.\<close>

fun flat_run :: "uop list \<Rightarrow> (vaddr_t \<Rightarrow> byte) \<Rightarrow> byte list \<times> (vaddr_t \<Rightarrow> byte)" where
  "flat_run [] m = ([], m)"
| "flat_run (Load va # cs) m = (let (bs, m') = flat_run cs m in (m va # bs, m'))"
| "flat_run (Store va b # cs) m = flat_run cs (m(va := b))"

section \<open>Room for every page\<close>

text \<open>
  \<open>all_fit E n A a s\<close>: the swap file has a slot for each page of the address spaces, writes to it succeed,
  and the process \<open>a\<close> has a frame or can get one.
\<close>

definition all_fit ::
  "('h, 'd, 'b, 'x) os_ops_scheme \<Rightarrow> nat \<Rightarrow> nat set \<Rightarrow> nat \<Rightarrow> ('h, 'd, 'b, 'a) core_st_scheme \<Rightarrow> bool" where
  "all_fit E n A a s \<longleftrightarrow> finite A \<and> card (all_pages A s) \<le> n \<and> writes_ok E \<and>
     ((\<exists>i<coremapSize s. frame_free s i) \<or> (\<exists>i<coremapSize s. owner s i = Some a))"

lemma finite_all_pages: "finite A \<Longrightarrow> finite (all_pages A s)"
proof -
  assume "finite A"
  then have "finite (SIGMA b:A. {..<length (ptabs s b)})" by simp
  moreover have "all_pages A s \<subseteq> (SIGMA b:A. {..<length (ptabs s b)})" by (auto simp: all_pages_def)
  ultimately show ?thesis by (rule rev_finite_subset)
qed

lemma all_fit_room:
  assumes inv: "vm_inv E n A s" and fit: "all_fit E n A a s"
  shows "room E n a s"
proof (cases "\<exists>i<coremapSize s. frame_free s i")
  case False
  then obtain i where i: "i < coremapSize s" "owner s i = Some a" using fit by (auto simp: all_fit_def)
  have "\<exists>k<n. \<not> bitmap_isset E (swapMap s) k"
  proof (rule ccontr)
    assume "\<not> ?thesis"
    then have all: "{..<n} \<subseteq> dom (slot_bytes E s)" by (auto simp: slot_bytes_def)
    let ?Q = "{(b, k). (b, k) \<in> all_pages A s \<and> in_swap (pte s b k)}"
    have "{..<n} \<subseteq> (\<lambda>(b, k). unat (pte_paddr (pte s b k))) ` ?Q"
    proof
      fix x assume "x \<in> {..<n}"
      then have "x \<in> dom (slot_bytes E s)" using all by blast
      from sw_needed [OF vm_invD(10) [OF inv] this] obtain b k
        where bk: "b \<in> A" "k < length (ptabs s b)" "in_swap (pte s b k)" "unat (pte_paddr (pte s b k)) = x" by blast
      then show "x \<in> (\<lambda>(b, k). unat (pte_paddr (pte s b k))) ` ?Q"
        by (intro image_eqI [of _ _ "(b, k)"]) (auto simp: all_pages_def)
    qed
    moreover have fin: "finite (all_pages A s)" using fit finite_all_pages by (auto simp: all_fit_def)
    then have fQ: "finite ?Q" by (rule rev_finite_subset) auto
    ultimately have "n \<le> card ?Q" using surj_card_le [OF fQ] by fastforce
    moreover from mm_owned [OF vm_invD(9) [OF inv] i] obtain j
      where j: "a \<in> A" "j < length (ptabs s a)" "in_mem (pte s a j)" by blast
    have "\<not> in_swap (pte s a j)" using vm_invD(8) [OF inv j(1)] j by (auto simp: as_ok_def ent_ok_def)
    then have "?Q \<subset> all_pages A s" using j by (auto simp: all_pages_def)
    then have "card ?Q < card (all_pages A s)" by (rule psubset_card_mono [OF fin])
    ultimately show False using fit by (simp add: all_fit_def)
  qed
  with i fit show ?thesis by (auto simp: room_def all_fit_def)
qed (simp add: room_def)


section \<open>One access\<close>

lemma vaddr_unique:
  assumes "as_ok x" "j < length (as_ptab x)" "k < length (as_ptab x)" "pte_vaddr (as_ptab x ! j) = pte_vaddr (as_ptab x ! k)"
  shows "j = k"
  using find_page [OF assms(1,2)] find_page [OF assms(1,3)] assms(4) by auto

lemma entrylo_simps:
  assumes "unat p mod 4096 = 0"
  shows "tlb_entrylo p ro AND PAGE_FRAME = p" "tlb_entrylo p ro AND TLBLO_DIRTY \<noteq> 0 \<longleftrightarrow> \<not> ro"
proof -
  note p = aligned_and_PAGE_FRAME [OF assms]
  show "tlb_entrylo p ro AND PAGE_FRAME = p"
    using p by (simp add: tlb_entrylo_def bit.conj_disj_distrib2 TLBLO_DIRTY_def TLBLO_VALID_def PAGE_FRAME_def)
  have "p AND TLBLO_DIRTY = (p AND PAGE_FRAME) AND TLBLO_DIRTY" using p by simp
  also have "\<dots> = p AND (PAGE_FRAME AND TLBLO_DIRTY)" by (simp add: and.assoc)
  also have "\<dots> = 0" by (simp add: PAGE_FRAME_def TLBLO_DIRTY_def)
  finally show "tlb_entrylo p ro AND TLBLO_DIRTY \<noteq> 0 \<longleftrightarrow> \<not> ro"
    by (simp add: tlb_entrylo_def bit.conj_disj_distrib2 TLBLO_VALID_def) (simp add: TLBLO_DIRTY_def)
qed

lemma resident_frame:
  assumes inv: "vm_inv E n A s" and j: "a \<in> A" "j < length (ptabs s a)" "in_mem (pte s a j)"
  obtains i where "i < coremapSize s" "owner s i = Some a" "pte_paddr (pte s a j) = frame_addr s i"
    "unat (pte_paddr (pte s a j)) mod 4096 = 0"
proof -
  from mm_resident [OF vm_invD(9) [OF inv] j] obtain i
    where i: "i < coremapSize s" "owner s i = Some a" "pte_paddr (pte s a j) = frame_addr s i" by blast
  with frame_addr_aligned [OF vm_invD(6) [OF inv] i(1)] show ?thesis by (intro that [of i]) simp_all
qed

text \<open>\<open>reached E n A a j s t\<close>: page \<open>j\<close> of \<open>a\<close> is in memory and the TLB knows it, and no byte is lost.\<close>

definition reached ::
  "('h, 'd, 'b, 'x) os_ops_scheme \<Rightarrow> nat \<Rightarrow> nat set \<Rightarrow> nat \<Rightarrow> nat \<Rightarrow> ('h, 'd, 'b, 'a) core_st_scheme \<Rightarrow>
     ('h, 'd, 'b, 'a) core_st_scheme \<Rightarrow> bool" where
  "reached E n A a j s t \<longleftrightarrow> vm_inv E n A t \<and> same_rest s t \<and> same_shape A s t \<and> in_mem (pte t a j) \<and>
     pages_kept E (all_pages A s - {(a, j)}) s t \<and>
     (content E s a j \<noteq> None \<longrightarrow> content E t a j = content E s a j) \<and>
     (content E s a j = None \<longrightarrow> seg_start (last (as_segment (aspaces s a))) \<le> pte_vaddr (pte s a j) \<longrightarrow>
        content E t a j = Some (replicate 4096 0))"

lemma mmu_hit:
  assumes inv: "vm_inv E n A s" and cur: "proc_getas s = Some a" and a: "a \<in> A"
    and j: "j < length (ptabs s a)" "pte_vaddr (pte s a j) = va AND PAGE_FRAME"
    and hit: "tlb_lookup E s (va AND PAGE_FRAME) \<noteq> None"
  shows "in_mem (pte s a j) \<and> mmu E va s = Some (pte_paddr (pte s a j) + (va AND NOT PAGE_FRAME), \<not> readonly (pte s a j))"
proof -
  from hit obtain lo where lo: "tlb_lookup E s (va AND PAGE_FRAME) = Some lo" by blast
  with vm_invD(11) [OF inv a cur] obtain k where k: "k < length (ptabs s a)" "pte_vaddr (pte s a k) = va AND PAGE_FRAME"
    "in_mem (pte s a k)" "lo = tlb_entrylo (pte_paddr (pte s a k)) (pte_rwx (pte s a k) AND 2 = 0)"
    unfolding coherent_def by blast
  have "k = j" using vaddr_unique [OF vm_invD(8) [OF inv a] k(1) j(1)] k(2) j(2) by simp
  moreover have "unat (pte_paddr (pte s a k)) mod 4096 = 0" using resident_frame [OF inv a k(1,3)] by blast
  ultimately show ?thesis using lo k(3,4) entrylo_simps by (simp add: mmu_def readonly_def)
qed

lemma user_access_ok:
  assumes inv: "vm_inv E n A s" and cur: "proc_getas s = Some a" and a: "a \<in> A"
    and j: "j < length (ptabs s a)" "pte_vaddr (pte s a j) = va AND PAGE_FRAME"
    and fit: "all_fit E n A a s" and wr: "wr \<longrightarrow> \<not> readonly (pte s a j)"
  shows "\<exists>t. user_access E wr va s = Some (Ret (Some (pte_paddr (pte t a j) + (va AND NOT PAGE_FRAME)), t)) \<and>
    reached E n A a j s t"
proof (cases "tlb_lookup E s (va AND PAGE_FRAME)")
  case (Some lo)
  then have m: "in_mem (pte s a j)" "mmu E va s = Some (pte_paddr (pte s a j) + (va AND NOT PAGE_FRAME), \<not> readonly (pte s a j))"
    using mmu_hit [OF inv cur a j] by simp_all
  have "content E s a j \<noteq> None" using m(1) by (simp add: content_def)
  then have "reached E n A a j s s"
    using inv m(1) by (auto simp: reached_def same_shape_def pages_kept_def)
  moreover have "exn_of E wr va s = None" using m(2) wr by (simp add: exn_of_def)
  ultimately show ?thesis using m(2) by (intro exI [of _ s]) (simp add: user_access.simps)
next
  case None
  let ?ft = "if wr then VM_FAULT_WRITE else VM_FAULT_READ"
  have ft: "?ft \<in> {VM_FAULT_READ, VM_FAULT_WRITE}" by simp
  have ex: "exn_of E wr va s = Some ?ft" using None by (simp add: exn_of_def mmu_def)
  from vm_fault_serves [OF inv cur a ft j None disjI2 [OF all_fit_room [OF inv fit]]] obtain t
    where t: "vm_fault E ?ft va s = Ret (None, t)" "served E n A a j s t" by blast
  have r: "reached E n A a j s t" using t(2) by (simp add: served_def reached_def)
  then have T: "vm_inv E n A t" "proc_getas t = Some a" "j < length (ptabs t a)"
    "pte_vaddr (pte t a j) = va AND PAGE_FRAME" "readonly (pte t a j) = readonly (pte s a j)"
    using same_restD(1) [of s t] cur a j by (auto simp: reached_def same_shape_def readonly_def)
  have "tlb_lookup E t (va AND PAGE_FRAME) \<noteq> None" using t(2) j(2) by (auto simp: served_def)
  then have m: "mmu E va t = Some (pte_paddr (pte t a j) + (va AND NOT PAGE_FRAME), \<not> readonly (pte t a j))"
    using mmu_hit [OF T(1,2) a T(3,4)] by simp
  then have "exn_of E wr va t = None" using wr T(5) by (simp add: exn_of_def)
  then have "user_access E wr va t = Some (Ret (Some (pte_paddr (pte t a j) + (va AND NOT PAGE_FRAME)), t))"
    using m by (simp add: user_access.simps)
  with ex t(1) r show ?thesis by (intro exI [of _ t]) (subst user_access.simps, simp)
qed

lemma all_fit_reached:
  assumes fit: "all_fit E n A a s" and a: "a \<in> A" "j < length (ptabs s a)" and r: "reached E n A a j s t"
  shows "all_fit E n A a t"
proof -
  have len: "length (ptabs t b) = length (ptabs s b)" if "b \<in> A" for b
    using r that by (simp add: reached_def same_shape_def)
  then have "all_pages A t = all_pages A s" by (auto simp: all_pages_def)
  moreover have "vm_inv E n A t" "in_mem (pte t a j)" "j < length (ptabs t a)" using r a len by (simp_all add: reached_def)
  from resident_frame [OF this(1) a(1) this(3,2)] have "\<exists>i<coremapSize t. owner t i = Some a" by blast
  ultimately show ?thesis using fit by (simp add: all_fit_def)
qed

section \<open>A store\<close>

lemma nth_mem_read: "k < n \<Longrightarrow> mem_read p n m ! k = m (p + of_nat k)"
  by (simp add: mem_read_def)

lemma mem_read_store:
  assumes "k0 < 4096"
  shows "mem_read p 4096 (mem_write (p + of_nat k0) [b] m) = (mem_read p 4096 m)[k0 := b]"
proof (rule nth_equalityI)
  show "length (mem_read p 4096 (mem_write (p + of_nat k0) [b] m)) = length ((mem_read p 4096 m)[k0 := b])"
    by (simp add: length_mem_read)
  fix k assume "k < length (mem_read p 4096 (mem_write (p + of_nat k0) [b] m))"
  then have k: "k < 4096" by (simp add: length_mem_read)
  have "(of_nat k :: w32) = of_nat k0 \<longleftrightarrow> k = k0"
    using k assms by (simp add: word_unat_eq_iff unat_of_nat)
  then have d: "(of_nat k :: w32) - of_nat k0 = 0 \<longleftrightarrow> k = k0" by simp
  show "mem_read p 4096 (mem_write (p + of_nat k0) [b] m) ! k = (mem_read p 4096 m)[k0 := b] ! k"
    unfolding nth_mem_read [OF k]
    using d k assms by (simp add: mem_write_def nth_list_update length_mem_read nth_mem_read unat_eq_0)
qed


lemma user_offset: "va AND NOT PAGE_FRAME = (of_nat (unat va mod 4096) :: w32)"
  by (simp add: word_unat_eq_iff unat_of_nat unat_and_not_PAGE_FRAME)

lemma user_split: "(va AND PAGE_FRAME) + of_nat (unat va mod 4096) = (va :: w32)"
proof -
  have "unat ((va AND PAGE_FRAME) + of_nat (unat va mod 4096)) = (unat va div 4096 * 4096 + unat va mod 4096) mod 2 ^ 32"
    by (simp add: unat_word_ariths unat_and_PAGE_FRAME unat_of_nat)
  also have "\<dots> = unat va"
  proof -
    have "unat va < 2 ^ LENGTH(32)" by (rule unsigned_less)
    then show ?thesis by simp
  qed
  finally show ?thesis by (simp add: word_unat_eq_iff)
qed

lemma store_ok:
  assumes inv: "vm_inv E n A t" and j: "a \<in> A" "j < length (ptabs t a)" "in_mem (pte t a j)" and off: "off < 4096"
    and u: "u = t\<lparr>physmem := mem_write (pte_paddr (pte t a j) + of_nat off) [b] (physmem t)\<rparr>"
  shows "vm_inv E n A u" "content E t a j = Some bs \<Longrightarrow> content E u a j = Some (bs[off := b])"
    "(c, k) \<in> all_pages A t - {(a, j)} \<Longrightarrow> content E u c k = content E t c k"
    "same_rest t u" "aspaces u = aspaces t"
proof -
  note D = vm_invD [OF inv]
  have q: "swap_inv E n u = swap_inv E n t" "slot_bytes E u = slot_bytes E t" by (rule swap_inv_cong; simp add: u)+
  have w: "tlb_wf E u = tlb_wf E t" "tlb_lookup E u = tlb_lookup E t" by (rule tlb_cong; simp add: u)+
  have c: "core_ok u = core_ok t" "frame_addr u = frame_addr t" by (rule core_map_cong; simp add: u)+
  have o: "can_lock u = can_lock t" "stats_ok u = stats_ok t" "proc_getas u = proc_getas t"
    by (rule can_lock_cong stats_ok_cong proc_getas_cong; simp add: u)+
  have f: "aspaces u = aspaces t" "coremap u = coremap t" "coremapSize u = coremapSize t" "firstpaddr u = firstpaddr t"
    by (simp_all add: u)
  show "aspaces u = aspaces t" by (rule f)
  show "same_rest t u" by (simp add: same_rest_def u)
  show "vm_inv E n A u" using D unfolding vm_invH_def q w c o f by simp
  show "content E u a j = Some (bs[off := b])" if "content E t a j = Some bs"
  proof -
    have "bs = mem_read (pte_paddr (pte t a j)) 4096 (physmem t)" using that j(3) by (simp add: content_def)
    then show ?thesis using j(3) mem_read_store [OF off] by (simp add: content_def f u)
  qed
  assume ck: "(c, k) \<in> all_pages A t - {(a, j)}"
  show "content E u c k = content E t c k"
  proof (cases "in_mem (pte t c k)")
    case True
    have cA: "c \<in> A" "k < length (ptabs t c)" using ck by (simp_all add: all_pages_def)
    from resident_frame [OF inv cA True] obtain i where i: "i < coremapSize t" "owner t i = Some c" "pte_paddr (pte t c k) = frame_addr t i" by blast
    from resident_frame [OF inv j] obtain i' where i': "i' < coremapSize t" "owner t i' = Some a" "pte_paddr (pte t a j) = frame_addr t i'" by blast
    have "i \<noteq> i'"
    proof
      assume "i = i'"
      then have "c = a" "pte_paddr (pte t a k) = pte_paddr (pte t a j)" using i i' by auto
      then show False using mm_unique [OF D(9) j(1), of k j] ck cA j True by simp
    qed
    moreover have "unat (of_nat off :: w32) + length [b] \<le> 4096" using off by (simp add: unat_of_nat)
    ultimately have "mem_read (frame_addr t i) 4096 (physmem u) = mem_read (frame_addr t i) 4096 (physmem t)"
      using mem_read_other_frame_at [OF D(6) i'(1) i(1), of "of_nat off" "[b]"] by (simp add: u i'(3))
    then show ?thesis using True i(3) by (simp add: content_def f)
  qed (simp add: content_def f q)
qed

section \<open>The flat memory\<close>

text \<open>
  The addresses a program may use here: on a writable page that is in memory or in the swap file, or
  that belongs to the last segment (the stack), whose pages start out zero.
\<close>

definition stack_page :: "('h, 'd, 'b, 'a) core_st_scheme \<Rightarrow> nat \<Rightarrow> nat \<Rightarrow> bool" where
  "stack_page s a j \<longleftrightarrow> seg_start (last (as_segment (aspaces s a))) \<le> pte_vaddr (pte s a j)"

definition usable ::
  "('h, 'd, 'b, 'x) os_ops_scheme \<Rightarrow> ('h, 'd, 'b, 'a) core_st_scheme \<Rightarrow> nat \<Rightarrow> vaddr_t \<Rightarrow> bool" where
  "usable E s a va \<longleftrightarrow> (\<exists>j<length (ptabs s a). pte_vaddr (pte s a j) = va AND PAGE_FRAME \<and>
     \<not> readonly (pte s a j) \<and> (content E s a j \<noteq> None \<or> stack_page s a j))"

text \<open>\<open>view E s a m\<close>: the bytes of \<open>a\<close>'s writable pages, wherever they are, are those of the array \<open>m\<close>.\<close>

definition page_bytes ::
  "('h, 'd, 'b, 'x) os_ops_scheme \<Rightarrow> ('h, 'd, 'b, 'a) core_st_scheme \<Rightarrow> nat \<Rightarrow> nat \<Rightarrow> byte list option" where
  "page_bytes E s a j = (case content E s a j of Some bs \<Rightarrow> Some bs
     | None \<Rightarrow> if stack_page s a j then Some (replicate 4096 0) else None)"

definition view ::
  "('h, 'd, 'b, 'x) os_ops_scheme \<Rightarrow> ('h, 'd, 'b, 'a) core_st_scheme \<Rightarrow> nat \<Rightarrow> (vaddr_t \<Rightarrow> byte) \<Rightarrow> bool" where
  "view E s a m \<longleftrightarrow> (\<forall>j<length (ptabs s a). \<not> readonly (pte s a j) \<longrightarrow>
     (\<forall>bs. page_bytes E s a j = Some bs \<longrightarrow> (\<forall>k<4096. m (pte_vaddr (pte s a j) + of_nat k) = bs ! k)))"

lemma reached_bytes:
  assumes r: "reached E n A a j s t" and a: "a \<in> A" and k: "k < length (ptabs s a)" "\<not> readonly (pte s a k)"
    and b: "page_bytes E s a k \<noteq> None \<or> k \<noteq> j"
  shows "page_bytes E t a k = page_bytes E s a k"
proof -
  have st: "stack_page t a k = stack_page s a k"
    using r a k same_restD(10) [of s t a] by (simp add: reached_def same_shape_def stack_page_def)
  show ?thesis
  proof (cases "k = j")
    case True
    with r b st show ?thesis
      by (auto simp: page_bytes_def reached_def stack_page_def split: option.splits if_splits)
  next
    case False
    then have "(a, k) \<in> all_pages A s - {(a, j)}" using a k by (simp add: all_pages_def)
    then have "content E t a k = content E s a k" using r k(2) by (auto simp: reached_def pages_kept_def)
    with st show ?thesis by (simp add: page_bytes_def)
  qed
qed


lemma page_of_plus:
  assumes "v AND PAGE_FRAME = v" "k < 4096"
  shows "(v + of_nat k) AND PAGE_FRAME = (v :: w32)"
proof -
  have d: "unat v = unat v div 4096 * 4096" using assms(1) unat_and_PAGE_FRAME [of v] by simp
  have "unat v < 2 ^ LENGTH(32)" by (rule unsigned_less)
  then have "unat v div 4096 < 2 ^ 20" using d by simp
  then have "unat v div 4096 \<le> 2 ^ 20 - 1" by simp
  then have "unat v \<le> (2 ^ 20 - 1) * 4096" by (subst d) simp
  then have s: "unat v + k < 2 ^ 32" using assms(2) by simp
  have "unat (v + of_nat k) = unat v + k"
    using s assms(2) by (simp add: unat_word_ariths unat_of_nat)
  moreover obtain q where q: "unat v = q * 4096" using d by blast
  then have "(unat v + k) div 4096 = unat v div 4096" unfolding q using assms(2) by simp
  ultimately have "unat ((v + of_nat k) AND PAGE_FRAME) = unat v"
    using d by (simp only: unat_and_PAGE_FRAME)
  then show ?thesis by (simp add: word_unat_eq_iff)
qed

definition running ::
  "('h, 'd, 'b, 'x) os_ops_scheme \<Rightarrow> nat \<Rightarrow> nat set \<Rightarrow> nat \<Rightarrow> ('h, 'd, 'b, 'a) core_st_scheme \<Rightarrow> bool" where
  "running E n A a s \<longleftrightarrow> vm_inv E n A s \<and> proc_getas s = Some a \<and> a \<in> A \<and> all_fit E n A a s"

text \<open>
  \<open>others_kept\<close>: the pages of the other address spaces keep their bytes (read-only ones may be forgotten),
  and the rest of the kernel is as before.
\<close>

definition others_kept ::
  "('h, 'd, 'b, 'x) os_ops_scheme \<Rightarrow> nat set \<Rightarrow> nat \<Rightarrow> ('h, 'd, 'b, 'a) core_st_scheme \<Rightarrow>
     ('h, 'd, 'b, 'a) core_st_scheme \<Rightarrow> bool" where
  "others_kept E A a s t \<longleftrightarrow> same_rest s t \<and> same_shape A s t \<and> pages_kept E (all_pages (A - {a}) s) s t"

lemma others_kept_refl: "others_kept E A a s s"
  by (auto simp: others_kept_def same_shape_def pages_kept_def)

lemma others_kept_trans:
  assumes "others_kept E A a s t" "others_kept E A a t u"
  shows "others_kept E A a s u"
proof -
  have sh: "same_shape A s u" "same_rest s u"
    using assms by (auto simp: others_kept_def same_shape_def intro: same_rest_trans)
  have ap: "all_pages (A - {a}) t = all_pages (A - {a}) s"
    using assms(1) by (auto simp: others_kept_def same_shape_def all_pages_def)
  have "content E u b k = content E s b k \<or> readonly (pte s b k) \<and> content E u b k = None"
    if "(b, k) \<in> all_pages (A - {a}) s" for b k
  proof -
    have "readonly (pte t b k) = readonly (pte s b k)"
      using assms(1) that by (auto simp: others_kept_def same_shape_def all_pages_def readonly_def)
    with assms that ap show ?thesis unfolding others_kept_def pages_kept_def by fastforce
  qed
  with sh show ?thesis by (auto simp: others_kept_def pages_kept_def)
qed

text \<open>The state after the access, seen from the process.\<close>

lemma reached_running:
  assumes run: "running E n A a s" and j: "j < length (ptabs s a)" and r: "reached E n A a j s t"
  shows "running E n A a t" "others_kept E A a s t"
proof -
  have "proc_getas t = proc_getas s" using r same_restD(1) [of s t] by (simp add: reached_def)
  with run j r show "running E n A a t" using all_fit_reached [of E n A a s j t] by (auto simp: running_def reached_def)
  have "all_pages (A - {a}) s \<subseteq> all_pages A s - {(a, j)}" by (auto simp: all_pages_def)
  with r show "others_kept E A a s t" by (auto simp: others_kept_def reached_def pages_kept_def)
qed

lemma usableD:
  assumes "usable E s a va"
  obtains j where "j < length (ptabs s a)" "pte_vaddr (pte s a j) = va AND PAGE_FRAME" "\<not> readonly (pte s a j)"
    "page_bytes E s a j \<noteq> None"
  using assms by (auto simp: usable_def page_bytes_def split: option.splits)

lemma usable_iff:
  "usable E s a va \<longleftrightarrow> (\<exists>j<length (ptabs s a). pte_vaddr (pte s a j) = va AND PAGE_FRAME \<and>
     \<not> readonly (pte s a j) \<and> page_bytes E s a j \<noteq> None)"
  by (auto simp: usable_def page_bytes_def split: option.splits)

text \<open>What a process can see is kept: same pages, same bytes.\<close>

lemma reached_view:
  assumes a: "a \<in> A" and r: "reached E n A a j s t" and j: "page_bytes E s a j \<noteq> None"
  shows "view E t a m = view E s a m" "usable E t a va = usable E s a va"
proof -
  have sh: "length (ptabs t a) = length (ptabs s a)"
    "\<And>k. k < length (ptabs s a) \<Longrightarrow> pte_vaddr (pte t a k) = pte_vaddr (pte s a k) \<and> readonly (pte t a k) = readonly (pte s a k)"
    using r a by (auto simp: reached_def same_shape_def readonly_def)
  have b: "page_bytes E t a k = page_bytes E s a k" if "k < length (ptabs s a)" "\<not> readonly (pte s a k)" for k
    using reached_bytes [OF r a that] j by (cases "k = j") auto
  show "view E t a m = view E s a m" unfolding view_def using sh b by auto
  show "usable E t a va = usable E s a va" unfolding usable_iff using sh b by auto
qed

lemma reached_byte:
  assumes r: "reached E n A a j s t" and a: "a \<in> A" and j: "j < length (ptabs s a)" "\<not> readonly (pte s a j)"
    and b: "page_bytes E s a j = Some bs" and k: "k < 4096"
  shows "content E t a j = Some bs" "physmem t (pte_paddr (pte t a j) + of_nat k) = bs ! k"
proof -
  have m: "in_mem (pte t a j)" using r by (simp add: reached_def)
  have "page_bytes E t a j = Some bs" using reached_bytes [OF r a j] b by simp
  with m show c: "content E t a j = Some bs" by (simp add: page_bytes_def content_def split: if_splits)
  with m have "bs = mem_read (pte_paddr (pte t a j)) 4096 (physmem t)" by (simp add: content_def)
  then show "physmem t (pte_paddr (pte t a j) + of_nat k) = bs ! k" by (simp add: nth_mem_read [OF k])
qed

lemma user_load:
  assumes run: "running E n A a s" and us: "usable E s a va" and v: "view E s a m"
  shows "\<exists>t. user_op E (Load va) s = Ret ([m va], t) \<and> running E n A a t \<and> view E t a m \<and>
    others_kept E A a s t \<and> (\<forall>x. usable E t a x = usable E s a x)"
proof -
  from us obtain j where j: "j < length (ptabs s a)" "pte_vaddr (pte s a j) = va AND PAGE_FRAME"
    "\<not> readonly (pte s a j)" "page_bytes E s a j \<noteq> None" by (rule usableD)
  from j(4) obtain bs where bs: "page_bytes E s a j = Some bs" by blast
  have R: "vm_inv E n A s" "proc_getas s = Some a" "a \<in> A" "all_fit E n A a s" using run by (simp_all add: running_def)
  from user_access_ok [OF R(1-3) j(1,2) R(4), of False] obtain t
    where t: "user_access E False va s = Some (Ret (Some (pte_paddr (pte t a j) + (va AND NOT PAGE_FRAME)), t))"
      "reached E n A a j s t" by auto
  let ?k = "unat va mod 4096"
  have k: "?k < 4096" by simp
  have "physmem t (pte_paddr (pte t a j) + (va AND NOT PAGE_FRAME)) = bs ! ?k"
    unfolding user_offset by (rule reached_byte(2) [OF t(2) R(3) j(1,3) bs k])
  also have "\<dots> = m (pte_vaddr (pte s a j) + of_nat ?k)" using v bs j(1,3) k by (simp add: view_def)
  also have "\<dots> = m va" unfolding j(2) user_split ..
  finally have "user_op E (Load va) s = Ret ([m va], t)" using t(1) by (simp add: user_op_def)
  then show ?thesis
    using reached_running [OF run j(1) t(2)] reached_view [OF R(3) t(2) j(4)] v by (intro exI [of _ t]) simp
qed


lemma stored_view:
  assumes inv: "vm_inv E n A t" and a: "a \<in> A" "j < length (ptabs t a)" and pt: "aspaces u = aspaces t"
    and v: "view E t a m" and j: "pte_vaddr (pte t a j) = va AND PAGE_FRAME"
    and pb: "page_bytes E t a j = Some bs" "length bs = 4096"
      "\<And>i. i < length (ptabs t a) \<Longrightarrow>
        page_bytes E u a i = (if i = j then Some (bs[unat va mod 4096 := b]) else page_bytes E t a i)"
  shows "view E u a (m(va := b))" "usable E u a x = usable E t a x"
proof -
  let ?k = "unat va mod 4096"
  have vj: "pte_vaddr (pte t a j) + of_nat ?k = va" unfolding j by (rule user_split)
  have up: "pte_vaddr (pte t a i) AND PAGE_FRAME = pte_vaddr (pte t a i)" if "i < length (ptabs t a)" for i
    using vm_invD(8) [OF inv a(1)] that by (auto simp: as_ok_def ent_ok_def user_page_def)
  show "view E u a (m(va := b))"
    unfolding view_def pt
  proof (intro allI impI)
    fix i bs' x assume i: "i < length (ptabs t a)" "\<not> readonly (pte t a i)" "page_bytes E u a i = Some bs'" "x < (4096 :: nat)"
    show "(m(va := b)) (pte_vaddr (pte t a i) + of_nat x) = bs' ! x"
    proof (cases "i = j")
      case True
      have "pte_vaddr (pte t a j) + of_nat x = va \<longleftrightarrow> (of_nat x :: w32) = of_nat ?k" using vj by (metis add_left_cancel)
      also have "\<dots> \<longleftrightarrow> x = ?k" using i(4) by (simp add: word_unat_eq_iff unat_of_nat)
      finally have e: "pte_vaddr (pte t a j) + of_nat x = va \<longleftrightarrow> x = ?k" .
      have "m (pte_vaddr (pte t a j) + of_nat x) = bs ! x" using v pb(1) i(2,4) a(2) True by (simp add: view_def)
      with e i(3,4) pb(2) pb(3) [OF a(2)] True show ?thesis by (auto simp: nth_list_update)
    next
      case False
      have "pte_vaddr (pte t a i) + of_nat x \<noteq> va"
      proof
        assume "pte_vaddr (pte t a i) + of_nat x = va"
        then have "pte_vaddr (pte t a i) = pte_vaddr (pte t a j)" using page_of_plus [OF up [OF i(1)] i(4)] j by simp
        from vaddr_unique [OF vm_invD(8) [OF inv a(1)] i(1) a(2) this] False show False by simp
      qed
      with v i pb(3) [OF i(1)] False show ?thesis by (simp add: view_def)
    qed
  qed
  have "page_bytes E u a i \<noteq> None \<longleftrightarrow> page_bytes E t a i \<noteq> None" if "i < length (ptabs t a)" for i
    using pb(1) pb(3) [OF that] by simp
  then show "usable E u a x = usable E t a x" unfolding usable_iff pt by blast
qed

lemma user_store:
  assumes run: "running E n A a s" and us: "usable E s a va" and v: "view E s a m"
  shows "\<exists>t. user_op E (Store va b) s = Ret ([], t) \<and> running E n A a t \<and> view E t a (m(va := b)) \<and>
    others_kept E A a s t \<and> (\<forall>x. usable E t a x = usable E s a x)"
proof -
  from us obtain j where j: "j < length (ptabs s a)" "pte_vaddr (pte s a j) = va AND PAGE_FRAME"
    "\<not> readonly (pte s a j)" "page_bytes E s a j \<noteq> None" by (rule usableD)
  from j(4) obtain bs where bs: "page_bytes E s a j = Some bs" by blast
  have R: "vm_inv E n A s" "proc_getas s = Some a" "a \<in> A" "all_fit E n A a s" using run by (simp_all add: running_def)
  from user_access_ok [OF R(1-3) j(1,2) R(4), of True] j(3) obtain t
    where t: "user_access E True va s = Some (Ret (Some (pte_paddr (pte t a j) + (va AND NOT PAGE_FRAME)), t))"
      "reached E n A a j s t" by auto
  let ?k = "unat va mod 4096"
  have k: "?k < 4096" by simp
  define u where "u = t\<lparr>physmem := mem_write (pte_paddr (pte t a j) + of_nat ?k) [b] (physmem t)\<rparr>"
  have op: "user_op E (Store va b) s = Ret ([], u)" using t(1) by (simp add: user_op_def u_def user_offset)
  note c = reached_byte(1) [OF t(2) R(3) j(1,3) bs k]
  have T: "vm_inv E n A t" "in_mem (pte t a j)" "same_shape A s t" using t(2) by (simp_all add: reached_def)
  then have jt: "j < length (ptabs t a)" "pte_vaddr (pte t a j) = va AND PAGE_FRAME"
    using R(3) j(1,2) by (simp_all add: same_shape_def)
  note S = store_ok [OF T(1) R(3) jt(1) T(2) k u_def]
  note V = reached_view [OF R(3) t(2) j(4)] and Q = reached_running [OF run j(1) t(2)]
  have pb: "page_bytes E u a i = (if i = j then Some (bs[?k := b]) else page_bytes E t a i)" if "i < length (ptabs t a)" for i
    using that S(2) [OF c] S(3) [of a i] S(5) R(3) by (simp add: page_bytes_def all_pages_def stack_page_def)
  have pj: "page_bytes E t a j = Some bs" "length bs = 4096"
    using c T(2) by (auto simp: page_bytes_def content_def length_mem_read)
  note W = stored_view [OF T(1) R(3) jt(1) S(5) V(1) [THEN iffD2, OF v] jt(2) pj pb]
  have "others_kept E A a t u"
    using S(3,4,5) by (auto simp: others_kept_def same_shape_def pages_kept_def all_pages_def)
  moreover have "all_pages A u = all_pages A t" by (simp add: all_pages_def u_def)
  then have "all_fit E n A a u" using Q(1) by (simp add: running_def all_fit_def u_def)
  then have "running E n A a u" using S(1) Q(1) same_restD(1) [OF S(4)] by (simp add: running_def)
  ultimately show ?thesis using op others_kept_trans [OF Q(2)] V(2) W by (intro exI [of _ u]) simp
qed

definition op_addr :: "uop \<Rightarrow> vaddr_t" where
  "op_addr c = (case c of Load va \<Rightarrow> va | Store va b \<Rightarrow> va)"

lemma user_run_flat:
  assumes "running E n A a s" "view E s a m" "\<forall>c\<in>set cs. usable E s a (op_addr c)"
  shows "\<exists>t. user_run E cs s = Ret (fst (flat_run cs m), t) \<and> running E n A a t \<and>
    view E t a (snd (flat_run cs m)) \<and> others_kept E A a s t \<and> (\<forall>x. usable E t a x = usable E s a x)"
  using assms
proof (induction cs arbitrary: s m)
  case Nil
  then show ?case using others_kept_refl by auto
next
  case (Cons c cs)
  have us: "usable E s a (op_addr c)" using Cons.prems(3) by simp
  obtain bs m' t where t: "user_op E c s = Ret (bs, t)" "running E n A a t" "view E t a m'" "others_kept E A a s t"
    "\<forall>x. usable E t a x = usable E s a x" "flat_run (c # cs) m = (bs @ fst (flat_run cs m'), snd (flat_run cs m'))"
  proof (cases c)
    case (Load va)
    then show ?thesis using user_load [OF Cons.prems(1) _ Cons.prems(2), of va] us
      by (auto simp: op_addr_def split_def Let_def intro: that)
  next
    case (Store va b)
    then show ?thesis using user_store [OF Cons.prems(1) _ Cons.prems(2), of va b] us
      by (auto simp: op_addr_def intro: that)
  qed
  have "\<forall>c\<in>set cs. usable E t a (op_addr c)" using t(5) Cons.prems(3) by simp
  from Cons.IH [OF t(2,3) this] obtain u where u: "user_run E cs t = Ret (fst (flat_run cs m'), u)"
    "running E n A a u" "view E u a (snd (flat_run cs m'))" "others_kept E A a t u"
    "\<forall>x. usable E u a x = usable E t a x" by blast
  with t show ?case using others_kept_trans [OF t(4) u(4)] by (intro exI [of _ u]) simp
qed

end
