(* ===== verification/Proc_Syscalls.thy ===== *)
theory Proc_Syscalls
  imports Thread_System User_Memory
begin


text \<open>
  The end of a process and the system calls on processes (\<open>proc_destroy\<close>, \<open>proc_wait\<close> and
  \<open>proc_file_table_copy\<close> of \<open>kern/proc/proc.c\<close>, \<open>kern/syscall/proc_syscalls.c\<close>, and
  \<open>enter_forked_process\<close> of \<open>kern/arch/mips/syscall/syscall.c\<close>). The state gets the tables of open
  files and the console. What lies outside the repository is in two records: \<open>kern_ops\<close> has the
  constants of header files and the build options \<open>file\<close> and \<open>fork\<close>, which the configuration
  \<open>conf/PAGING\<close> leaves off; \<open>kern_ext\<close> has the functions of other parts of the kernel.
\<close>

section \<open>State\<close>

record trapframe =
  tf_v0 :: w32
  tf_a0 :: w32
  tf_a1 :: w32
  tf_a2 :: w32
  tf_a3 :: w32
  tf_sp :: w32
  tf_epc :: w32

text \<open>The functions a kernel thread starts with, and their argument.\<close>

datatype kentry = Progthread "string option list" | Forked trapframe

record openfile =
  of_vn :: "nat option"
  of_offset :: int
  countRef :: w32

text \<open>
  \<open>fileTable p\<close> is the field of that name of the process \<open>p\<close>. \<open>console\<close> are the characters written so
  far, \<open>con_in\<close> those \<open>getch\<close> will deliver.
\<close>

record ('h, 'd, 'b) kern_st = "('h, 'd, 'b, kentry) thr_st" +
  fileTable :: "nat \<Rightarrow> nat option list"
  systemFileTable :: "openfile list"
  console :: "byte list"
  con_in :: "byte list"

datatype sysno = SYS_reboot | SYS___time | SYS_open | SYS_close | SYS_remove | SYS_write | SYS_read
  | SYS__exit | SYS_waitpid | SYS_getpid | SYS_fork

datatype rb_code = RB_REBOOT | RB_HALT | RB_POWEROFF

text \<open>
  \<open>open_max\<close> is \<open>OPEN_MAX\<close>; \<open>errno_num\<close>, \<open>sysno_of\<close> and \<open>reboot_of\<close> are the numbers of \<open>kern/errno.h\<close>,
  \<open>kern/syscall.h\<close> and \<open>kern/reboot.h\<close>, \<open>rb_poweroff\<close> the number of \<open>RB_POWEROFF\<close>.
\<close>

record ('h, 'd, 'b) kern_ops = "('h, 'd, 'b) elf_ops" +
  open_max :: nat
  opt_file :: bool
  opt_fork :: bool
  errno_num :: "errno \<Rightarrow> w32"
  sysno_of :: "w32 \<Rightarrow> sysno option"
  reboot_of :: "int \<Rightarrow> rb_code option"
  rb_poweroff :: int

datatype vfs_call = Vfs_chdir string | Vfs_getcwd | Vfs_sync | Sfs_mount string | Vfs_unmount string
  | Vfs_setbootfs string | Vfs_clearbootfs | Vfs_clearcurdir | Vfs_unmountall

record 's kern_ext =
  cpu_idle_of :: "'s \<Rightarrow> 's"
  kmalloc_block :: "nat \<Rightarrow> pt_entry"
  sys_time :: "w32 \<Rightarrow> w32 \<Rightarrow> 's \<Rightarrow> (kerr \<times> 's) kres"
  vfs_openu :: "vaddr_t \<Rightarrow> w32 \<Rightarrow> w32 \<Rightarrow> 's \<Rightarrow> (kerr \<times> nat \<times> 's) kres"
  copyin :: "vaddr_t \<Rightarrow> nat \<Rightarrow> 's \<Rightarrow> (kerr \<times> byte list \<times> 's) kres"
  copyout :: "byte list \<Rightarrow> vaddr_t \<Rightarrow> 's \<Rightarrow> (kerr \<times> 's) kres"
  vfs_do :: "vfs_call \<Rightarrow> 's \<Rightarrow> kerr \<times> string \<times> 's"
  mainbus_stop :: "rb_code \<Rightarrow> 's \<Rightarrow> 's kres"
  swapoff_of :: "'s \<Rightarrow> kerr"
  run_other :: "string \<Rightarrow> string list \<Rightarrow> 's \<Rightarrow> (kerr \<times> 's) kres"
  strerror :: "errno \<Rightarrow> string"
  gettime :: "'s \<Rightarrow> nat \<times> nat"

section \<open>Memory accesses of the kernel through a user pointer\<close>

text \<open>
  Some system calls follow a user pointer without \<open>copyin\<close> or \<open>copyout\<close>. An address of the user
  segment goes through the TLB like an access of the program; an address of \<open>kseg0\<close> is mapped
  directly to physical memory.
\<close>

definition MIPS_KSEG1 :: w32 where "MIPS_KSEG1 = 0xA0000000"

definition kern_access ::
  "('h, 'd, 'b, 'x) os_ops_scheme \<Rightarrow> bool \<Rightarrow> vaddr_t \<Rightarrow> ('h, 'd, 'b, 'a) core_st_scheme \<Rightarrow>
     (paddr_t option \<times> ('h, 'd, 'b, 'a) core_st_scheme) kres" where
  "kern_access E wr va s =
     (if va < MIPS_KSEG0 then (case user_access E wr va s of None \<Rightarrow> Diverges | Some r \<Rightarrow> r)
      else if va < MIPS_KSEG1 then Ret (Some (va - MIPS_KSEG0), s) else Undef)"

definition store_bytes ::
  "('h, 'd, 'b, 'x) os_ops_scheme \<Rightarrow> vaddr_t \<Rightarrow> byte list \<Rightarrow> ('h, 'd, 'b, 'a) core_st_scheme \<Rightarrow>
     ('h, 'd, 'b, 'a) core_st_scheme kres" where
  "store_bytes E va bs s =
     kbind (kern_access E True va s) (\<lambda>(p, t). case p of None \<Rightarrow> Undef
       | Some p \<Rightarrow> Ret (t\<lparr>physmem := mem_write p bs (physmem t)\<rparr>))"

definition load_byte ::
  "('h, 'd, 'b, 'x) os_ops_scheme \<Rightarrow> vaddr_t \<Rightarrow> ('h, 'd, 'b, 'a) core_st_scheme \<Rightarrow>
     (byte \<times> ('h, 'd, 'b, 'a) core_st_scheme) kres" where
  "load_byte E va s =
     kbind (kern_access E False va s) (\<lambda>(p, t). case p of None \<Rightarrow> Undef | Some p \<Rightarrow> Ret (physmem t p, t))"

text \<open>The bytes of a word, the most significant one first.\<close>

definition be32 :: "w32 \<Rightarrow> byte list" where
  "be32 w = [ucast (drop_bit 24 w), ucast (drop_bit 16 w), ucast (drop_bit 8 w), ucast w]"

section \<open>The end of a process\<close>

definition proc_destroy ::
  "('h, 'd, 'b, 'x) vm_ops_scheme \<Rightarrow> nat \<Rightarrow> ('h, 'd, 'b, 'a) core_st_scheme \<Rightarrow>
     ('h, 'd, 'b, 'a) core_st_scheme kres" where
  "proc_destroy E proc s =
     KASSERT (kproc s \<noteq> Some proc)
      (let s1 = (if p_cwd (procs s proc) \<noteq> None then upd_proc proc (\<lambda>p. p\<lparr>p_cwd := None\<rparr>) s else s) in
       kbind
        (if p_addrspace (procs s1 proc) \<noteq> None then
           kbind
            (if Some proc = curproc s1
             then kbind (proc_setas None s1) (\<lambda>(old, s2). Ret (old, as_deactivate s2))
             else Ret (p_addrspace (procs s1 proc), upd_proc proc (\<lambda>p. p\<lparr>p_addrspace := None\<rparr>) s1))
            (\<lambda>(old, s2). case old of None \<Rightarrow> Undef | Some a \<Rightarrow> as_destroy E a s2)
         else Ret s1)
        (\<lambda>s3. KASSERT (p_numthreads (procs s3 proc) = 0)
           (kbind (proc_end_waitpid proc s3) (\<lambda>s4. Ret (kfree (kfree s4))))))"

text \<open>
  While the process runs, \<open>P\<close> sleeps and the outcome is \<open>Sleeps\<close>; when it is woken, the loop of \<open>P\<close>
  tests the count again.
\<close>

definition proc_wait ::
  "('h, 'd, 'b, 'x) vm_ops_scheme \<Rightarrow> nat \<Rightarrow> ('h, 'd, 'b, 'a) core_st_scheme \<Rightarrow>
     (int \<times> ('h, 'd, 'b, 'a) core_st_scheme) kres" where
  "proc_wait E proc s =
     KASSERT (kproc s \<noteq> Some proc)
      (case p_sem (procs s proc) of
         None \<Rightarrow> Panic ''KASSERT''
       | Some sem \<Rightarrow>
           kbind (sem_P s sem) (\<lambda>sem1.
           let s1 = upd_proc proc (\<lambda>p. p\<lparr>p_sem := Some sem1\<rparr>) s;
               return_status = p_status (procs s1 proc) in
           kbind (proc_destroy E proc s1) (\<lambda>s2. Ret (return_status, s2))))"

section \<open>System calls\<close>

definition sys__exit ::
  "('a procs_st_scheme \<Rightarrow> 'a procs_st_scheme) \<Rightarrow> int \<Rightarrow> 'a procs_st_scheme \<Rightarrow> 'a procs_st_scheme kres" where
  "sys__exit cpu_idle status s =
     (case curproc s of
        None \<Rightarrow> Undef
      | Some p \<Rightarrow>
          let s1 = upd_proc p (\<lambda>x. x\<lparr>p_status := status AND 0xff\<rparr>) s in
          kbind (proc_remthread (curthread s1) s1) (\<lambda>s2.
          kbind (proc_signal_end p s2) (\<lambda>s3. thread_exit cpu_idle s3)))"

definition sys_waitpid ::
  "('h, 'd, 'b, 'x) vm_ops_scheme \<Rightarrow> int \<Rightarrow> vaddr_t \<Rightarrow> ('h, 'd, 'b, 'a) core_st_scheme \<Rightarrow>
     (int \<times> ('h, 'd, 'b, 'a) core_st_scheme) kres" where
  "sys_waitpid E pid statusp s =
     kbind (proc_search_pid pid s) (\<lambda>p. case p of
         None \<Rightarrow> Ret (-1, s)
       | Some p \<Rightarrow>
           kbind (proc_wait E p s) (\<lambda>(st, s1).
           kbind (if statusp \<noteq> 0
                  then if 4 dvd unat statusp then store_bytes E statusp (be32 (of_int st)) s1 else Undef
                  else Ret s1) (\<lambda>s2.
           Ret (pid, s2))))"

definition sys_getpid :: "'a procs_st_scheme \<Rightarrow> int kres" where
  "sys_getpid s = (case curproc s of None \<Rightarrow> Panic ''KASSERT'' | Some p \<Rightarrow> Ret (int (p_pid (procs s p))))"

section \<open>The files of a process\<close>

definition openfileIncrRefCount :: "nat option \<Rightarrow> ('h, 'd, 'b, 'a) kern_st_scheme \<Rightarrow> ('h, 'd, 'b, 'a) kern_st_scheme" where
  "openfileIncrRefCount f s = (case f of
       None \<Rightarrow> s
     | Some k \<Rightarrow> s\<lparr>systemFileTable := (systemFileTable s)
           [k := (systemFileTable s ! k)\<lparr>countRef := countRef (systemFileTable s ! k) + 1\<rparr>]\<rparr>)"

fun proc_file_table_copy ::
  "nat \<Rightarrow> nat \<Rightarrow> nat \<Rightarrow> nat \<Rightarrow> ('h, 'd, 'b, 'a) kern_st_scheme \<Rightarrow> ('h, 'd, 'b, 'a) kern_st_scheme" where
  "proc_file_table_copy psrc pdest fd 0 s = s"
| "proc_file_table_copy psrc pdest fd (Suc n) s =
     (let f = fileTable s psrc ! fd;
          s1 = s\<lparr>fileTable := (fileTable s)(pdest := (fileTable s pdest)[fd := f])\<rparr>
      in proc_file_table_copy psrc pdest (Suc fd) n (openfileIncrRefCount f s1))"

text \<open>\<open>proc_create_runprogram\<close> with the \<open>bzero\<close> of the file table at the end of \<open>proc_create\<close>.\<close>

definition proc_create_files ::
  "('h, 'd, 'b, 'x) kern_ops_scheme \<Rightarrow> string \<Rightarrow> ('h, 'd, 'b, 'a) kern_st_scheme \<Rightarrow>
     (nat option \<times> ('h, 'd, 'b, 'a) kern_st_scheme) kres" where
  "proc_create_files E name s =
     kbind (proc_create_runprogram name s) (\<lambda>(p, s1). Ret (p, case p of
         None \<Rightarrow> s1
       | Some q \<Rightarrow> if opt_file E then s1\<lparr>fileTable := (fileTable s1)(q := replicate (open_max E) None)\<rparr> else s1))"

section \<open>Fork\<close>

definition sys_fork ::
  "('h, 'd, 'b, 'x) kern_ops_scheme \<Rightarrow> (nat \<Rightarrow> pt_entry) \<Rightarrow> trapframe \<Rightarrow> ('h, 'd, 'b, 'a) kern_st_scheme \<Rightarrow>
     (kerr \<times> int \<times> ('h, 'd, 'b, 'a) kern_st_scheme) kres" where
  "sys_fork E junk ctf s =
     (case curproc s of
        None \<Rightarrow> Panic ''KASSERT''
      | Some cur \<Rightarrow>
          kbind (proc_create_files E (p_name (procs s cur)) s) (\<lambda>(newp, s1). case newp of
            None \<Rightarrow> Ret (Some ENOMEM, 0, s1)
          | Some p \<Rightarrow> (case p_addrspace (procs s1 cur) of
              None \<Rightarrow> Undef
            | Some old \<Rightarrow>
                kbind (as_copy E junk old s1) (\<lambda>(err, new, s2).
                let s3 = (case new of None \<Rightarrow> s2 | Some a \<Rightarrow> upd_proc p (\<lambda>x. x\<lparr>p_addrspace := Some a\<rparr>) s2) in
                if p_addrspace (procs s3 p) = None
                then kbind (proc_destroy E p s3) (\<lambda>s4. Ret (Some ENOMEM, 0, s4)) else
                let s4 = (if opt_file E then proc_file_table_copy p cur 0 (open_max E) s3 else s3);
                    (ok, s5) = kmalloc s4 in
                if \<not> ok then kbind (proc_destroy E p s5) (\<lambda>s6. Ret (Some ENOMEM, 0, s6)) else
                kbind (thread_fork (t_name (threads s5 (curthread s5))) (Some p) (Forked ctf) s5) (\<lambda>(result, s6).
                if result \<noteq> None then kbind (proc_destroy E p s6) (\<lambda>s7. Ret (Some ENOMEM, 0, kfree s7))
                else Ret (None, int (p_pid (procs s6 p)), s6))))))"

text \<open>The frame \<open>mips_usermode\<close> is called with.\<close>

definition enter_forked_process ::
  "('h, 'd, 'b, 'x) kern_ops_scheme \<Rightarrow> trapframe \<Rightarrow> ('h, 'd, 'b, 'a) kern_st_scheme \<Rightarrow>
     (trapframe option \<times> ('h, 'd, 'b, 'a) kern_st_scheme) kres" where
  "enter_forked_process E tf s =
     (if opt_fork E then
        kbind (as_activate E (kfree s)) (\<lambda>s1.
          Ret (Some (tf\<lparr>tf_v0 := 0, tf_a3 := 0, tf_epc := tf_epc tf + 4\<rparr>), s1))
      else Ret (None, s))"

definition call_enter_forked_process ::
  "('h, 'd, 'b, 'x) kern_ops_scheme \<Rightarrow> trapframe \<Rightarrow> ('h, 'd, 'b, 'a) kern_st_scheme \<Rightarrow>
     (trapframe \<times> ('h, 'd, 'b, 'a) kern_st_scheme) kres" where
  "call_enter_forked_process E tf s =
     kbind (enter_forked_process E tf s) (\<lambda>(f, s1). case f of
         None \<Rightarrow> Panic ''enter_forked_process returned (should not happen)''
       | Some g \<Rightarrow> Ret (g, s1))"

end
