(* ===== verification/File_Syscalls.thy ===== *)
theory File_Syscalls
  imports Proc_Syscalls
begin


text \<open>
  The system calls on files (\<open>kern/syscall/file_syscalls.c\<close>). The console calls are part of every
  build; \<open>sys_open\<close>, \<open>sys_close\<close>, \<open>file_read\<close> and \<open>file_write\<close> need the option \<open>file\<close> and are the
  variants with \<open>USE_KERNEL_BUFFER\<close> 0. An entry of a process's file table is the index of its entry
  in \<open>systemFileTable\<close>. \<open>VOP_READ\<close> on a user buffer is \<open>vop_read\<close> and \<open>copyout\<close> of what it delivers,
  \<open>VOP_WRITE\<close> is \<open>copyin\<close> and \<open>vop_write\<close>.
\<close>

definition STDIN_FILENO :: int where "STDIN_FILENO = 0"
definition STDOUT_FILENO :: int where "STDOUT_FILENO = 1"
definition STDERR_FILENO :: int where "STDERR_FILENO = 2"

definition SYSTEM_OPEN_MAX :: "('h, 'd, 'b, 'x) kern_ops_scheme \<Rightarrow> nat" where
  "SYSTEM_OPEN_MAX E = 10 * open_max E"

definition upd_file :: "nat \<Rightarrow> (openfile \<Rightarrow> openfile) \<Rightarrow> ('h, 'd, 'b, 'a) kern_st_scheme \<Rightarrow> ('h, 'd, 'b, 'a) kern_st_scheme" where
  "upd_file k f s = s\<lparr>systemFileTable := (systemFileTable s)[k := f (systemFileTable s ! k)]\<rparr>"

definition upd_fd :: "nat \<Rightarrow> nat \<Rightarrow> nat option \<Rightarrow> ('h, 'd, 'b, 'a) kern_st_scheme \<Rightarrow> ('h, 'd, 'b, 'a) kern_st_scheme" where
  "upd_fd p fd x s = s\<lparr>fileTable := (fileTable s)(p := (fileTable s p)[fd := x])\<rparr>"

section \<open>Reading and writing files\<close>

text \<open>
  The checks \<open>file_read\<close>, \<open>file_write\<close> and \<open>sys_close\<close> begin with: the process and its entry for \<open>fd\<close>.
  The test lets \<open>fd = OPEN_MAX\<close> pass, which is outside the table.
\<close>

definition fd_entry ::
  "('h, 'd, 'b, 'x) kern_ops_scheme \<Rightarrow> int \<Rightarrow> ('h, 'd, 'b, 'a) kern_st_scheme \<Rightarrow> (nat \<times> nat) option kres" where
  "fd_entry E fd s =
     (if fd < 0 \<or> fd > int (open_max E) then Ret None else
      case curproc s of
        None \<Rightarrow> Undef
      | Some p \<Rightarrow> if length (fileTable s p) \<le> nat fd then Undef
                  else Ret (map_option (Pair p) (fileTable s p ! nat fd)))"

definition file_read ::
  "('h, 'd, 'b, 'a) kern_st_scheme kern_ext \<Rightarrow> ('h, 'd, 'b, 'x) kern_ops_scheme \<Rightarrow> int \<Rightarrow> vaddr_t \<Rightarrow> w32 \<Rightarrow>
     ('h, 'd, 'b, 'a) kern_st_scheme \<Rightarrow> (int \<times> ('h, 'd, 'b, 'a) kern_st_scheme) kres" where
  "file_read X E fd buf_ptr sz s =
     kbind (fd_entry E fd s) (\<lambda>f. case f of
       None \<Rightarrow> Ret (-1, s)
     | Some (p, k) \<Rightarrow> (case of_vn (systemFileTable s ! k) of
         None \<Rightarrow> Ret (-1, s)
       | Some vn \<Rightarrow>
           let (result, bs) = vop_read E vn (of_offset (systemFileTable s ! k)) (unat sz) (disk s) in
           kbind (copyout X bs buf_ptr s) (\<lambda>(err, s1).
           case (if result \<noteq> None then result else err) of
             Some e \<Rightarrow> Ret (sint (errno_num E e), s1)
           | None \<Rightarrow> Ret (sint (of_nat (length bs) :: w32),
               upd_file k (\<lambda>x. x\<lparr>of_offset := of_offset x + int (length bs)\<rparr>) s1))))"

definition file_write ::
  "('h, 'd, 'b, 'a) kern_st_scheme kern_ext \<Rightarrow> ('h, 'd, 'b, 'x) kern_ops_scheme \<Rightarrow> int \<Rightarrow> vaddr_t \<Rightarrow> w32 \<Rightarrow>
     ('h, 'd, 'b, 'a) kern_st_scheme \<Rightarrow> (int \<times> ('h, 'd, 'b, 'a) kern_st_scheme) kres" where
  "file_write X E fd buf_ptr sz s =
     kbind (fd_entry E fd s) (\<lambda>f. case f of
       None \<Rightarrow> Ret (-1, s)
     | Some (p, k) \<Rightarrow> (case of_vn (systemFileTable s ! k) of
         None \<Rightarrow> Ret (-1, s)
       | Some vn \<Rightarrow>
           kbind (copyin X buf_ptr (unat sz) s) (\<lambda>(err, bs, s1).
           let (result, d) = (if err \<noteq> None then (err, disk s1)
                  else vop_write E vn (of_offset (systemFileTable s ! k)) bs (disk s1));
               s2 = s1\<lparr>disk := d\<rparr> in
           case result of
             Some e \<Rightarrow> Ret (sint (errno_num E e), s2)
           | None \<Rightarrow> Ret (sint (of_nat (length bs) :: w32),
               upd_file k (\<lambda>x. x\<lparr>of_offset := of_offset x + int (length bs)\<rparr>) s2))))"

section \<open>Opening and closing\<close>

text \<open>The result, the error code stored through \<open>errp\<close> and the new state.\<close>

definition sys_open ::
  "('h, 'd, 'b, 'a) kern_st_scheme kern_ext \<Rightarrow> ('h, 'd, 'b, 'x) kern_ops_scheme \<Rightarrow> vaddr_t \<Rightarrow> w32 \<Rightarrow> w32 \<Rightarrow>
     ('h, 'd, 'b, 'a) kern_st_scheme \<Rightarrow> (int \<times> kerr \<times> ('h, 'd, 'b, 'a) kern_st_scheme) kres" where
  "sys_open X E path openflags mode s =
     kbind (vfs_openu X path openflags mode s) (\<lambda>(result, v, s1).
     if result \<noteq> None then Ret (-1, Some ENOENT, s1) else
     case first_idx (\<lambda>i. of_vn (systemFileTable s1 ! i) = None) 0 (SYSTEM_OPEN_MAX E) of
       None \<Rightarrow> Ret (-1, Some ENFILE, s1\<lparr>disk := vfs_close E v (disk s1)\<rparr>)
     | Some i \<Rightarrow>
         let s2 = upd_file i (\<lambda>x. \<lparr>of_vn = Some v, of_offset = 0, countRef = 1\<rparr>) s1 in
         case curproc s2 of
           None \<Rightarrow> Undef
         | Some p \<Rightarrow>
             (case first_idx (\<lambda>fd. fileTable s2 p ! fd = None) 3 (open_max E - 3) of
                Some fd \<Rightarrow> Ret (int fd, None, upd_fd p fd (Some i) s2)
              | None \<Rightarrow> Ret (-1, Some EMFILE, s2\<lparr>disk := vfs_close E v (disk s2)\<rparr>)))"

definition sys_close ::
  "('h, 'd, 'b, 'x) kern_ops_scheme \<Rightarrow> int \<Rightarrow> ('h, 'd, 'b, 'a) kern_st_scheme \<Rightarrow>
     (int \<times> ('h, 'd, 'b, 'a) kern_st_scheme) kres" where
  "sys_close E fd s =
     kbind (fd_entry E fd s) (\<lambda>f. case f of
       None \<Rightarrow> Ret (-1, s)
     | Some (p, k) \<Rightarrow>
         let s1 = upd_fd p (nat fd) None s;
             s2 = upd_file k (\<lambda>x. x\<lparr>countRef := countRef x - 1\<rparr>) s1 in
         if countRef (systemFileTable s2 ! k) > 0 then Ret (0, s2) else
         let vn = of_vn (systemFileTable s2 ! k);
             s3 = upd_file k (\<lambda>x. x\<lparr>of_vn := None\<rparr>) s2 in
         (case vn of
            None \<Rightarrow> Ret (-1, s3)
          | Some v \<Rightarrow> Ret (0, s3\<lparr>disk := vfs_close E v (disk s3)\<rparr>)))"

section \<open>The console\<close>

definition putch :: "byte \<Rightarrow> ('h, 'd, 'b, 'a) kern_st_scheme \<Rightarrow> ('h, 'd, 'b, 'a) kern_st_scheme" where
  "putch c s = s\<lparr>console := console s @ [c]\<rparr>"

definition kprintf :: "string \<Rightarrow> ('h, 'd, 'b, 'a) kern_st_scheme \<Rightarrow> ('h, 'd, 'b, 'a) kern_st_scheme" where
  "kprintf msg s = s\<lparr>console := console s @ map of_char msg\<rparr>"

fun write_loop ::
  "('h, 'd, 'b, 'x) os_ops_scheme \<Rightarrow> vaddr_t \<Rightarrow> nat \<Rightarrow> ('h, 'd, 'b, 'a) kern_st_scheme \<Rightarrow>
     ('h, 'd, 'b, 'a) kern_st_scheme kres" where
  "write_loop E p 0 s = Ret s"
| "write_loop E p (Suc n) s = kbind (load_byte E p s) (\<lambda>(c, s1). write_loop E (p + 1) n (putch c s1))"

definition sys_write ::
  "('h, 'd, 'b, 'a) kern_st_scheme kern_ext \<Rightarrow> ('h, 'd, 'b, 'x) kern_ops_scheme \<Rightarrow> int \<Rightarrow> vaddr_t \<Rightarrow> w32 \<Rightarrow>
     ('h, 'd, 'b, 'a) kern_st_scheme \<Rightarrow> (int \<times> ('h, 'd, 'b, 'a) kern_st_scheme) kres" where
  "sys_write X E fd buf_ptr sz s =
     (if fd \<noteq> STDOUT_FILENO \<and> fd \<noteq> STDERR_FILENO then
        if opt_file E then file_write X E fd buf_ptr sz s
        else Ret (-1, kprintf (''sys_write supported only to stdout'' @ [CHR 0x0A]) s)
      else kbind (write_loop E buf_ptr (nat (sint sz)) s) (\<lambda>s1. Ret (sint sz, s1)))"

text \<open>
  The loop of \<open>sys_read\<close>, with the index at which it returned early. A \<open>char\<close> is signed: a byte from
  128 on is negative and ends the loop.
\<close>

fun read_loop ::
  "('h, 'd, 'b, 'x) os_ops_scheme \<Rightarrow> vaddr_t \<Rightarrow> int \<Rightarrow> nat \<Rightarrow> ('h, 'd, 'b, 'a) kern_st_scheme \<Rightarrow>
     (int option \<times> ('h, 'd, 'b, 'a) kern_st_scheme) kres" where
  "read_loop E p i 0 s = Ret (None, s)"
| "read_loop E p i (Suc n) s =
     (case con_in s of
        [] \<Rightarrow> Sleeps
      | c # cs \<Rightarrow>
          kbind (store_bytes E p [c] (s\<lparr>con_in := cs\<rparr>)) (\<lambda>s1.
          kbind (load_byte E p s1) (\<lambda>(b, s2).
          if sint b < 0 then Ret (Some i, s2) else read_loop E (p + 1) (i + 1) n s2)))"

definition sys_read ::
  "('h, 'd, 'b, 'a) kern_st_scheme kern_ext \<Rightarrow> ('h, 'd, 'b, 'x) kern_ops_scheme \<Rightarrow> int \<Rightarrow> vaddr_t \<Rightarrow> w32 \<Rightarrow>
     ('h, 'd, 'b, 'a) kern_st_scheme \<Rightarrow> (int \<times> ('h, 'd, 'b, 'a) kern_st_scheme) kres" where
  "sys_read X E fd buf_ptr sz s =
     (if fd \<noteq> STDIN_FILENO then
        if opt_file E then file_read X E fd buf_ptr sz s
        else Ret (-1, kprintf (''sys_read supported only to stdin'' @ [CHR 0x0A]) s)
      else kbind (read_loop E buf_ptr 0 (nat (sint sz)) s) (\<lambda>(r, s1).
        Ret (case r of Some i \<Rightarrow> i | None \<Rightarrow> sint sz, s1)))"

end
