(* ===== verification/Runprogram.thy ===== *)
theory Runprogram
  imports File_Syscalls
begin


text \<open>
  Starting a program (\<open>kern/syscall/runprogram.c\<close>, built with \<open>OPT_PAGING\<close>). \<open>enter_new_process\<close> does
  not return; the models end with the arguments of that call.
\<close>

record usermode =
  um_argc :: nat
  um_argv :: vaddr_t
  um_stackptr :: vaddr_t
  um_entry :: vaddr_t

section \<open>Loading\<close>

text \<open>
  What \<open>runprogram\<close> and \<open>runprogramWithArgs\<close> both begin with: the new address space, the executable and
  the stack. The result is an error code or the entry point and the stack pointer, with what is left in the
  buffer of the program name.
\<close>

definition load_program ::
  "('h, 'd, 'b, 'x) elf_ops_scheme \<Rightarrow> string \<Rightarrow> ('h, 'd, 'b, 'a) core_st_scheme \<Rightarrow>
     ((errno + vaddr_t \<times> vaddr_t) \<times> string \<times> ('h, 'd, 'b, 'a) core_st_scheme) kres" where
  "load_program E prog s =
     KASSERT (proc_getas s = None)
      (kbind (as_create E prog s) (\<lambda>(a, result, prog, s1).
       case a of
         None \<Rightarrow> (case result of None \<Rightarrow> Undef | Some e \<Rightarrow> Ret (Inl e, prog, s1))
       | Some a \<Rightarrow>
           kbind (proc_setas (Some a) s1) (\<lambda>(old, s2).
           kbind (as_activate E s2) (\<lambda>s3.
           kbind (load_elf E (as_v (aspaces s3 a)) s3) (\<lambda>(result, entrypoint, s4).
           case (result, entrypoint) of
             (Some e, _) \<Rightarrow> Ret (Inl e, prog, s4)
           | (None, None) \<Rightarrow> Undef
           | (None, Some entry) \<Rightarrow>
               let (result, stackptr) = as_define_stack s4 in
               (case result of Some e \<Rightarrow> Ret (Inl e, prog, s4) | None \<Rightarrow> Ret (Inr (entry, stackptr), prog, s4)))))))"

definition runprogram ::
  "('h, 'd, 'b, 'x) elf_ops_scheme \<Rightarrow> string \<Rightarrow> ('h, 'd, 'b, 'a) core_st_scheme \<Rightarrow>
     ((errno + usermode) \<times> string \<times> ('h, 'd, 'b, 'a) core_st_scheme) kres" where
  "runprogram E prog s =
     kbind (load_program E prog s) (\<lambda>(r, prog, s1). Ret (case r of
         Inl e \<Rightarrow> Inl e
       | Inr (entrypoint, stackptr) \<Rightarrow>
           Inr \<lparr>um_argc = 0, um_argv = 0, um_stackptr = stackptr, um_entry = entrypoint\<rparr>, prog, s1))"

section \<open>Arguments\<close>

definition ROUNDUP :: "w32 \<Rightarrow> w32 \<Rightarrow> w32" where
  "ROUNDUP a b = (a + b - 1) div b * b"

text \<open>The characters of a C string with its terminating zero, which \<open>copyoutstr\<close> stores.\<close>

definition cstr :: "string \<Rightarrow> byte list" where
  "cstr str = map of_char str @ [0]"

text \<open>
  The loop that copies the strings, from the last one down. \<open>addrs\<close> is the array \<open>addrargs\<close>; an
  element that has not been assigned is \<open>None\<close>.
\<close>

fun push_strings ::
  "(byte list \<Rightarrow> vaddr_t \<Rightarrow> 's \<Rightarrow> (kerr \<times> 's) kres) \<Rightarrow> string option list \<Rightarrow> nat \<Rightarrow> vaddr_t \<Rightarrow>
     vaddr_t option list \<Rightarrow> 's \<Rightarrow> (kerr \<times> vaddr_t \<times> vaddr_t option list \<times> 's) kres" where
  "push_strings cpo args 0 stackptr addrs s = Ret (None, stackptr, addrs, s)"
| "push_strings cpo args (Suc i) stackptr addrs s =
     (case args ! i of
        None \<Rightarrow> Ret (None, stackptr, addrs, s)
      | Some str \<Rightarrow>
          let strsize = of_nat (length str) + 1 in
          if strsize = 0 then Ret (Some EINVAL, stackptr, addrs, s) else
          let strsizeround = ROUNDUP strsize 4;
              stackptr1 = stackptr - strsizeround in
          kbind (cpo (cstr str) stackptr1 s) (\<lambda>(err, s1).
          if err \<noteq> None then Ret (err, stackptr1, addrs, s1)
          else push_strings cpo args i stackptr1 (addrs[i := Some stackptr1]) s1))"

text \<open>The loop that copies the pointers, from \<open>addrargs[n - 1]\<close> down to \<open>addrargs[0]\<close>.\<close>

fun push_pointers ::
  "(byte list \<Rightarrow> vaddr_t \<Rightarrow> 's \<Rightarrow> (kerr \<times> 's) kres) \<Rightarrow> vaddr_t option list \<Rightarrow> nat \<Rightarrow> vaddr_t \<Rightarrow> 's \<Rightarrow>
     (kerr \<times> vaddr_t \<times> 's) kres" where
  "push_pointers cpo addrs 0 stackptr s = Ret (None, stackptr, s)"
| "push_pointers cpo addrs (Suc i) stackptr s =
     (case addrs ! i of
        None \<Rightarrow> Undef
      | Some a \<Rightarrow>
          kbind (cpo (be32 a) (stackptr - 4) s) (\<lambda>(err, s1).
          if err \<noteq> None then Ret (err, stackptr - 4, s1) else push_pointers cpo addrs i (stackptr - 4) s1))"

text \<open>
  The array \<open>args\<close> is part of the result: its first string is the buffer that \<open>vfs_open\<close> may have overwritten,
  before the strings are copied to the stack.
\<close>

definition runprogramWithArgs ::
  "(byte list \<Rightarrow> vaddr_t \<Rightarrow> ('h, 'd, 'b, 'a) core_st_scheme \<Rightarrow> (kerr \<times> ('h, 'd, 'b, 'a) core_st_scheme) kres) \<Rightarrow>
     ('h, 'd, 'b, 'x) elf_ops_scheme \<Rightarrow> string option list \<Rightarrow> ('h, 'd, 'b, 'a) core_st_scheme \<Rightarrow>
     ((errno + usermode) \<times> string option list \<times> ('h, 'd, 'b, 'a) core_st_scheme) kres" where
  "runprogramWithArgs cpo E args s =
     (case args ! 0 of
        None \<Rightarrow> Undef
      | Some prog \<Rightarrow>
          kbind (load_program E prog s) (\<lambda>(r, prog, s1).
          let args = args[0 := Some prog] in
          case r of
            Inl e \<Rightarrow> Ret (Inl e, args, s1)
          | Inr (entrypoint, stackptr) \<Rightarrow>
              let nargs = length args in
              kbind (push_strings cpo args nargs stackptr (replicate (nargs + 1) None) s1) (\<lambda>(err, sp1, addrs, s2).
              case err of
                Some e \<Rightarrow> Ret (Inl e, args, s2)
              | None \<Rightarrow>
                  kbind (push_pointers cpo (addrs[nargs := Some 0]) (nargs + 1) sp1 s2) (\<lambda>(err, sp2, s3).
                  case err of
                    Some e \<Rightarrow> Ret (Inl e, args, s3)
                  | None \<Rightarrow> Ret (Inr \<lparr>um_argc = nargs, um_argv = sp2, um_stackptr = sp2 - sp2 mod 8,
                      um_entry = entrypoint\<rparr>, args, s3)))))"

end
