(* ===== verification/Syscall_Dispatch.thy ===== *)
theory Syscall_Dispatch
  imports Runprogram
begin


text \<open>
  Boot, shutdown (\<open>kern/main/main.c\<close>) and the system call dispatcher
  (\<open>kern/arch/mips/syscall/syscall.c\<close>).
\<close>

section \<open>Boot and shutdown\<close>

text \<open>The number format of \<open>kprintf\<close> for \<open>%d\<close>.\<close>

definition dec_int :: "int \<Rightarrow> string" where
  "dec_int i = (if i < 0 then CHR ''-'' # dec_digits (nat (- i)) else dec_digits (nat i))"

text \<open>
  What \<open>boot\<close> calls outside the repository, in its order, with the result of \<open>vfs_swapon\<close> and of \<open>VOP_STAT\<close> on
  the swap device, the RAM that \<open>ram_bootstrap\<close> found, the start of the other CPUs, and the two names the build
  system generates.
\<close>

record 's boot_ext =
  buildconfig :: string
  buildversion :: int
  ram_bootstrap :: "'s \<Rightarrow> 's"
  hardclock_bootstrap :: "'s \<Rightarrow> 's"
  vfs_bootstrap :: "'s \<Rightarrow> 's"
  kheap_nextgeneration :: "'s \<Rightarrow> 's"
  mainbus_bootstrap :: "'s \<Rightarrow> 's"
  pseudoconfig :: "'s \<Rightarrow> 's"
  kprintf_bootstrap :: "'s \<Rightarrow> 's"
  boot_swapon :: "kerr \<times> nat option"
  boot_vstat :: "kerr \<times> int"
  boot_ram :: "paddr_t \<times> paddr_t"
  boot_cpus :: "'s \<Rightarrow> 's"
  boot_add_ok :: bool

definition BASE_VERSION :: string where "BASE_VERSION = ''2.0.2''"
definition GROUP_VERSION :: string where "GROUP_VERSION = ''1''"

definition harvard_copyright :: string where
  "harvard_copyright = ''Copyright (c) 2000, 2001-2005, 2008-2011, 2013, 2014'' @ [CHR 0x0A] @
     ''   President and Fellows of Harvard College.  All rights reserved.'' @ [CHR 0x0A]"

definition boot_banner :: "'s boot_ext \<Rightarrow> string" where
  "boot_banner B = [CHR 0x0A] @ ''OS/161 base system version '' @ BASE_VERSION @ [CHR 0x0A] @ harvard_copyright @ [CHR 0x0A] @
     ''Nico & Alex's system version '' @ GROUP_VERSION @ '' ('' @ buildconfig B @ '' #'' @ dec_int (buildversion B) @ '')'' @
     [CHR 0x0A] @ [CHR 0x0A]"

definition vfs_ignore :: "'s kern_ext \<Rightarrow> vfs_call \<Rightarrow> 's \<Rightarrow> 's" where
  "vfs_ignore X c s = snd (snd (vfs_do X c s))"

definition boot ::
  "('h, 'd, 'b, 'a) kern_st_scheme boot_ext \<Rightarrow> ('h, 'd, 'b, 'a) kern_st_scheme kern_ext \<Rightarrow>
     ('h, 'd, 'b, 'x) vm_ops_scheme \<Rightarrow> ('h, 'd, 'b, 'a) kern_st_scheme \<Rightarrow> ('h, 'd, 'b, 'a) kern_st_scheme kres" where
  "boot B X E s =
     kbind (proc_bootstrap (ram_bootstrap B (kprintf (boot_banner B) s))) (\<lambda>s1.
     kbind (thread_bootstrap (boot_add_ok B) s1) (\<lambda>s2.
     let s3 = kprintf (''Device probe...'' @ [CHR 0x0A])
                (kheap_nextgeneration B (vfs_bootstrap B (hardclock_bootstrap B s2))) in
     KASSERT (t_curspl (threads s3 (curthread s3)) > 0)
      (let s4 = mainbus_bootstrap B s3 in
       KASSERT (t_curspl (threads s4 (curthread s4)) = 0)
        (let s5 = kheap_nextgeneration B (kprintf [CHR 0x0A] (pseudoconfig B s4)) in
         kbind (vm_bootstrap E (boot_swapon B) (boot_vstat B) (fst (boot_ram B)) (snd (boot_ram B)) s5) (\<lambda>s6.
         kbind (thread_start_cpus (boot_cpus B) (kprintf_bootstrap B s6)) (\<lambda>s7.
         Ret (kheap_nextgeneration B (vfs_ignore X (Vfs_setbootfs ''emu0'') s7))))))))"

definition shutdown ::
  "('h, 'd, 'b, 'a) kern_st_scheme kern_ext \<Rightarrow> ('h, 'd, 'b, 'a) kern_st_scheme \<Rightarrow>
     ('h, 'd, 'b, 'a) kern_st_scheme kres" where
  "shutdown X s =
     kbind (close_swapfile (swapoff_of X s) s) (\<lambda>s1.
     kbind (vm_stats_print s1) (\<lambda>(report, s2).
     let s3 = kprintf (''Shutting down.'' @ [CHR 0x0A]) s2;
         s4 = vfs_ignore X Vfs_unmountall (vfs_ignore X Vfs_clearcurdir (vfs_ignore X Vfs_clearbootfs s3)) in
     thread_shutdown s4))"

definition sys_reboot ::
  "('h, 'd, 'b, 'a) kern_st_scheme kern_ext \<Rightarrow> ('h, 'd, 'b, 'x) kern_ops_scheme \<Rightarrow> int \<Rightarrow>
     ('h, 'd, 'b, 'a) kern_st_scheme \<Rightarrow> (kerr \<times> ('h, 'd, 'b, 'a) kern_st_scheme) kres" where
  "sys_reboot X E code s =
     (case reboot_of E code of
        None \<Rightarrow> Ret (Some EINVAL, s)
      | Some c \<Rightarrow>
          kbind (shutdown X s) (\<lambda>s1.
          let msg = (case c of RB_REBOOT \<Rightarrow> ''Rebooting...'' | _ \<Rightarrow> ''The system is halted.'') in
          kbind (mainbus_stop X c (kprintf (msg @ [CHR 0x0A]) s1)) (\<lambda>s2.
          Panic ''reboot operation failed'')))"

section \<open>System calls\<close>

text \<open>
  A handler returns to the program with an error code and a value, or, after \<open>_exit\<close>, another thread
  runs.
\<close>

datatype 's call_result = Returned kerr int 's | Switched 's

definition neg_err :: "int \<times> 's \<Rightarrow> 's call_result" where
  "neg_err r = Returned (if fst r < 0 then Some ENOSYS else None) (fst r) (snd r)"

definition syscall_handler ::
  "('h, 'd, 'b, 'a) kern_st_scheme kern_ext \<Rightarrow> ('h, 'd, 'b, 'x) kern_ops_scheme \<Rightarrow> trapframe \<Rightarrow>
     ('h, 'd, 'b, 'a) kern_st_scheme \<Rightarrow> ('h, 'd, 'b, 'a) kern_st_scheme call_result kres" where
  "syscall_handler X E tf s =
     (let unknown = Ret (Returned (Some ENOSYS) 0
            (kprintf (''Unknown syscall '' @ dec_int (sint (tf_v0 tf)) @ [CHR 0x0A]) s)) in
      case sysno_of E (tf_v0 tf) of
        None \<Rightarrow> unknown
      | Some SYS_reboot \<Rightarrow> kbind (sys_reboot X E (sint (tf_a0 tf)) s) (\<lambda>(err, s1). Ret (Returned err 0 s1))
      | Some SYS___time \<Rightarrow> kbind (sys_time X (tf_a0 tf) (tf_a1 tf) s) (\<lambda>(err, s1). Ret (Returned err 0 s1))
      | Some SYS_open \<Rightarrow> if \<not> opt_file E then unknown else
          kbind (sys_open X E (tf_a0 tf) (tf_a1 tf) (tf_a2 tf) s) (\<lambda>(r, err, s1). Ret (Returned err r s1))
      | Some SYS_close \<Rightarrow> if \<not> opt_file E then unknown else
          kbind (sys_close E (sint (tf_a0 tf)) s) (\<lambda>(r, s1).
            Ret (Returned (if r < 0 then Some ENOENT else None) r s1))
      | Some SYS_remove \<Rightarrow> if \<not> opt_file E then unknown else Ret (Returned None 0 s)
      | Some SYS_write \<Rightarrow>
          kbind (sys_write X E (sint (tf_a0 tf)) (tf_a1 tf) (tf_a2 tf) s) (\<lambda>r. Ret (neg_err r))
      | Some SYS_read \<Rightarrow>
          kbind (sys_read X E (sint (tf_a0 tf)) (tf_a1 tf) (tf_a2 tf) s) (\<lambda>r. Ret (neg_err r))
      | Some SYS__exit \<Rightarrow>
          kbind (sys__exit (cpu_idle_of X) (sint (tf_a0 tf)) s) (\<lambda>s1. Ret (Switched s1))
      | Some SYS_waitpid \<Rightarrow>
          kbind (sys_waitpid E (sint (tf_a0 tf)) (tf_a1 tf) s) (\<lambda>r. Ret (neg_err r))
      | Some SYS_getpid \<Rightarrow> kbind (sys_getpid s) (\<lambda>r. Ret (neg_err (r, s)))
      | Some SYS_fork \<Rightarrow> if \<not> opt_fork E then unknown else
          kbind (sys_fork E (kmalloc_block X) tf s) (\<lambda>(err, r, s1). Ret (Returned err r s1)))"

definition spl_ok :: "'a sched_scheme \<Rightarrow> bool" where
  "spl_ok s \<longleftrightarrow> t_curspl (threads s (curthread s)) = 0 \<and> t_iplhigh_count (threads s (curthread s)) = 0"

text \<open>The trap frame the program continues with, or \<open>None\<close> when another thread runs.\<close>

definition syscall ::
  "('h, 'd, 'b, 'a) kern_st_scheme kern_ext \<Rightarrow> ('h, 'd, 'b, 'x) kern_ops_scheme \<Rightarrow> trapframe \<Rightarrow>
     ('h, 'd, 'b, 'a) kern_st_scheme \<Rightarrow> (trapframe option \<times> ('h, 'd, 'b, 'a) kern_st_scheme) kres" where
  "syscall X E tf s =
     KASSERT (spl_ok s)
      (kbind (syscall_handler X E tf s) (\<lambda>r. case r of
         Switched s1 \<Rightarrow> Ret (None, s1)
       | Returned err retval s1 \<Rightarrow>
           let tf1 = (case err of
                 Some e \<Rightarrow> tf\<lparr>tf_v0 := errno_num E e, tf_a3 := 1\<rparr>
               | None \<Rightarrow> tf\<lparr>tf_v0 := of_int retval, tf_a3 := 0\<rparr>);
               tf2 = tf1\<lparr>tf_epc := tf_epc tf1 + 4\<rparr> in
           KASSERT (spl_ok s1) (Ret (Some tf2, s1))))"

end
