(* ===== verification/Kern_Menu.thy ===== *)
theory Kern_Menu
  imports Syscall_Dispatch
begin


text \<open>
  The kernel menu (\<open>kern/main/menu.c\<close>): the commands, the table they are looked up in, the splitting of
  a line into commands and words, and the threads that run programs. The tests of \<open>kern/test\<close> and
  \<open>printfile\<close> are outside the repository (\<open>run_other\<close>, by the name in the table), as are the VFS and
  the kernel heap.
\<close>

definition newline :: string where "newline = [CHR 0x0A]"
definition tab_char :: char where "tab_char = CHR 0x09"

section \<open>Words\<close>

text \<open>\<open>strtok_r\<close>: the next word of the rest of the line, and what is behind it.\<close>

definition strtok_r :: "char list \<Rightarrow> string \<Rightarrow> (string \<times> string) option" where
  "strtok_r delims line =
     (let rest = dropWhile (\<lambda>c. c \<in> set delims) line in
      if rest = [] then None
      else Some (takeWhile (\<lambda>c. c \<notin> set delims) rest, drop 1 (dropWhile (\<lambda>c. c \<notin> set delims) rest)))"

lemma strtok_r_shorter: "strtok_r ds line = Some (w, rest) \<Longrightarrow> length rest < length line"
proof -
  assume a: "strtok_r ds line = Some (w, rest)"
  define r where "r = dropWhile (\<lambda>c. c \<in> set ds) line"
  from a have "r \<noteq> []" "rest = drop 1 (dropWhile (\<lambda>c. c \<notin> set ds) r)"
    by (auto simp: strtok_r_def r_def Let_def split: if_splits)
  moreover have "length r \<le> length line" unfolding r_def by (rule length_dropWhile_le)
  moreover have "length (dropWhile (\<lambda>c. c \<notin> set ds) r) \<le> length r" by (rule length_dropWhile_le)
  ultimately show ?thesis by (cases r) (auto simp del: length_dropWhile_le)
qed

definition MAXMENUARGS :: nat where "MAXMENUARGS = 16"

text \<open>The loop of \<open>cmd_dispatch\<close> that fills \<open>args\<close>; \<open>None\<close> is the return of \<open>E2BIG\<close>.\<close>

function split_args :: "string \<Rightarrow> string list \<Rightarrow> string list option" where
  "split_args cmd args =
     (case strtok_r [CHR '' '', tab_char] cmd of
        None \<Rightarrow> Some args
      | Some (word, context) \<Rightarrow>
          if length args \<ge> MAXMENUARGS then None else split_args context (args @ [word]))"
  by pat_completeness auto
termination by (relation "measure (\<lambda>(cmd, args). length cmd)") (auto dest: strtok_r_shorter)

declare split_args.simps [simp del]

section \<open>Programs\<close>

definition cmd_progthread ::
  "('h, 'd, 'b, 'a) kern_st_scheme kern_ext \<Rightarrow> ('h, 'd, 'b, 'x) kern_ops_scheme \<Rightarrow> string option list \<Rightarrow>
     ('h, 'd, 'b, 'a) kern_st_scheme \<Rightarrow> (usermode option \<times> ('h, 'd, 'b, 'a) kern_st_scheme) kres" where
  "cmd_progthread X E args s =
     KASSERT (length args \<ge> 1)
      (kbind (runprogramWithArgs (copyout X) E args s) (\<lambda>(r, args, s1). case r of
         Inr u \<Rightarrow> Ret (Some u, s1)
       | Inl e \<Rightarrow> Ret (None, kprintf (''Running program '' @ the (args ! 0) @ '' failed: '' @ strerror X e @ newline) s1)))"

text \<open>\<open>common_prog\<close> up to \<open>proc_wait\<close>: the error, or the process to wait for.\<close>

definition common_prog_start ::
  "('h, 'd, 'b, 'a) kern_st_scheme kern_ext \<Rightarrow> ('h, 'd, 'b, 'x) kern_ops_scheme \<Rightarrow> string list \<Rightarrow>
     ('h, 'd, 'b, 'a) kern_st_scheme \<Rightarrow> ((errno + nat) \<times> ('h, 'd, 'b, 'a) kern_st_scheme) kres" where
  "common_prog_start X E args s =
     kbind (proc_create_files E (args ! 0) s) (\<lambda>(proc, s1). case proc of
       None \<Rightarrow> Ret (Inl ENOMEM, s1)
     | Some p \<Rightarrow>
         kbind (thread_fork (args ! 0) (Some p) (Progthread (map Some args)) s1) (\<lambda>(result, s2). case result of
           Some e \<Rightarrow>
             kbind (proc_destroy E p (kprintf (''thread_fork failed: '' @ strerror X e @ newline) s2)) (\<lambda>s3.
             Ret (Inl e, s3))
         | None \<Rightarrow> Ret (Inr p, s2)))"

definition common_prog ::
  "('h, 'd, 'b, 'a) kern_st_scheme kern_ext \<Rightarrow> ('h, 'd, 'b, 'x) kern_ops_scheme \<Rightarrow> string list \<Rightarrow>
     ('h, 'd, 'b, 'a) kern_st_scheme \<Rightarrow> (kerr \<times> ('h, 'd, 'b, 'a) kern_st_scheme) kres" where
  "common_prog X E args s =
     kbind (common_prog_start X E args s) (\<lambda>(r, s1). case r of
       Inl e \<Rightarrow> Ret (Some e, s1)
     | Inr p \<Rightarrow>
         kbind (proc_wait E p s1) (\<lambda>(err, s2).
         Ret (None, if err \<noteq> 0 then kprintf (''Program exit status '' @ dec_int err @ newline) s2 else s2)))"

definition usage :: "string \<Rightarrow> ('h, 'd, 'b, 'a) kern_st_scheme \<Rightarrow> (kerr \<times> ('h, 'd, 'b, 'a) kern_st_scheme) kres" where
  "usage msg s = Ret (Some EINVAL, kprintf (''Usage: '' @ msg @ newline) s)"

definition cmd_prog ::
  "('h, 'd, 'b, 'a) kern_st_scheme kern_ext \<Rightarrow> ('h, 'd, 'b, 'x) kern_ops_scheme \<Rightarrow> string list \<Rightarrow>
     ('h, 'd, 'b, 'a) kern_st_scheme \<Rightarrow> (kerr \<times> ('h, 'd, 'b, 'a) kern_st_scheme) kres" where
  "cmd_prog X E args s =
     (if length args < 2 then usage ''p program [arguments]'' s else common_prog X E (tl args) s)"

definition cmd_shell ::
  "('h, 'd, 'b, 'a) kern_st_scheme kern_ext \<Rightarrow> ('h, 'd, 'b, 'x) kern_ops_scheme \<Rightarrow> string list \<Rightarrow>
     ('h, 'd, 'b, 'a) kern_st_scheme \<Rightarrow> (kerr \<times> ('h, 'd, 'b, 'a) kern_st_scheme) kres" where
  "cmd_shell X E args s =
     (if length args \<noteq> 1 then usage ''s'' s else common_prog X E (args[0 := ''/bin/sh'']) s)"

section \<open>File systems and the heap\<close>

definition vfs_cmd ::
  "'s kern_ext \<Rightarrow> vfs_call \<Rightarrow> 's \<Rightarrow> (kerr \<times> 's) kres" where
  "vfs_cmd X c s = (let (err, out, s1) = vfs_do X c s in Ret (err, s1))"

definition cmd_chdir ::
  "('h, 'd, 'b, 'a) kern_st_scheme kern_ext \<Rightarrow> string list \<Rightarrow>
     ('h, 'd, 'b, 'a) kern_st_scheme \<Rightarrow> (kerr \<times> ('h, 'd, 'b, 'a) kern_st_scheme) kres" where
  "cmd_chdir X args s =
     (if length args \<noteq> 2 then usage ''cd directory'' s else vfs_cmd X (Vfs_chdir (args ! 1)) s)"

definition cmd_pwd ::
  "('h, 'd, 'b, 'a) kern_st_scheme kern_ext \<Rightarrow> string list \<Rightarrow>
     ('h, 'd, 'b, 'a) kern_st_scheme \<Rightarrow> (kerr \<times> ('h, 'd, 'b, 'a) kern_st_scheme) kres" where
  "cmd_pwd X args s =
     (let (result, buf, s1) = vfs_do X Vfs_getcwd s in
      case result of
        Some e \<Rightarrow> Ret (Some e, kprintf (''vfs_getcwd failed ('' @ strerror X e @ '')'' @ newline) s1)
      | None \<Rightarrow> Ret (None, kprintf (buf @ newline) s1))"

definition cmd_sync ::
  "'s kern_ext \<Rightarrow> string list \<Rightarrow> 's \<Rightarrow> (kerr \<times> 's) kres" where
  "cmd_sync X args s = Ret (None, vfs_ignore X Vfs_sync s)"

definition cmd_panic :: "string list \<Rightarrow> 's \<Rightarrow> (kerr \<times> 's) kres" where
  "cmd_panic args s = Panic ''User requested panic''"

definition cmd_quit ::
  "('h, 'd, 'b, 'a) kern_st_scheme kern_ext \<Rightarrow> ('h, 'd, 'b, 'x) kern_ops_scheme \<Rightarrow> string list \<Rightarrow>
     ('h, 'd, 'b, 'a) kern_st_scheme \<Rightarrow> (kerr \<times> ('h, 'd, 'b, 'a) kern_st_scheme) kres" where
  "cmd_quit X E args s =
     kbind (sys_reboot X E (rb_poweroff E) (vfs_ignore X Vfs_sync s)) (\<lambda>(err, s1).
     kbind (thread_exit (cpu_idle_of X) s1) (\<lambda>s2. Ret (None, s2)))"

text \<open>A device name may end with a colon. The name is not empty, being a word.\<close>

definition strip_colon :: "string \<Rightarrow> string kres" where
  "strip_colon device =
     (if device = [] then Undef else Ret (if last device = CHR '':'' then butlast device else device))"

definition cmd_mount ::
  "('h, 'd, 'b, 'a) kern_st_scheme kern_ext \<Rightarrow> string list \<Rightarrow>
     ('h, 'd, 'b, 'a) kern_st_scheme \<Rightarrow> (kerr \<times> ('h, 'd, 'b, 'a) kern_st_scheme) kres" where
  "cmd_mount X args s =
     (if length args \<noteq> 3 then usage ''mount fstype device:'' s else
      kbind (strip_colon (args ! 2)) (\<lambda>device.
      if args ! 1 = ''sfs'' then vfs_cmd X (Sfs_mount device) s
      else Ret (Some EINVAL, kprintf (''Unknown filesystem type '' @ args ! 1 @ newline) s)))"

definition cmd_unmount ::
  "('h, 'd, 'b, 'a) kern_st_scheme kern_ext \<Rightarrow> string list \<Rightarrow>
     ('h, 'd, 'b, 'a) kern_st_scheme \<Rightarrow> (kerr \<times> ('h, 'd, 'b, 'a) kern_st_scheme) kres" where
  "cmd_unmount X args s =
     (if length args \<noteq> 2 then usage ''unmount device:'' s else
      kbind (strip_colon (args ! 1)) (\<lambda>device. vfs_cmd X (Vfs_unmount device) s))"

definition cmd_bootfs ::
  "('h, 'd, 'b, 'a) kern_st_scheme kern_ext \<Rightarrow> string list \<Rightarrow>
     ('h, 'd, 'b, 'a) kern_st_scheme \<Rightarrow> (kerr \<times> ('h, 'd, 'b, 'a) kern_st_scheme) kres" where
  "cmd_bootfs X args s =
     (if length args \<noteq> 2 then usage ''bootfs device'' s else
      kbind (strip_colon (args ! 1)) (\<lambda>device. vfs_cmd X (Vfs_setbootfs device) s))"

definition cmd_kheapdump ::
  "('h, 'd, 'b, 'a) kern_st_scheme kern_ext \<Rightarrow> string list \<Rightarrow>
     ('h, 'd, 'b, 'a) kern_st_scheme \<Rightarrow> (kerr \<times> ('h, 'd, 'b, 'a) kern_st_scheme) kres" where
  "cmd_kheapdump X args s =
     (if length args = 1 then kbind (run_other X ''kheap_dump'' [] s) (\<lambda>(e, s1). Ret (None, s1))
      else if length args = 2 \<and> args ! 1 = ''all''
      then kbind (run_other X ''kheap_dumpall'' [] s) (\<lambda>(e, s1). Ret (None, s1))
      else Ret (None, kprintf (''Usage: khdump [all]'' @ newline) s))"

definition cmd_kheapstats ::
  "('h, 'd, 'b, 'a) kern_st_scheme kern_ext \<Rightarrow> string list \<Rightarrow>
     ('h, 'd, 'b, 'a) kern_st_scheme \<Rightarrow> (kerr \<times> ('h, 'd, 'b, 'a) kern_st_scheme) kres" where
  "cmd_kheapstats X args s = kbind (run_other X ''kheap_printstats'' [] s) (\<lambda>(e, s1). Ret (None, s1))"

definition cmd_kheapgeneration ::
  "('h, 'd, 'b, 'a) kern_st_scheme kern_ext \<Rightarrow> string list \<Rightarrow>
     ('h, 'd, 'b, 'a) kern_st_scheme \<Rightarrow> (kerr \<times> ('h, 'd, 'b, 'a) kern_st_scheme) kres" where
  "cmd_kheapgeneration X args s = kbind (run_other X ''kheap_nextgeneration'' [] s) (\<lambda>(e, s1). Ret (None, s1))"


section \<open>The menus\<close>

definition opsmenu :: "string list" where
  "opsmenu =
    [''[s]       Shell                     '',
     ''[p]       Other program             '',
     ''[mount]   Mount a filesystem        '',
     ''[unmount] Unmount a filesystem      '',
     ''[bootfs]  Set \"boot\" filesystem     '',
     ''[pf]      Print a file              '',
     ''[cd]      Change directory          '',
     ''[pwd]     Print current directory   '',
     ''[sync]    Sync filesystems          '',
     ''[panic]   Intentional panic         '',
     ''[q]       Quit and shut down        '']"

definition testmenu :: "string list" where
  "testmenu =
    [''[at]  Array test                    '',
     ''[at2] Large array test              '',
     ''[bt]  Bitmap test                   '',
     ''[tlt] Threadlist test               '',
     ''[km1] Kernel malloc test            '',
     ''[km2] kmalloc stress test           '',
     ''[km3] Large kmalloc test            '',
     ''[km4] Multipage kmalloc test        '',
     ''[tt1] Thread test 1                 '',
     ''[tt2] Thread test 2                 '',
     ''[tt3] Thread test 3                 '',
     ''[sy1] Semaphore test                '',
     ''[sy2] Lock test             (1)     '',
     ''[sy3] CV test               (1)     '',
     ''[sy4] CV test #2            (1)     '',
     ''[semu1-22] Semaphore unit tests     '',
     ''[fs1] Filesystem test               '',
     ''[fs2] FS read stress                '',
     ''[fs3] FS write stress               '',
     ''[fs4] FS write stress 2             '',
     ''[fs5] FS long stress                '',
     ''[fs6] FS create stress              '']"

definition mainmenu :: "string list" where
  "mainmenu =
    [''[?o] Operations menu                '',
     ''[?t] Tests menu                     '',
     ''[kh] Kernel heap stats              '',
     ''[khgen] Next kernel heap generation '',
     ''[khdump] Dump kernel heap           '',
     ''[q] Quit and shut down              '']"

text \<open>The text \<open>%-36s\<close> prints.\<close>

definition pad36 :: "string \<Rightarrow> string" where
  "pad36 x = x @ replicate (36 - length x) CHR '' ''"

definition menu_row :: "string list \<Rightarrow> nat \<Rightarrow> string" where
  "menu_row x i =
     (let ct = length x; half = (ct + 1) div 2 in
      ''    '' @ pad36 (x ! i) @ (if i + half < ct then x ! (i + half) else []) @ newline)"

definition showmenu ::
  "string \<Rightarrow> string list \<Rightarrow> ('h, 'd, 'b, 'a) kern_st_scheme \<Rightarrow> ('h, 'd, 'b, 'a) kern_st_scheme" where
  "showmenu name x s =
     kprintf (newline @ name @ newline @ concat (map (menu_row x) [0..<(length x + 1) div 2]) @ newline) s"

definition cmd_opsmenu :: "string list \<Rightarrow> ('h, 'd, 'b, 'a) kern_st_scheme \<Rightarrow> (kerr \<times> ('h, 'd, 'b, 'a) kern_st_scheme) kres" where
  "cmd_opsmenu a s = Ret (None, showmenu ''OS/161 operations menu'' opsmenu s)"

definition cmd_testmenu :: "string list \<Rightarrow> ('h, 'd, 'b, 'a) kern_st_scheme \<Rightarrow> (kerr \<times> ('h, 'd, 'b, 'a) kern_st_scheme) kres" where
  "cmd_testmenu a s = Ret (None, kprintf
     (''    (1) These tests will fail until you finish the synch assignment.'' @ newline @ newline)
     (showmenu ''OS/161 tests menu'' testmenu s))"

definition cmd_mainmenu :: "string list \<Rightarrow> ('h, 'd, 'b, 'a) kern_st_scheme \<Rightarrow> (kerr \<times> ('h, 'd, 'b, 'a) kern_st_scheme) kres" where
  "cmd_mainmenu a s = Ret (None, showmenu ''OS/161 kernel menu'' mainmenu s)"

section \<open>The command table\<close>

datatype command = Cmd_mainmenu | Cmd_opsmenu | Cmd_testmenu | Cmd_shell | Cmd_prog | Cmd_mount | Cmd_unmount | Cmd_bootfs | Cmd_chdir
  | Cmd_pwd | Cmd_sync | Cmd_panic | Cmd_quit | Cmd_kheapstats | Cmd_kheapgeneration | Cmd_kheapdump | Other string

definition cmdtable :: "(string \<times> command) list" where
  "cmdtable =
     [(''?'', Cmd_mainmenu), (''h'', Cmd_mainmenu), (''help'', Cmd_mainmenu), (''?o'', Cmd_opsmenu),
      (''?t'', Cmd_testmenu), (''s'', Cmd_shell), (''p'', Cmd_prog), (''mount'', Cmd_mount),
      (''unmount'', Cmd_unmount), (''bootfs'', Cmd_bootfs), (''pf'', Other ''printfile''),
      (''cd'', Cmd_chdir), (''pwd'', Cmd_pwd), (''sync'', Cmd_sync), (''panic'', Cmd_panic),
      (''q'', Cmd_quit), (''exit'', Cmd_quit), (''halt'', Cmd_quit), (''kh'', Cmd_kheapstats),
      (''khgen'', Cmd_kheapgeneration), (''khdump'', Cmd_kheapdump), (''at'', Other ''arraytest''),
      (''at2'', Other ''arraytest2''), (''bt'', Other ''bitmaptest''), (''tlt'', Other ''threadlisttest''),
      (''km1'', Other ''kmalloctest''), (''km2'', Other ''kmallocstress''),
      (''km3'', Other ''kmalloctest3''), (''km4'', Other ''kmalloctest4''),
      (''tt1'', Other ''threadtest''), (''tt2'', Other ''threadtest2''), (''tt3'', Other ''threadtest3''),
      (''sy1'', Other ''semtest''), (''sy2'', Other ''locktest''), (''sy3'', Other ''cvtest''),
      (''sy4'', Other ''cvtest2''), (''semu1'', Other ''semu1''), (''semu2'', Other ''semu2''),
      (''semu3'', Other ''semu3''), (''semu4'', Other ''semu4''), (''semu5'', Other ''semu5''),
      (''semu6'', Other ''semu6''), (''semu7'', Other ''semu7''), (''semu8'', Other ''semu8''),
      (''semu9'', Other ''semu9''), (''semu10'', Other ''semu10''), (''semu11'', Other ''semu11''),
      (''semu12'', Other ''semu12''), (''semu13'', Other ''semu13''), (''semu14'', Other ''semu14''),
      (''semu15'', Other ''semu15''), (''semu16'', Other ''semu16''), (''semu17'', Other ''semu17''),
      (''semu18'', Other ''semu18''), (''semu19'', Other ''semu19''), (''semu20'', Other ''semu20''),
      (''semu21'', Other ''semu21''), (''semu22'', Other ''semu22''), (''fs1'', Other ''fstest''),
      (''fs2'', Other ''readstress''), (''fs3'', Other ''writestress''), (''fs4'', Other ''writestress2''),
      (''fs5'', Other ''longstress''), (''fs6'', Other ''createstress'')]"

fun run_command ::
  "('h, 'd, 'b, 'a) kern_st_scheme kern_ext \<Rightarrow> ('h, 'd, 'b, 'x) kern_ops_scheme \<Rightarrow> command \<Rightarrow> string list \<Rightarrow>
     ('h, 'd, 'b, 'a) kern_st_scheme \<Rightarrow> (kerr \<times> ('h, 'd, 'b, 'a) kern_st_scheme) kres" where
  "run_command X E Cmd_mainmenu args s = cmd_mainmenu args s"
| "run_command X E Cmd_opsmenu args s = cmd_opsmenu args s"
| "run_command X E Cmd_testmenu args s = cmd_testmenu args s"
| "run_command X E Cmd_shell args s = cmd_shell X E args s"
| "run_command X E Cmd_prog args s = cmd_prog X E args s"
| "run_command X E Cmd_mount args s = cmd_mount X args s"
| "run_command X E Cmd_unmount args s = cmd_unmount X args s"
| "run_command X E Cmd_bootfs args s = cmd_bootfs X args s"
| "run_command X E Cmd_chdir args s = cmd_chdir X args s"
| "run_command X E Cmd_pwd args s = cmd_pwd X args s"
| "run_command X E Cmd_sync args s = cmd_sync X args s"
| "run_command X E Cmd_panic args s = cmd_panic args s"
| "run_command X E Cmd_quit args s = cmd_quit X E args s"
| "run_command X E Cmd_kheapstats args s = cmd_kheapstats X args s"
| "run_command X E Cmd_kheapgeneration args s = cmd_kheapgeneration X args s"
| "run_command X E Cmd_kheapdump args s = cmd_kheapdump X args s"
| "run_command X E (Other name) args s = run_other X name args s"

section \<open>Dispatch\<close>

definition timespec_sub :: "nat \<times> nat \<Rightarrow> nat \<times> nat \<Rightarrow> nat \<times> nat" where
  "timespec_sub t u = (if snd t < snd u then (fst t - fst u - 1, snd t + 1000000000 - snd u)
     else (fst t - fst u, snd t - snd u))"

definition took :: "nat \<times> nat \<Rightarrow> string" where
  "took d = (let ns = dec_digits (snd d) in
     ''Operation took '' @ dec_digits (fst d) @ ''.'' @ replicate (9 - length ns) CHR ''0'' @ ns @ '' seconds'' @ newline)"

definition cmd_dispatch ::
  "('h, 'd, 'b, 'a) kern_st_scheme kern_ext \<Rightarrow> ('h, 'd, 'b, 'x) kern_ops_scheme \<Rightarrow> string \<Rightarrow>
     ('h, 'd, 'b, 'a) kern_st_scheme \<Rightarrow> (kerr \<times> ('h, 'd, 'b, 'a) kern_st_scheme) kres" where
  "cmd_dispatch X E cmd s =
     (case split_args cmd [] of
        None \<Rightarrow> Ret (Some E2BIG, kprintf (''Command line has too many words'' @ newline) s)
      | Some [] \<Rightarrow> Ret (None, s)
      | Some (w # ws) \<Rightarrow>
          (case map_of cmdtable w of
             None \<Rightarrow> Ret (Some EINVAL, kprintf (w @ '': Command not found'' @ newline) s)
           | Some c \<Rightarrow>
               kbind (run_command X E c (w # ws) s) (\<lambda>(result, s1).
               Ret (result, kprintf (took (timespec_sub (gettime X s1) (gettime X s))) s1))))"

function menu_execute ::
  "('h, 'd, 'b, 'a) kern_st_scheme kern_ext \<Rightarrow> ('h, 'd, 'b, 'x) kern_ops_scheme \<Rightarrow> string \<Rightarrow> bool \<Rightarrow>
     ('h, 'd, 'b, 'a) kern_st_scheme \<Rightarrow> ('h, 'd, 'b, 'a) kern_st_scheme kres" where
  "menu_execute X E line isargs s =
     (case strtok_r '';'' line of
        None \<Rightarrow> Ret s
      | Some (command, context) \<Rightarrow>
          let s1 = (if isargs then kprintf (''OS/161 kernel: '' @ command @ newline) s else s) in
          kbind (cmd_dispatch X E command s1) (\<lambda>(result, s2). case result of
            None \<Rightarrow> menu_execute X E context isargs s2
          | Some e \<Rightarrow>
              let s3 = kprintf (''Menu command failed: '' @ strerror X e @ newline) s2 in
              if isargs then Panic ''Failure processing kernel arguments''
              else menu_execute X E context isargs s3))"
  by pat_completeness auto
termination
  by (relation "measure (\<lambda>(X, E, line, isargs, s). length line)") (auto dest: strtok_r_shorter)

declare menu_execute.simps [simp del]

text \<open>The main loop, on the lines \<open>kgets\<close> delivers; behind the last of them it waits for input.\<close>

fun menu_loop ::
  "('h, 'd, 'b, 'a) kern_st_scheme kern_ext \<Rightarrow> ('h, 'd, 'b, 'x) kern_ops_scheme \<Rightarrow> string list \<Rightarrow>
     ('h, 'd, 'b, 'a) kern_st_scheme \<Rightarrow> ('h, 'd, 'b, 'a) kern_st_scheme kres" where
  "menu_loop X E [] s = Sleeps"
| "menu_loop X E (buf # lines) s =
     kbind (menu_execute X E buf False (kprintf ''OS/161 kernel [? for menu]: '' s)) (menu_loop X E lines)"

definition menu ::
  "('h, 'd, 'b, 'a) kern_st_scheme kern_ext \<Rightarrow> ('h, 'd, 'b, 'x) kern_ops_scheme \<Rightarrow> string \<Rightarrow> string list \<Rightarrow>
     ('h, 'd, 'b, 'a) kern_st_scheme \<Rightarrow> ('h, 'd, 'b, 'a) kern_st_scheme kres" where
  "menu X E args lines s = kbind (menu_execute X E args True s) (menu_loop X E lines)"

definition kmain ::
  "('h, 'd, 'b, 'a) kern_st_scheme boot_ext \<Rightarrow> ('h, 'd, 'b, 'a) kern_st_scheme kern_ext \<Rightarrow>
     ('h, 'd, 'b, 'x) kern_ops_scheme \<Rightarrow> string \<Rightarrow> string list \<Rightarrow>
     ('h, 'd, 'b, 'a) kern_st_scheme \<Rightarrow> ('h, 'd, 'b, 'a) kern_st_scheme kres" where
  "kmain B X E arguments lines s = kbind (boot B X E s) (menu X E arguments lines)"

end
