(* ===== verification/Syscall_Correct.thy ===== *)
theory Syscall_Correct
  imports Kern_Menu
begin


text \<open>
  Correctness of the system calls that reach user memory, on top of the flat memory of a process:
  the parts of the state outside the VM system do not matter to it, and the accesses of the kernel
  through a user pointer are accesses of the program.
\<close>

section \<open>Changes outside the VM system\<close>

lemma truncate_fields:
  assumes "core_st.truncate t = core_st.truncate s"
  shows "threads t = threads s" "allcpus t = allcpus s" "curcpu t = curcpu s" "curthread t = curthread s"
    "curcpu_exists t = curcpu_exists s" "procs t = procs s" "counters t = counters s" "stats_lock t = stats_lock s"
    "tlb_hw t = tlb_hw s" "next_victim t = next_victim s" "physmem t = physmem s" "disk t = disk s"
    "swapFile t = swapFile s" "swapFileSize t = swapFileSize s" "swapMap t = swapMap s" "swap_lock t = swap_lock s"
    "used t = used s" "aspaces t = aspaces s" "coremap t = coremap s" "coremapSize t = coremapSize s"
    "firstpaddr t = firstpaddr s" "coremapActive t = coremapActive s" "next_svic t = next_svic s" "kmem t = kmem s" "kheap t = kheap s"
  using assms by (simp_all add: core_st.truncate_def)

lemma running_cong:
  assumes "core_st.truncate t = core_st.truncate s"
  shows "running E n A a t = running E n A a s" "view E t a m = view E s a m" "usable E t a va = usable E s a va"
proof -
  note F = truncate_fields [OF assms]
  have q: "swap_inv E n t = swap_inv E n s" "slot_bytes E t = slot_bytes E s" by (rule swap_inv_cong; simp add: F)+
  have w: "tlb_wf E t = tlb_wf E s" "tlb_lookup E t = tlb_lookup E s" by (rule tlb_cong; simp add: F)+
  have c: "core_ok t = core_ok s" "frame_addr t = frame_addr s" by (rule core_map_cong; simp add: F)+
  have x: "can_lock t = can_lock s" "stats_ok t = stats_ok s" "proc_getas t = proc_getas s"
    by (rule can_lock_cong stats_ok_cong proc_getas_cong; simp add: F)+
  have ct: "content E t b j = content E s b j" for b j by (simp add: content_def q F)
  have st: "stack_page t b j = stack_page s b j" for b j by (simp add: stack_page_def F)
  have "vm_inv E n A t = vm_inv E n A s" unfolding vm_invH_def q w c x F by simp
  moreover have "all_fit E n A a t = all_fit E n A a s" by (simp add: all_fit_def all_pages_def F)
  ultimately show "running E n A a t = running E n A a s" by (simp add: running_def x)
  show "view E t a m = view E s a m" by (simp add: view_def page_bytes_def ct st F)
  show "usable E t a va = usable E s a va" by (simp add: usable_def ct st F)
qed


text \<open>The state with another console.\<close>

abbreviation io :: "('h, 'd, 'b, 'a) kern_st_scheme \<Rightarrow> byte list \<Rightarrow> byte list \<Rightarrow> ('h, 'd, 'b, 'a) kern_st_scheme" where
  "io s c d \<equiv> s\<lparr>console := c, con_in := d\<rparr>"

lemma io_truncate [simp]: "core_st.truncate (io s c d) = core_st.truncate s"
  by (simp add: core_st.truncate_def)

lemma more_io: "core_st.more t = core_st.more s \<Longrightarrow> core_st.more (io t c d) = core_st.more (io s c d)"
  by (cases s, cases t) simp

lemma content_io [simp]: "content E (io s c d) b j = content E s b j"
proof -
  have "slot_bytes E (io s c d) = slot_bytes E s" by (rule swap_inv_cong) simp_all
  then show ?thesis by (simp add: content_def)
qed

lemma others_kept_io:
  assumes "others_kept E A a s t"
  shows "others_kept E A a (io s c d) (io t c d)"
proof -
  have "core_st.more (io t c d) = core_st.more (io s c d)"
    by (rule more_io) (use assms in \<open>simp add: others_kept_def same_rest_def\<close>)
  then have "same_rest (io s c d) (io t c d)"
    using assms by (simp add: others_kept_def same_rest_def)
  then show ?thesis
    using assms by (simp add: others_kept_def same_shape_def pages_kept_def all_pages_def)
qed

lemma others_kept_con:
  assumes "others_kept E A a s t"
  shows "console t = console s" "con_in t = con_in s"
proof -
  have "core_st.more t = core_st.more s" using assms by (simp add: others_kept_def same_rest_def)
  then show "console t = console s" "con_in t = con_in s" by (cases s; cases t; simp)+
qed

section \<open>Accesses of the kernel through a user pointer\<close>

lemma usable_low:
  assumes "running E n A a s" "usable E s a va"
  shows "va < MIPS_KSEG0"
proof -
  from assms(2) obtain j where j: "j < length (ptabs s a)" "pte_vaddr (pte s a j) = va AND PAGE_FRAME"
    by (auto simp: usable_def)
  have "as_ok (aspaces s a)" using assms(1) vm_invD(8) by (auto simp: running_def)
  then have "va AND PAGE_FRAME < 0x80000000" using j by (auto simp: as_ok_def ent_ok_def user_page_def all_set_conv_all_nth)
  then have "unat (va AND PAGE_FRAME) < 2 ^ 31" by (simp add: word_less_nat_alt)
  then have "unat va div 4096 < 2 ^ 19" by (simp add: unat_and_PAGE_FRAME)
  then have "unat va < 2 ^ 31" by simp
  then show ?thesis by (simp add: word_less_nat_alt MIPS_KSEG0_def)
qed

lemma load_byte_ok:
  assumes run: "running E n A a s" and us: "usable E s a va" and v: "view E s a m"
  shows "\<exists>t. load_byte E va s = Ret (m va, t) \<and> running E n A a t \<and> view E t a m \<and>
    others_kept E A a s t \<and> (\<forall>x. usable E t a x = usable E s a x)"
proof -
  from user_load [OF assms] obtain t where t: "user_op E (Load va) s = Ret ([m va], t)" "running E n A a t"
    "view E t a m" "others_kept E A a s t" "\<forall>x. usable E t a x = usable E s a x" by (elim exE conjE)
  have "load_byte E va s = Ret (m va, t)"
    using t(1) usable_low [OF run us] by (auto simp: load_byte_def kern_access_def user_op_def split: option.splits)
  with t show ?thesis by (intro exI [of _ t]) simp
qed

lemma store_byte_ok:
  assumes run: "running E n A a s" and us: "usable E s a va" and v: "view E s a m"
  shows "\<exists>t. store_bytes E va [b] s = Ret t \<and> running E n A a t \<and> view E t a (m(va := b)) \<and>
    others_kept E A a s t \<and> (\<forall>x. usable E t a x = usable E s a x)"
proof -
  from user_store [OF assms, of b] obtain t where t: "user_op E (Store va b) s = Ret ([], t)" "running E n A a t"
    "view E t a (m(va := b))" "others_kept E A a s t" "\<forall>x. usable E t a x = usable E s a x" by (elim exE conjE)
  have "store_bytes E va [b] s = Ret t"
    using t(1) usable_low [OF run us] by (auto simp: store_bytes_def kern_access_def user_op_def split: option.splits)
  with t show ?thesis by (intro exI [of _ t]) simp
qed

section \<open>The console\<close>

text \<open>\<open>write_loop\<close> prints the bytes of the buffer and changes nothing else.\<close>

lemma write_loop_ok:
  assumes "running E n A a s" "view E s a m" "\<forall>i<k. usable E s a (p + of_nat i)"
  shows "\<exists>t. write_loop E p k s = Ret t \<and> console t = console s @ map (\<lambda>i. m (p + of_nat i)) [0..<k] \<and>
    running E n A a t \<and> view E t a m \<and> others_kept E A a s (io t (console s) (con_in s))"
  using assms
proof (induction k arbitrary: s p)
  case 0
  then show ?case using others_kept_refl by (intro exI [of _ s]) simp
next
  case (Suc k)
  have "usable E s a p" using Suc.prems(3) [rule_format, of 0] by simp
  from load_byte_ok [OF Suc.prems(1) this Suc.prems(2)] obtain s1 where
    s1: "load_byte E p s = Ret (m p, s1)" "running E n A a s1" "view E s1 a m" "others_kept E A a s s1"
      "\<forall>x. usable E s1 a x = usable E s a x" by (elim exE conjE)
  let ?u = "putch (m p) s1"
  have tr: "core_st.truncate ?u = core_st.truncate s1" by (simp add: putch_def core_st.truncate_def)
  have "\<forall>i<k. usable E ?u a ((p + 1) + of_nat i)"
  proof (intro allI impI)
    fix i assume "i < k"
    then show "usable E ?u a ((p + 1) + of_nat i)"
      using Suc.prems(3) [rule_format, of "Suc i"] s1(5) by (simp add: running_cong(3) [OF tr] algebra_simps)
  qed
  from Suc.IH [OF running_cong(1) [OF tr, THEN iffD2, OF s1(2)] running_cong(2) [OF tr, THEN iffD2, OF s1(3)] this]
  obtain t where t: "write_loop E (p + 1) k ?u = Ret t"
      "console t = console ?u @ map (\<lambda>i. m ((p + 1) + of_nat i)) [0..<k]" "running E n A a t" "view E t a m"
      "others_kept E A a ?u (io t (console ?u) (con_in ?u))" by (elim exE conjE)
  have c: "console s1 = console s" "con_in s1 = con_in s" using others_kept_con [OF s1(4)] .
  have "io ?u (console s) (con_in s) = s1" using c by (simp add: putch_def)
  with others_kept_io [OF t(5), where c = "console s" and d = "con_in s"]
  have "others_kept E A a s1 (io t (console s) (con_in s))" by simp
  then have "others_kept E A a s (io t (console s) (con_in s))" by (rule others_kept_trans [OF s1(4)])
  moreover have "map (\<lambda>i. m (p + of_nat i)) [0..<Suc k] = m p # map (\<lambda>i. m ((p + 1) + of_nat i)) [0..<k]"
    by (simp add: upt_conv_Cons map_Suc_upt [symmetric] algebra_simps del: upt_Suc)
  then have "console t = console s @ map (\<lambda>i. m (p + of_nat i)) [0..<Suc k]" using t(2) c(1) by (simp add: putch_def)
  ultimately show ?case using s1(1) t(1,3,4) by (intro exI [of _ t]) simp
qed


lemma mem_write_Cons:
  assumes "length bs < 2 ^ 32"
  shows "mem_write p (b # bs) m = mem_write (p + 1) bs (m(p := b))"
proof
  fix x
  show "mem_write p (b # bs) m x = mem_write (p + 1) bs (m(p := b)) x"
  proof (cases "x = p")
    case True
    have "unat (x - (p + 1)) = 2 ^ 32 - 1" unfolding True by (simp add: unsigned_minus_1_eq_mask mask_eq_exp_minus_1)
    then show ?thesis using True assms by (simp add: mem_write_def)
  next
    case False
    then have "x - p \<noteq> 0" by simp
    moreover have "unat (x - (p + 1)) = unat (x - p) - 1"
      using unat_minus_one [OF \<open>x - p \<noteq> 0\<close>] by (simp add: algebra_simps)
    ultimately have "unat (x - p) = Suc (unat (x - (p + 1)))" by (simp add: unat_gt_0)
    then show ?thesis using False by (simp add: mem_write_def)
  qed
qed

text \<open>\<open>read_loop\<close> stores the next characters of the console in the buffer.\<close>

lemma read_loop_ok:
  assumes "running E n A a s" "view E s a m" "\<forall>i<length bs. usable E s a (p + of_nat i)"
    "con_in s = bs @ cs" "\<forall>b\<in>set bs. sint b \<ge> 0" "length bs < 2 ^ 32"
  shows "\<exists>t. read_loop E p i (length bs) s = Ret (None, t) \<and> con_in t = cs \<and>
    running E n A a t \<and> view E t a (mem_write p bs m) \<and> others_kept E A a s (io t (console s) (con_in s))"
  using assms
proof (induction bs arbitrary: s p i m)
  case Nil
  have "others_kept E A a s (io s (console s) (con_in s))" using others_kept_refl by simp
  with Nil show ?case by (intro exI [of _ s] conjI) (simp_all add: mem_write_def del: kern_st.surjective)
next
  case (Cons b bs)
  let ?s0 = "s\<lparr>con_in := bs @ cs\<rparr>"
  have tr: "core_st.truncate ?s0 = core_st.truncate s" by (simp add: core_st.truncate_def)
  note C = running_cong [OF tr]
  have r: "running E n A a ?s0" "view E ?s0 a m" using Cons.prems(1,2) by (simp_all add: C)
  have us: "usable E ?s0 a p" using Cons.prems(3) [rule_format, of 0] by (simp add: C)
  from store_byte_ok [OF r(1) us r(2), of b] obtain s1 where
    s1: "store_bytes E p [b] ?s0 = Ret s1" "running E n A a s1" "view E s1 a (m(p := b))" "others_kept E A a ?s0 s1"
      "\<forall>x. usable E s1 a x = usable E ?s0 a x" by (elim exE conjE)
  have "usable E s1 a p" using s1(5) us by simp
  from load_byte_ok [OF s1(2) this s1(3)] obtain s2 where
    s2: "load_byte E p s1 = Ret (b, s2)" "running E n A a s2" "view E s2 a (m(p := b))" "others_kept E A a s1 s2"
      "\<forall>x. usable E s2 a x = usable E s1 a x" by (auto simp: fun_upd_same)
  have k2: "others_kept E A a ?s0 s2" by (rule others_kept_trans [OF s1(4) s2(4)])
  have c: "console s2 = console s" "con_in s2 = bs @ cs" using others_kept_con [OF k2] by simp_all
  have us2: "\<forall>i<length bs. usable E s2 a ((p + 1) + of_nat i)"
  proof (intro allI impI)
    fix i assume "i < length bs"
    then show "usable E s2 a ((p + 1) + of_nat i)"
      using Cons.prems(3) [rule_format, of "Suc i"] s1(5) s2(5) by (simp add: C algebra_simps)
  qed
  have nn: "\<forall>b\<in>set bs. sint b \<ge> 0" "length bs < 2 ^ 32" using Cons.prems(5,6) by simp_all
  from Cons.IH [OF s2(2,3) us2 c(2) nn, of "i + 1"] obtain t where
    t: "read_loop E (p + 1) (i + 1) (length bs) s2 = Ret (None, t)" "con_in t = cs" "running E n A a t"
      "view E t a (mem_write (p + 1) bs (m(p := b)))" "others_kept E A a s2 (io t (console s2) (con_in s2))"
    by (elim exE conjE)
  have "io ?s0 (console s) (con_in s) = s" by simp
  with others_kept_io [OF others_kept_trans [OF k2 t(5)], where c = "console s" and d = "con_in s"]
  have "others_kept E A a s (io t (console s) (con_in s))" by simp
  then show ?case
    using Cons.prems(4,5) s1(1) s2(1) t(1-4) mem_write_Cons [OF nn(2), of p b m]
    by (intro exI [of _ t]) simp
qed

section \<open>The system calls\<close>

lemma others_kept_spl: "others_kept E A a s (io t c d) \<Longrightarrow> spl_ok t = spl_ok s"
  by (simp add: others_kept_def same_rest_def spl_ok_def)

lemma nat_sint: "sz < 0x80000000 \<Longrightarrow> nat (sint (sz :: w32)) = unat sz \<and> sint sz \<ge> 0"
proof -
  assume "sz < 0x80000000"
  then have "uint sz < 2 ^ 31" by (simp add: word_less_def)
  moreover have "0 \<le> uint sz" by simp
  ultimately have "signed_take_bit 31 (uint sz) = uint sz" by (intro signed_take_bit_int_eq_self) linarith+
  then have "sint sz = uint sz" by (simp add: sint_uint)
  then show ?thesis by simp
qed

lemma of_int_sint [simp]: "of_int (sint (w :: w32)) = w"
  by simp

lemma syscall_writes:
  assumes no: "sysno_of E (tf_v0 tf) = Some SYS_write" and fd: "tf_a0 tf \<in> {1, 2}" and spl: "spl_ok s"
    and R: "running E n A a s" "view E s a m" and sz: "tf_a2 tf < 0x80000000"
    and us: "\<forall>i<unat (tf_a2 tf). usable E s a (tf_a1 tf + of_nat i)"
  shows "\<exists>t. syscall X E tf s = Ret (Some (tf\<lparr>tf_v0 := tf_a2 tf, tf_a3 := 0, tf_epc := tf_epc tf + 4\<rparr>), t) \<and>
    console t = console s @ map (\<lambda>i. m (tf_a1 tf + of_nat i)) [0..<unat (tf_a2 tf)] \<and>
    running E n A a t \<and> view E t a m \<and> others_kept E A a s (io t (console s) (con_in s))"
proof -
  from write_loop_ok [OF R us] obtain t where t: "write_loop E (tf_a1 tf) (unat (tf_a2 tf)) s = Ret t"
    "console t = console s @ map (\<lambda>i. m (tf_a1 tf + of_nat i)) [0..<unat (tf_a2 tf)]"
    "running E n A a t" "view E t a m" "others_kept E A a s (io t (console s) (con_in s))" by (elim exE conjE)
  have f: "sint (tf_a0 tf) = 1 \<or> sint (tf_a0 tf) = 2" using fd by auto
  have "sys_write X E (sint (tf_a0 tf)) (tf_a1 tf) (tf_a2 tf) s = Ret (sint (tf_a2 tf), t)"
    using f nat_sint [OF sz] t(1) by (auto simp: sys_write_def STDOUT_FILENO_def STDERR_FILENO_def)
  then show ?thesis
    using no spl nat_sint [OF sz] others_kept_spl [OF t(5)] t(2-5)
    by (intro exI [of _ t]) (simp add: syscall_def syscall_handler_def neg_err_def)
qed

lemma syscall_reads:
  assumes no: "sysno_of E (tf_v0 tf) = Some SYS_read" and fd: "tf_a0 tf = 0" and spl: "spl_ok s"
    and R: "running E n A a s" "view E s a m" and sz: "tf_a2 tf < 0x80000000" "unat (tf_a2 tf) = length bs"
    and us: "\<forall>i<unat (tf_a2 tf). usable E s a (tf_a1 tf + of_nat i)"
    and c: "con_in s = bs @ cs" "\<forall>b\<in>set bs. sint b \<ge> 0"
  shows "\<exists>t. syscall X E tf s = Ret (Some (tf\<lparr>tf_v0 := tf_a2 tf, tf_a3 := 0, tf_epc := tf_epc tf + 4\<rparr>), t) \<and>
    con_in t = cs \<and> running E n A a t \<and> view E t a (mem_write (tf_a1 tf) bs m) \<and>
    others_kept E A a s (io t (console s) (con_in s))"
proof -
  have "unat (tf_a2 tf) < 2 ^ LENGTH(32)" by (rule unsigned_less)
  then have l: "length bs < 2 ^ 32" using sz(2) by simp
  from read_loop_ok [OF R us [unfolded sz(2)] c l, of 0] obtain t where
    t: "read_loop E (tf_a1 tf) 0 (length bs) s = Ret (None, t)" "con_in t = cs" "running E n A a t"
      "view E t a (mem_write (tf_a1 tf) bs m)" "others_kept E A a s (io t (console s) (con_in s))" by (elim exE conjE)
  have "sys_read X E (sint (tf_a0 tf)) (tf_a1 tf) (tf_a2 tf) s = Ret (sint (tf_a2 tf), t)"
    using fd nat_sint [OF sz(1)] sz(2) t(1) by (simp add: sys_read_def STDIN_FILENO_def)
  then show ?thesis
    using no spl nat_sint [OF sz(1)] others_kept_spl [OF t(5)] t(2-5)
    by (intro exI [of _ t]) (simp add: syscall_def syscall_handler_def neg_err_def)
qed

section \<open>Kernel addresses\<close>

text \<open>
  The console calls use the pointer as it is. An address in the direct mapped segment does not fault: it
  reaches physical memory, which holds the kernel and the pages of all processes.
\<close>

lemma kseg0_access:
  assumes "i < k" "0x80000000 \<le> unat p" "unat p + k \<le> 0xA0000000"
  shows "\<not> p + of_nat i < MIPS_KSEG0" "p + of_nat i < MIPS_KSEG1"
proof -
  have "p + of_nat i = of_nat (unat p + i)" by simp
  moreover have "unat p + i < 2 ^ 32" using assms by simp
  ultimately have "unat (p + of_nat i) = unat p + i" by (simp only: unat_of_nat) simp
  then show "\<not> p + of_nat i < MIPS_KSEG0" "p + of_nat i < MIPS_KSEG1"
    using assms by (simp_all add: word_less_nat_alt MIPS_KSEG0_def MIPS_KSEG1_def)
qed

lemma write_loop_kernel:
  assumes "0x80000000 \<le> unat p" "unat p + k \<le> 0xA0000000"
  shows "write_loop E p k s = Ret (s\<lparr>console := console s @ map (\<lambda>i. physmem s (p - MIPS_KSEG0 + of_nat i)) [0..<k]\<rparr>)"
  using assms
proof (induction k arbitrary: s p)
  case (Suc k)
  have "load_byte E p s = Ret (physmem s (p - MIPS_KSEG0), s)"
    using kseg0_access [of 0 "Suc k" p] Suc.prems by (simp add: load_byte_def kern_access_def)
  moreover have "write_loop E (p + 1) k (putch (physmem s (p - MIPS_KSEG0)) s) = Ret (s\<lparr>console := console s @
      physmem s (p - MIPS_KSEG0) # map (\<lambda>i. physmem s (p + 1 - MIPS_KSEG0 + of_nat i)) [0..<k]\<rparr>)"
  proof (cases "k = 0")
    case False
    then have "unat (p + 1) = unat p + 1" using Suc.prems by (simp add: unat_word_ariths)
    then show ?thesis using Suc.IH [of "p + 1"] Suc.prems by (simp add: putch_def)
  qed (simp add: putch_def)
  moreover have "map (\<lambda>i. physmem s (p - MIPS_KSEG0 + of_nat i)) [0..<Suc k] =
      physmem s (p - MIPS_KSEG0) # map (\<lambda>i. physmem s (p + 1 - MIPS_KSEG0 + of_nat i)) [0..<k]"
    by (simp add: upt_conv_Cons map_Suc_upt [symmetric] algebra_simps del: upt_Suc)
  ultimately show ?case by simp
qed simp

lemma read_loop_kernel:
  assumes "0x80000000 \<le> unat p" "unat p + length bs \<le> 0xA0000000" "con_in s = bs @ cs" "\<forall>b\<in>set bs. sint b \<ge> 0"
  shows "read_loop E p i (length bs) s = Ret (None, s\<lparr>con_in := cs, physmem := mem_write (p - MIPS_KSEG0) bs (physmem s)\<rparr>)"
  using assms
proof (induction bs arbitrary: s p i)
  case Nil
  then show ?case by (simp add: mem_write_def)
next
  case (Cons b bs)
  let ?q = "p - MIPS_KSEG0"
  let ?s1 = "s\<lparr>con_in := bs @ cs, physmem := mem_write ?q [b] (physmem s)\<rparr>"
  have A: "\<not> p < MIPS_KSEG0" "p < MIPS_KSEG1" using kseg0_access [of 0 "length (b # bs)" p] Cons.prems by simp_all
  have w: "mem_write ?q [b] (physmem s) = (physmem s)(?q := b)" by (auto simp: mem_write_def fun_eq_iff unat_eq_zero)
  have l: "length bs < 2 ^ 32" using Cons.prems(1,2) by simp
  have IH: "read_loop E (p + 1) (i + 1) (length bs) ?s1 =
      Ret (None, ?s1\<lparr>con_in := cs, physmem := mem_write (p + 1 - MIPS_KSEG0) bs (physmem ?s1)\<rparr>)"
  proof (cases "bs = []")
    case True
    then show ?thesis by (simp add: mem_write_def)
  next
    case False
    then have "unat (p + 1) = unat p + 1" using Cons.prems by (simp add: unat_word_ariths Suc_le_eq)
    then show ?thesis using Cons.IH [of "p + 1" ?s1 "i + 1"] Cons.prems by simp
  qed
  have "mem_write (p + 1 - MIPS_KSEG0) bs (mem_write ?q [b] (physmem s)) = mem_write ?q (b # bs) (physmem s)"
    unfolding w mem_write_Cons [OF l] by (simp add: algebra_simps)
  then show ?case
    using IH A Cons.prems(3,4) w by (simp add: store_bytes_def load_byte_def kern_access_def)
qed

end
