(* ===== verification/Args_Layout.thy ===== *)
theory Args_Layout
  imports Syscall_Correct
begin


text \<open>
  The arguments of a program (\<open>kern/syscall/runprogram.c\<close>): the two loops of \<open>runprogramWithArgs\<close> lay them out on
  the user stack as the C run time of the program expects them.
\<close>

section \<open>Blocks of bytes at natural number addresses\<close>

lemma unat_of_nat32: "x < 2 ^ 32 \<Longrightarrow> unat (of_nat x :: w32) = x"
  by (simp add: unat_of_nat)

lemma mem_write_nat:
  assumes "p + length bs \<le> 2 ^ 32" "q < 2 ^ 32" "p < 2 ^ 32"
  shows "mem_write (of_nat p) bs m (of_nat q) = (if p \<le> q \<and> q < p + length bs then bs ! (q - p) else m (of_nat q))"
proof (cases "p \<le> q")
  case True
  then have "(of_nat q - of_nat p :: w32) = of_nat (q - p)" by simp
  moreover have "unat (of_nat (q - p) :: w32) = q - p" using assms(2) by (intro unat_of_nat32) simp
  ultimately have "unat (of_nat q - of_nat p :: w32) = q - p" by simp
  then show ?thesis using True by (auto simp: mem_write_def)
next
  case False
  then have "(of_nat q - of_nat p :: w32) = of_nat (2 ^ 32 + q - p)" using assms(3) by (simp add: of_nat_diff)
  moreover have "unat (of_nat (2 ^ 32 + q - p) :: w32) = 2 ^ 32 + q - p" using False assms by (intro unat_of_nat32) simp
  ultimately have "unat (of_nat q - of_nat p :: w32) = 2 ^ 32 + q - p" by simp
  moreover have "\<not> 2 ^ 32 + q - p < length bs" using assms(1) by linarith
  ultimately show ?thesis using False by (simp add: mem_write_def)
qed

text \<open>\<open>bytes_at m p bs\<close>: the bytes \<open>bs\<close> are in memory from address \<open>p\<close> on.\<close>

definition bytes_at :: "(vaddr_t \<Rightarrow> byte) \<Rightarrow> nat \<Rightarrow> byte list \<Rightarrow> bool" where
  "bytes_at m p bs \<longleftrightarrow> (\<forall>k<length bs. m (of_nat (p + k)) = bs ! k)"

text \<open>\<open>kept_from p m m1\<close>: nothing at or above address \<open>p\<close> has changed.\<close>

definition kept_from :: "nat \<Rightarrow> (vaddr_t \<Rightarrow> byte) \<Rightarrow> (vaddr_t \<Rightarrow> byte) \<Rightarrow> bool" where
  "kept_from p m m1 \<longleftrightarrow> (\<forall>q. p \<le> q \<longrightarrow> q < 2 ^ 32 \<longrightarrow> m1 (of_nat q) = m (of_nat q))"

lemma kept_from_refl: "kept_from p m m"
  by (simp add: kept_from_def)

lemma kept_from_trans: "kept_from p m m1 \<Longrightarrow> kept_from q m1 m2 \<Longrightarrow> p \<le> r \<Longrightarrow> q \<le> r \<Longrightarrow> kept_from r m m2"
  by (simp add: kept_from_def)

lemma bytes_at_kept: "bytes_at m p bs \<Longrightarrow> kept_from q m m1 \<Longrightarrow> q \<le> p \<Longrightarrow> p + length bs \<le> 2 ^ 32 \<Longrightarrow> bytes_at m1 p bs"
  by (simp add: bytes_at_def kept_from_def del: of_nat_add)

lemma mem_write_bytes:
  assumes "p + length bs \<le> 2 ^ 32" "p < 2 ^ 32"
  shows "bytes_at (mem_write (of_nat p) bs m) p bs" "p + length bs \<le> q \<Longrightarrow> kept_from q m (mem_write (of_nat p) bs m)"
  using assms by (auto simp: bytes_at_def kept_from_def mem_write_nat simp del: of_nat_add)

section \<open>Where the arguments go\<close>

definition arg_room :: "string \<Rightarrow> nat" where
  "arg_room str = (length str + 4) div 4 * 4"

definition arg_addr :: "vaddr_t \<Rightarrow> string list \<Rightarrow> nat \<Rightarrow> nat" where
  "arg_addr sp args j = unat sp - sum_list (map arg_room (drop j args))"

definition args_size :: "string list \<Rightarrow> nat" where
  "args_size args = sum_list (map arg_room args) + 4 * (length args + 1)"

text \<open>The address of \<open>argv[j]\<close>, and the pointer there.\<close>

definition argv_addr :: "vaddr_t \<Rightarrow> string list \<Rightarrow> nat \<Rightarrow> nat" where
  "argv_addr sp args j = unat sp - args_size args + 4 * j"

definition arg_ptr :: "vaddr_t \<Rightarrow> string list \<Rightarrow> nat \<Rightarrow> vaddr_t" where
  "arg_ptr sp args j = (if j < length args then of_nat (arg_addr sp args j) else 0)"

lemma cstr_room: "length (cstr str) \<le> arg_room str" "4 dvd arg_room str"
  by (simp_all add: cstr_def arg_room_def)

lemma sum_drop: "sum_list (map f (drop j xs)) \<le> sum_list (map (f :: _ \<Rightarrow> nat) xs)"
  by (metis append_take_drop_id map_append sum_list_append le_add2)

lemma arg_addr_step:
  assumes "j < length args" "args_size args \<le> unat sp"
  shows "arg_addr sp args (Suc j) = arg_addr sp args j + arg_room (args ! j)"
    "arg_addr sp args (Suc j) \<le> unat sp" "unat sp - sum_list (map arg_room args) \<le> arg_addr sp args j"
proof -
  have d: "drop j args = args ! j # drop (Suc j) args" using assms(1) by (simp add: Cons_nth_drop_Suc)
  have "sum_list (map arg_room (drop j args)) \<le> unat sp"
    using sum_drop [of arg_room j args] assms(2) by (simp add: args_size_def)
  then show "arg_addr sp args (Suc j) = arg_addr sp args j + arg_room (args ! j)"
    unfolding arg_addr_def d by simp
  show "arg_addr sp args (Suc j) \<le> unat sp" "unat sp - sum_list (map arg_room args) \<le> arg_addr sp args j"
    using sum_drop [of arg_room j args] by (simp_all add: arg_addr_def diff_le_mono2)
qed

lemma ROUNDUP_room:
  assumes "arg_room str < 2 ^ 32"
  shows "of_nat (length str) + 1 \<noteq> (0 :: w32)" "ROUNDUP (of_nat (length str) + 1) 4 = of_nat (arg_room str)"
proof -
  have "(length str + 4) div 4 < 2 ^ 30" using assms unfolding arg_room_def by simp
  then have l: "length str + 4 < 2 ^ 32" by simp
  have "unat (of_nat (length str + 1) :: w32) = length str + 1" using l by (intro unat_of_nat32) simp
  then show "of_nat (length str) + 1 \<noteq> (0 :: w32)" by (metis Suc_eq_plus1 nat.distinct(1) of_nat_Suc add.commute unat_0)
  have u: "unat (of_nat (length str + 4) :: w32) = length str + 4" using l by (intro unat_of_nat32) simp
  have "of_nat (length str) + 1 + 4 - 1 = (of_nat (length str + 4) :: w32)" by simp
  then have "ROUNDUP (of_nat (length str) + 1) 4 = of_nat (length str + 4) div 4 * (4 :: w32)" by (simp add: ROUNDUP_def add.commute)
  also have "of_nat (length str + 4) div (4 :: w32) = of_nat ((length str + 4) div 4)"
  proof -
    have "unat (of_nat (length str + 4) div (4 :: w32)) = (length str + 4) div 4" using u by (simp add: unat_div)
    then have "of_nat (unat (of_nat (length str + 4) div (4 :: w32))) = (of_nat ((length str + 4) div 4) :: w32)" by simp
    then show ?thesis by (simp only: of_nat_unat ucast_id)
  qed
  finally show "ROUNDUP (of_nat (length str) + 1) 4 = of_nat (arg_room str)" by (simp add: arg_room_def)
qed


section \<open>The loops that copy the arguments\<close>

text \<open>
  \<open>copies cpo Q W\<close>: what the loops need of \<open>copyout\<close>. In a state whose user memory is \<open>m\<close>, it stores a block at
  addresses of \<open>W\<close> and succeeds.
\<close>

definition copies ::
  "(byte list \<Rightarrow> vaddr_t \<Rightarrow> 's \<Rightarrow> (kerr \<times> 's) kres) \<Rightarrow> ((vaddr_t \<Rightarrow> byte) \<Rightarrow> 's \<Rightarrow> bool) \<Rightarrow> vaddr_t set \<Rightarrow> bool" where
  "copies cpo Q W \<longleftrightarrow> (\<forall>bs va m s. Q m s \<longrightarrow> (\<forall>k<length bs. va + of_nat k \<in> W) \<longrightarrow> length bs < 2 ^ 32 \<longrightarrow>
     (\<exists>t. cpo bs va s = Ret (None, t) \<and> Q (mem_write va bs m) t))"

definition stack_free :: "vaddr_t set \<Rightarrow> nat \<Rightarrow> nat \<Rightarrow> bool" where
  "stack_free W lo hi \<longleftrightarrow> (\<forall>x. lo \<le> x \<longrightarrow> x < hi \<longrightarrow> of_nat x \<in> W)"

text \<open>One copy at a natural number address.\<close>

lemma copies_at:
  assumes "copies cpo Q W" "Q m s" "stack_free W lo hi" "lo \<le> p" "p + length bs \<le> hi" "hi < 2 ^ 32"
  shows "\<exists>t m1. cpo bs (of_nat p) s = Ret (None, t) \<and> Q m1 t \<and> bytes_at m1 p bs \<and>
    (\<forall>q. p + length bs \<le> q \<longrightarrow> kept_from q m m1)"
proof -
  have "\<forall>k<length bs. of_nat p + of_nat k \<in> W"
  proof (intro allI impI)
    fix k assume "k < length bs"
    then have "of_nat (p + k) \<in> W" using assms(3-5) by (simp add: stack_free_def del: of_nat_add)
    then show "of_nat p + of_nat k \<in> W" by simp
  qed
  moreover have "length bs < 2 ^ 32" using assms(5,6) by linarith
  ultimately obtain t where t: "cpo bs (of_nat p) s = Ret (None, t)" "Q (mem_write (of_nat p) bs m) t"
    using assms(1,2) unfolding copies_def by blast
  have "p + length bs \<le> 2 ^ 32" "p < 2 ^ 32" using assms(5,6) by linarith+
  from mem_write_bytes [OF this] show ?thesis using t by blast
qed

lemma push_strings_ok:
  assumes law: "copies cpo Q W" "stack_free W (unat sp - args_size args) (unat sp)"
    and fits: "args_size args \<le> unat sp"
  shows "i \<le> length args \<Longrightarrow> Q m s \<Longrightarrow> length addrs = length args + 1 \<Longrightarrow>
    (\<forall>j. i \<le> j \<and> j < length args \<longrightarrow> addrs ! j = Some (arg_ptr sp args j) \<and> bytes_at m (arg_addr sp args j) (cstr (args ! j))) \<Longrightarrow>
    \<exists>t m1 as. push_strings cpo (map Some args) i (of_nat (arg_addr sp args i)) addrs s =
        Ret (None, of_nat (arg_addr sp args 0), as, t) \<and> Q m1 t \<and> length as = length args + 1 \<and>
      (\<forall>j<length args. as ! j = Some (arg_ptr sp args j) \<and> bytes_at m1 (arg_addr sp args j) (cstr (args ! j))) \<and>
      kept_from (unat sp) m m1"
proof (induction i arbitrary: m s addrs)
  case 0
  then show ?case using kept_from_refl by (intro exI [of _ s] exI [of _ m] exI [of _ addrs]) simp
next
  case (Suc i)
  let ?str = "args ! i" and ?p = "arg_addr sp args i"
  have i: "i < length args" using Suc.prems(1) by simp
  note A = arg_addr_step [OF i fits]
  have sp: "unat sp < 2 ^ 32" using unsigned_less [of sp] by simp
  have room: "arg_room ?str < 2 ^ 32" using A(1,2) sp by linarith
  have fit: "?p + length (cstr ?str) \<le> arg_addr sp args (Suc i)" using A(1) cstr_room(1) [of ?str] by simp
  have lo: "unat sp - args_size args \<le> ?p" using A(3) by (simp add: args_size_def)
  from copies_at [OF law(1) Suc.prems(2) law(2) lo _ sp, of "cstr ?str"] fit A(2)
  obtain t m1 where t: "cpo (cstr ?str) (of_nat ?p) s = Ret (None, t)" "Q m1 t" "bytes_at m1 ?p (cstr ?str)"
    "\<forall>q. ?p + length (cstr ?str) \<le> q \<longrightarrow> kept_from q m m1" by auto
  have k: "kept_from (arg_addr sp args (Suc i)) m m1" "kept_from (unat sp) m m1" using t(4) fit A(2) by simp_all
  have inv: "\<forall>j. i \<le> j \<and> j < length args \<longrightarrow> (addrs[i := Some (of_nat ?p)]) ! j = Some (arg_ptr sp args j) \<and>
      bytes_at m1 (arg_addr sp args j) (cstr (args ! j))"
  proof (intro allI impI, elim conjE)
    fix j assume j: "i \<le> j" "j < length args"
    show "(addrs[i := Some (of_nat ?p)]) ! j = Some (arg_ptr sp args j) \<and> bytes_at m1 (arg_addr sp args j) (cstr (args ! j))"
    proof (cases "j = i")
      case True
      then show ?thesis using t(3) Suc.prems(3) i by (simp add: arg_ptr_def)
    next
      case False
      then have j1: "Suc i \<le> j" using j(1) by simp
      have "arg_addr sp args (Suc i) \<le> arg_addr sp args j"
        using sum_drop [of arg_room "j - Suc i" "drop (Suc i) args"] j1 by (simp add: arg_addr_def diff_le_mono2)
      moreover have "arg_addr sp args j + length (cstr (args ! j)) \<le> 2 ^ 32"
        using arg_addr_step(1,2) [OF j(2) fits] cstr_room(1) [of "args ! j"] sp by linarith
      ultimately show ?thesis
        using Suc.prems(4) j1 j(2) False bytes_at_kept [OF _ k(1)] by simp
    qed
  qed
  from Suc.IH [OF _ t(2) _ inv] i Suc.prems(3) obtain t1 m2 as where
    r: "push_strings cpo (map Some args) i (of_nat ?p) (addrs[i := Some (of_nat ?p)]) t =
        Ret (None, of_nat (arg_addr sp args 0), as, t1)" "Q m2 t1" "length as = length args + 1"
      "\<forall>j<length args. as ! j = Some (arg_ptr sp args j) \<and> bytes_at m2 (arg_addr sp args j) (cstr (args ! j))"
      "kept_from (unat sp) m1 m2" by (auto simp del: of_nat_diff)
  have "of_nat (arg_addr sp args (Suc i)) - of_nat (arg_room ?str) = (of_nat ?p :: w32)" using A(1) by simp
  then have "push_strings cpo (map Some args) (Suc i) (of_nat (arg_addr sp args (Suc i))) addrs s =
      Ret (None, of_nat (arg_addr sp args 0), as, t1)"
    using i t(1) r(1) ROUNDUP_room [OF room] by (simp add: Let_def)
  moreover have "kept_from (unat sp) m m2" using kept_from_trans [OF k(2) r(5)] by simp
  ultimately show ?case using r(2-4) by blast
qed

lemma length_be32 [simp]: "length (be32 w) = 4"
  by (simp add: be32_def)

lemma push_pointers_ok:
  assumes law: "copies cpo Q W" "stack_free W (unat sp - args_size args) (unat sp)"
    and fits: "args_size args \<le> unat sp"
    and as: "length as = length args + 1" "\<forall>j\<le>length args. as ! j = Some (arg_ptr sp args j)"
  shows "i \<le> length args + 1 \<Longrightarrow> Q m s \<Longrightarrow>
    (\<forall>j. i \<le> j \<and> j \<le> length args \<longrightarrow> bytes_at m (argv_addr sp args j) (be32 (arg_ptr sp args j))) \<Longrightarrow>
    \<exists>t m1. push_pointers cpo as i (of_nat (argv_addr sp args i)) s = Ret (None, of_nat (argv_addr sp args 0), t) \<and>
      Q m1 t \<and> (\<forall>j\<le>length args. bytes_at m1 (argv_addr sp args j) (be32 (arg_ptr sp args j))) \<and>
      kept_from (argv_addr sp args (length args + 1)) m m1"
proof (induction i arbitrary: m s)
  case 0
  then show ?case using kept_from_refl by (intro exI [of _ s] exI [of _ m]) simp
next
  case (Suc i)
  let ?p = "argv_addr sp args i"
  have i: "i \<le> length args" using Suc.prems(1) by simp
  have sp: "unat sp < 2 ^ 32" using unsigned_less [of sp] by simp
  have top: "argv_addr sp args (length args + 1) \<le> unat sp" using fits by (simp add: argv_addr_def args_size_def)
  have step: "argv_addr sp args (Suc j) = argv_addr sp args j + 4" for j by (simp add: argv_addr_def)
  have mono: "argv_addr sp args j \<le> argv_addr sp args k" if "j \<le> k" for j k using that by (simp add: argv_addr_def)
  have fit: "?p + length (be32 (arg_ptr sp args i)) \<le> unat sp"
    using top mono [of "Suc i" "length args + 1"] i step [of i] by simp
  have lo: "unat sp - args_size args \<le> ?p" by (simp add: argv_addr_def)
  from copies_at [OF law(1) Suc.prems(2) law(2) lo fit sp]
  obtain t m1 where t: "cpo (be32 (arg_ptr sp args i)) (of_nat ?p) s = Ret (None, t)" "Q m1 t"
    "bytes_at m1 ?p (be32 (arg_ptr sp args i))" "\<forall>q. ?p + 4 \<le> q \<longrightarrow> kept_from q m m1" by auto
  have k: "kept_from (argv_addr sp args (Suc i)) m m1" using t(4) step by simp
  have inv: "\<forall>j. i \<le> j \<and> j \<le> length args \<longrightarrow> bytes_at m1 (argv_addr sp args j) (be32 (arg_ptr sp args j))"
  proof (intro allI impI, elim conjE)
    fix j assume j: "i \<le> j" "j \<le> length args"
    show "bytes_at m1 (argv_addr sp args j) (be32 (arg_ptr sp args j))"
    proof (cases "j = i")
      case True
      then show ?thesis using t(3) by simp
    next
      case False
      then have "argv_addr sp args j + 4 \<le> unat sp" using top mono [of "Suc j" "length args + 1"] j(2) step [of j] by simp
      then show ?thesis
        using Suc.prems(3) False j mono [of "Suc i" j] sp bytes_at_kept [OF _ k, of "argv_addr sp args j" "be32 (arg_ptr sp args j)"]
        by simp
    qed
  qed
  from Suc.IH [OF _ t(2) inv] i obtain t1 m2 where
    r: "push_pointers cpo as i (of_nat ?p) t = Ret (None, of_nat (argv_addr sp args 0), t1)" "Q m2 t1"
      "\<forall>j\<le>length args. bytes_at m2 (argv_addr sp args j) (be32 (arg_ptr sp args j))"
      "kept_from (argv_addr sp args (length args + 1)) m1 m2" by auto
  have "of_nat (argv_addr sp args (Suc i)) - 4 = (of_nat ?p :: w32)" using step by simp
  then have "push_pointers cpo as (Suc i) (of_nat (argv_addr sp args (Suc i))) s = Ret (None, of_nat (argv_addr sp args 0), t1)"
    using i as(2) t(1) r(1) by simp
  moreover have "kept_from (argv_addr sp args (length args + 1)) m m2"
    using kept_from_trans [OF k r(4), of "argv_addr sp args (length args + 1)"] mono [of "Suc i" "length args + 1"] i by simp
  ultimately show ?case using r(2,3) by blast
qed

end
