(* ===== verification/Proc_Correct.thy ===== *)
theory Proc_Correct
  imports Kern_Menu
begin


text \<open>
  The life of a process: \<open>_exit\<close> in the child and \<open>waitpid\<close> in the parent, from the end of the child's
  thread over the context switch to the release of everything the child had.
\<close>

section \<open>The invariant of the VM system in another thread\<close>

text \<open>\<open>same_store s t\<close>: the states agree on the memory, the swap file, the address spaces and the frames.\<close>

definition same_store ::
  "('h, 'd, 'b, 'a) core_st_scheme \<Rightarrow> ('h, 'd, 'b, 'a) core_st_scheme \<Rightarrow> bool" where
  "same_store s t \<longleftrightarrow> physmem t = physmem s \<and> disk t = disk s \<and> swapFile t = swapFile s \<and>
     swapFileSize t = swapFileSize s \<and> swapMap t = swapMap s \<and> swap_lock t = swap_lock s \<and> used t = used s \<and>
     aspaces t = aspaces s \<and> coremap t = coremap s \<and> coremapSize t = coremapSize s \<and>
     coremapActive t = coremapActive s \<and> next_svic t = next_svic s \<and> firstpaddr t = firstpaddr s"

lemma same_storeD:
  assumes "same_store s t"
  shows "slot_bytes E t = slot_bytes E s" "free_frames t = free_frames s" "frame_addr t = frame_addr s"
    "core_ok t = core_ok s" "content E t b j = content E s b j" "aspaces t = aspaces s"
    "coremap t = coremap s" "coremapSize t = coremapSize s" "firstpaddr t = firstpaddr s"
proof -
  show sb: "slot_bytes E t = slot_bytes E s"
    using assms by (simp add: same_store_def slot_bytes_def slot_data_def fun_eq_iff)
  show "free_frames t = free_frames s" "frame_addr t = frame_addr s" "core_ok t = core_ok s"
    by (rule core_map_cong; use assms in \<open>simp add: same_store_def\<close>)+
  show "content E t b j = content E s b j" using assms sb by (simp add: content_def same_store_def)
qed (use assms in \<open>simp_all add: same_store_def\<close>)

lemma vm_inv_other_thread:
  assumes st: "same_store s t" and inv: "vm_inv E n A s" and t: "can_lock t" "stats_ok t" "tlb_wf E t"
    and co: "\<And>a. a \<in> A \<Longrightarrow> proc_getas t = Some a \<Longrightarrow> coherent (tlb_lookup E t) (ptabs t a)"
  shows "vm_inv E n A t"
proof -
  note D = vm_invD [OF inv] and S = same_storeD [OF st]
  have "swap_ok E n t"
    using D(5) st t(1) by (simp add: swap_inv_def swap_ok_def same_store_def swap_slots_def can_lock_def)
  then have "swap_inv E n t"
    using D(5) st by (simp add: swap_inv_def same_store_def slot_data_def)
  then show ?thesis using D t co unfolding vm_invH_def S by simp
qed

text \<open>The special cases of changes to the processes, and to the table of pids and the heap.\<close>

lemma vm_inv_procs:
  assumes inv: "vm_inv E n A s" and pg: "proc_getas (s\<lparr>procs := P\<rparr>) = proc_getas s"
  shows "vm_inv E n A (s\<lparr>procs := P\<rparr>)" (is "vm_inv E n A ?t")
proof (rule vm_inv_other_thread [OF _ inv])
  note D = vm_invD [OF inv]
  show "same_store s ?t" by (simp add: same_store_def)
  show "can_lock ?t" "stats_ok ?t"
    using D(3,4) by (simp_all add: stats_ok_def can_lock_def cur_cpu_def in_interrupt_def sched_ok_def)
  have w: "tlb_wf E ?t = tlb_wf E s" "tlb_lookup E ?t = tlb_lookup E s" by (rule tlb_cong; simp)+
  then show "tlb_wf E ?t" using D(2) by simp
  show "coherent (tlb_lookup E ?t) (ptabs ?t a)" if "a \<in> A" "proc_getas ?t = Some a" for a
    using D(11) [OF that(1)] that(2) pg w(2) by simp
qed

lemma vm_inv_ptab:
  assumes inv: "vm_inv E n A s"
  shows "vm_inv E n A (s\<lparr>ptab_proc := tb, kheap := k\<rparr>)" (is "vm_inv E n A ?t")
proof (rule vm_inv_other_thread [OF _ inv])
  note D = vm_invD [OF inv]
  show "same_store s ?t" by (simp add: same_store_def)
  show "can_lock ?t" "stats_ok ?t"
    using D(3,4) by (simp_all add: stats_ok_def can_lock_def cur_cpu_def in_interrupt_def sched_ok_def)
  have w: "tlb_wf E ?t = tlb_wf E s" "tlb_lookup E ?t = tlb_lookup E s" by (rule tlb_cong; simp)+
  then show "tlb_wf E ?t" using D(2) by simp
  show "coherent (tlb_lookup E ?t) (ptabs ?t a)" if "a \<in> A" "proc_getas ?t = Some a" for a
    using D(11) [OF that(1)] that(2) w(2) by (simp add: proc_getas_def curproc_def split: option.splits)
qed

section \<open>Waiting for a process that has ended\<close>

lemma sem_destroy_eq: "wc_threads (sem_wchan sem) = [] \<Longrightarrow> sem_destroy sem s = Ret (s\<lparr>kheap := kheap s - 3\<rparr>)"
  by (simp add: sem_destroy_def wchan_destroy_def kfree_def)

lemma proc_wait_ok:
  assumes inv: "vm_inv E n A s" and a: "a \<in> A" "p_addrspace (procs s p) = Some a" and cl: "close_laws E"
    and pt: "pt_at s a f k" and p: "p_numthreads (procs s p) = 0" "kproc s \<noteq> Some p" "curproc s \<noteq> Some p"
    and pid: "0 < p_pid (procs s p)" "p_pid (procs s p) \<le> MAX_PROC"
    and sem: "p_sem (procs s p) = Some sem" "sem_count sem \<noteq> 0" "wc_threads (sem_wchan sem) = []"
  shows "\<exists>t. proc_wait E p s = Ret (p_status (procs s p), t) \<and> vm_inv E n (A - {a}) t \<and>
    free_frames t = free_frames s \<union> {f..<f + k} \<union> {i. i < coremapSize s \<and> owner s i = Some a} \<and>
    slot_bytes E t = slot_bytes E s |` (- swapped_slots (ptabs s a) 0) \<and>
    (\<forall>b\<in>A - {a}. ptabs t b = ptabs s b \<and> (\<forall>j<length (ptabs s b). content E t b j = content E s b j)) \<and>
    ptab_proc t = (ptab_proc s)[p_pid (procs s p) := None] \<and> proc_getas t = proc_getas s"
proof -
  let ?sem1 = "sem\<lparr>sem_count := sem_count sem - 1\<rparr>" and ?i = "p_pid (procs s p)"
  have ni: "\<not> in_interrupt s" using vm_invD(4) [OF inv] by (simp add: can_lock_def)
  have P: "sem_P s sem = Ret ?sem1" using ni sem(2) by (simp add: sem_P_def word_gt_0 Let_def)
  define pr where "pr = (if p_cwd (procs s p) \<noteq> None then (procs s p)\<lparr>p_sem := Some ?sem1, p_cwd := None\<rparr>
      else (procs s p)\<lparr>p_sem := Some ?sem1\<rparr>)\<lparr>p_addrspace := None\<rparr>"
  define s2 where "s2 = s\<lparr>procs := (procs s)(p := pr)\<rparr>"
  have pg: "proc_getas s2 = proc_getas s" "proc_getas (s\<lparr>procs := (procs s)(p := pr)\<rparr>) = proc_getas s"
    using p(3) by (auto simp: s2_def proc_getas_def curproc_def split: option.splits)
  have i2: "vm_inv E n A s2" unfolding s2_def by (rule vm_inv_procs [OF inv pg(2)])
  have st: "same_store s s2" by (simp add: same_store_def s2_def)
  note S = same_storeD [OF st]
  have pt2: "pt_at s2 a f k" using pt unfolding pt_at_def S .
  from as_destroy_eq [OF i2 a(1) cl pt2] obtain sw us h where
    d: "as_destroy E a s2 = Ret (s2\<lparr>disk := vfs_close E (as_v (aspaces s2 a)) (disk s2), kheap := h,
      swapMap := sw, used := us, coremap := drop_owner a (give_run f k (coremap s2))\<rparr>)" (is "_ = Ret ?t2")
    by (elim exE conjE) (rule that)
  from as_destroy_ok [OF i2 a(1) cl pt2] d have D: "vm_inv E n (A - {a}) ?t2"
    "free_frames ?t2 = free_frames s \<union> {f..<f + k} \<union> {i. i < coremapSize s \<and> owner s i = Some a}"
    "slot_bytes E ?t2 = slot_bytes E s |` (- swapped_slots (ptabs s a) 0)"
    "\<forall>b\<in>A - {a}. ptabs ?t2 b = ptabs s b \<and> (\<forall>j<length (ptabs s b). content E ?t2 b j = content E s b j)"
    unfolding S by (elim exE conjE; simp)+
  define t where "t = ?t2\<lparr>ptab_proc := (ptab_proc s)[?i := None], kheap := h - 5\<rparr>"
  have t2: "procs ?t2 p = pr" "ptab_proc ?t2 = ptab_proc s" by (simp_all add: s2_def)
  have "proc_end_waitpid p ?t2 = Ret (?t2\<lparr>ptab_proc := (ptab_proc s)[?i := None], kheap := h - 3\<rparr>)"
    using pid sem(3) unfolding proc_end_waitpid_def t2 by (simp add: pr_def s2_def sem_destroy_eq Let_def)
  then have e: "kbind (proc_end_waitpid p ?t2) (\<lambda>s4. Ret (kfree (kfree s4))) = Ret t" by (simp add: kfree_def t_def)
  have "proc_destroy E p (upd_proc p (\<lambda>x. x\<lparr>p_sem := Some ?sem1\<rparr>) s) = Ret t"
  proof -
    let ?s1 = "upd_proc p (\<lambda>x. x\<lparr>p_sem := Some ?sem1\<rparr>) s"
    define u where "u = (if p_cwd (procs ?s1 p) \<noteq> None then upd_proc p (\<lambda>x. x\<lparr>p_cwd := None\<rparr>) ?s1 else ?s1)"
    have u: "kproc ?s1 = kproc s" "p_addrspace (procs u p) = Some a" "curproc u = curproc s"
      "upd_proc p (\<lambda>x. x\<lparr>p_addrspace := None\<rparr>) u = s2"
      using a(2) by (auto simp: u_def upd_proc_def curproc_def s2_def pr_def)
    have n0: "p_numthreads (procs ?t2 p) = 0" using p(1) by (simp add: s2_def pr_def)
    show ?thesis
      unfolding proc_destroy_def u(1) u_def [symmetric] Let_def
      using p(2,3) u(2-4) d e n0 by auto
  qed
  moreover have "vm_inv E n (A - {a}) t" unfolding t_def by (rule vm_inv_ptab [OF D(1)])
  moreover have "same_store ?t2 t" by (simp add: same_store_def t_def)
  note T = same_storeD [OF this]
  moreover have "ptab_proc t = (ptab_proc s)[?i := None]" by (simp add: t_def)
  moreover have "proc_getas t = proc_getas s2" by (rule proc_getas_cong) (simp_all add: t_def)
  ultimately show ?thesis
    using D(2-4) P p(2) sem(1) pg(1)
    by (intro exI [of _ t]) (simp add: proc_wait_def upd_proc_def T Let_def)
qed


section \<open>The end of the child's thread\<close>

lemma exit_detached:
  assumes ok: "sched_ok s" "\<not> c_isidle (cur_cpu s)" "guard_ok (threads s (curthread s))"
    and q: "c_runqueue (cur_cpu s) = w # q" and p: "t_proc (threads s (curthread s)) = None"
  shows "thread_exit cpu_idle s = Ret (s\<lparr>threads := (threads s)(curthread s := (threads s (curthread s))
      \<lparr>t_wchan_name := Some ''ZOMBIE'', t_state := S_ZOMBIE\<rparr>),
    allcpus := (allcpus s)[curcpu s := (cur_cpu s)\<lparr>c_spinlocks := c_spinlocks (cur_cpu s) + 1,
      c_zombies := c_zombies (cur_cpu s) @ [curthread s], c_runqueue := q, c_isidle := False, c_curthread := Some w\<rparr>],
    curthread := w\<rparr>)"
proof -
  let ?cur = "curthread s" and ?c = "curcpu s"
  have l: "?c < length (allcpus s)" using ok(1) by (simp add: sched_ok_def)
  define s2 where "s2 = spinlock_acquire s"
  define s3 where "s3 = upd_cpu ?c (\<lambda>c. c\<lparr>c_zombies := c_zombies c @ [?cur]\<rparr>)
      (upd_thread ?cur (\<lambda>x. x\<lparr>t_wchan_name := Some ''ZOMBIE''\<rparr>) s2)"
  define s4 where "s4 = upd_cpu ?c (\<lambda>c. c\<lparr>c_isidle := True\<rparr>) (upd_thread ?cur (\<lambda>x. x\<lparr>t_state := S_ZOMBIE\<rparr>) s3)"
  define u where "u = (upd_cpu ?c (\<lambda>c. c\<lparr>c_isidle := False, c_curthread := Some w\<rparr>)
      (upd_cpu ?c (\<lambda>c. c\<lparr>c_runqueue := q\<rparr>) s4))\<lparr>curthread := w\<rparr>"
  have f2: "curthread s2 = ?cur" "curcpu s2 = ?c"
    by (simp_all add: s2_def spinlock_acquire_def upd_cpu_def)
  have f4: "curcpu s4 = ?c" "c_runqueue (cur_cpu s4) = w # q"
    using l q by (simp_all add: s4_def s3_def s2_def spinlock_acquire_def upd_cpu_def upd_thread_def cur_cpu_def)
  have "pick_next cpu_idle s4 = Some (w, upd_cpu ?c (\<lambda>c. c\<lparr>c_runqueue := q\<rparr>) s4)"
    using pick_next_Cons [OF f4(2)] f4(1) by simp
  then have "thread_switch_out cpu_idle S_ZOMBIE None s = Ret (True, None, u)"
    using ok(2,3) f2 f4(1)
    by (simp add: thread_switch_out_def thread_checkstack_ok put_thread_def Let_def s2_def [symmetric] s3_def s4_def u_def)
  then have "thread_exit cpu_idle s = Ret u"
    using p ok(3) by (simp add: thread_exit_def thread_checkstack_ok Let_def)
  moreover have "u = s\<lparr>threads := (threads s)(?cur := (threads s ?cur)\<lparr>t_wchan_name := Some ''ZOMBIE'', t_state := S_ZOMBIE\<rparr>),
    allcpus := (allcpus s)[?c := (cur_cpu s)\<lparr>c_spinlocks := c_spinlocks (cur_cpu s) + 1,
      c_zombies := c_zombies (cur_cpu s) @ [?cur], c_runqueue := q, c_isidle := False, c_curthread := Some w\<rparr>],
    curthread := w\<rparr>"
    using l by (simp add: u_def s4_def s3_def s2_def spinlock_acquire_def upd_cpu_def upd_thread_def cur_cpu_def)
  ultimately show ?thesis by simp
qed

text \<open>
  The state after \<open>_exit\<close> when the parent \<open>w\<close> sleeps on the semaphore of the process and no other thread
  is ready.
\<close>

definition exited ::
  "int \<Rightarrow> nat \<Rightarrow> tid \<Rightarrow> semaphore \<Rightarrow> 'a procs_st_scheme \<Rightarrow> 'a procs_st_scheme" where
  "exited status p w sem s =
     (let c = curthread s; sem1 = sem\<lparr>sem_count := sem_count sem + 1, sem_wchan := (sem_wchan sem)\<lparr>wc_threads := []\<rparr>\<rparr> in
      s\<lparr>procs := (procs s)(p := (procs s p)\<lparr>p_status := status AND 0xff, p_numthreads := p_numthreads (procs s p) - 1,
          p_sem := Some sem1\<rparr>),
        threads := (threads s)(c := (threads s c)\<lparr>t_proc := None, t_wchan_name := Some ''ZOMBIE'', t_state := S_ZOMBIE\<rparr>,
          w := (threads s w)\<lparr>t_state := S_READY\<rparr>),
        allcpus := (allcpus s)[curcpu s := (cur_cpu s)\<lparr>c_spinlocks := c_spinlocks (cur_cpu s) + 1,
          c_zombies := c_zombies (cur_cpu s) @ [c], c_runqueue := [], c_isidle := False, c_curthread := Some w\<rparr>],
        curthread := w\<rparr>)"

lemma sys_exit_ok:
  assumes ok: "sched_ok s" "\<not> c_isidle (cur_cpu s)" "guard_ok (threads s (curthread s))"
    and q: "c_runqueue (cur_cpu s) = []"
    and p: "curproc s = Some p" "p_numthreads (procs s p) > 0" "p_sem (procs s p) = Some sem"
    and w: "wc_threads (sem_wchan sem) = [w]" "sem_count sem = 0" "w \<noteq> curthread s" "t_cpu (threads s w) = Some (curcpu s)"
  shows "sys__exit cpu_idle status s = Ret (exited status p w sem s)"
proof -
  let ?c = "curthread s"
  let ?sem1 = "sem\<lparr>sem_count := 1, sem_wchan := (sem_wchan sem)\<lparr>wc_threads := []\<rparr>\<rparr>"
  have l: "curcpu s < length (allcpus s)" using ok(1) by (simp add: sched_ok_def)
  define s2 where "s2 = s\<lparr>procs := (procs s)(p := (procs s p)\<lparr>p_status := status AND 0xff,
      p_numthreads := p_numthreads (procs s p) - 1\<rparr>), threads := (threads s)(?c := (threads s ?c)\<lparr>t_proc := None\<rparr>)\<rparr>"
  have r: "proc_remthread ?c (upd_proc p (\<lambda>x. x\<lparr>p_status := status AND 0xff\<rparr>) s) = Ret s2"
    using p(1,2) by (simp add: proc_remthread_def upd_proc_def upd_thread_def curproc_def s2_def)
  define s3 where "s3 = s2\<lparr>threads := (threads s2)(w := (threads s w)\<lparr>t_state := S_READY\<rparr>),
      allcpus := (allcpus s)[curcpu s := (cur_cpu s)\<lparr>c_runqueue := [w]\<rparr>]\<rparr>"
  have f2: "threads s2 w = threads s w" "curcpu s2 = curcpu s" "allcpus s2 = allcpus s" using w(3) by (simp_all add: s2_def)
  have V: "sem_V s2 sem = Ret (?sem1, s3)"
    using l q w ok(2) f2
    by (simp add: sem_V_def wchan_wakeone_def thread_make_runnable_def spinlock_acquire_def spinlock_release_def
        upd_cpu_def upd_thread_def Let_def cur_cpu_def s3_def word_gt_0)
  have sp: "p_sem (procs s2 p) = Some sem" "procs s3 = procs s2" using p(3) by (simp_all add: s2_def s3_def)
  define s4 where "s4 = upd_proc p (\<lambda>x. x\<lparr>p_sem := Some ?sem1\<rparr>) s3"
  have E: "proc_signal_end p s2 = Ret s4" using sp(1) V by (simp add: proc_signal_end_def s4_def)
  have f4: "sched_ok s4" "curthread s4 = ?c" "curcpu s4 = curcpu s"
    "cur_cpu s4 = (cur_cpu s)\<lparr>c_runqueue := [w]\<rparr>" "threads s4 ?c = (threads s ?c)\<lparr>t_proc := None\<rparr>"
    using ok(1) l w(3) by (simp_all add: s4_def s3_def s2_def upd_proc_def sched_ok_def cur_cpu_def)
  have "thread_exit cpu_idle s4 = Ret (exited status p w sem s)"
  proof -
    have *: "exited status p w sem s = s4\<lparr>threads := (threads s4)(curthread s4 := (threads s4 (curthread s4))
        \<lparr>t_wchan_name := Some ''ZOMBIE'', t_state := S_ZOMBIE\<rparr>),
      allcpus := (allcpus s4)[curcpu s4 := (cur_cpu s4)\<lparr>c_spinlocks := c_spinlocks (cur_cpu s4) + 1,
        c_zombies := c_zombies (cur_cpu s4) @ [curthread s4], c_runqueue := [], c_isidle := False, c_curthread := Some w\<rparr>],
      curthread := w\<rparr>"
      using w(2,3) f4 by (simp add: exited_def Let_def s4_def s3_def s2_def upd_proc_def fun_upd_twist)
    show ?thesis unfolding *
      by (rule exit_detached) (use f4 ok in \<open>simp_all add: guard_ok_def\<close>)
  qed
  with r E p(1) show ?thesis by (simp add: sys__exit_def Let_def) (simp add: upd_proc_def)
qed


section \<open>The parent runs again\<close>

lemma activate_flushes:
  assumes ok: "stats_ok s" "tlb_laws E" "tlb_wf E s"
  shows "\<exists>h c. as_activate E s = Ret (s\<lparr>counters := c, tlb_hw := h\<rparr>) \<and> stats_ok (s\<lparr>counters := c, tlb_hw := h\<rparr>) \<and>
    tlb_wf E (s\<lparr>counters := c, tlb_hw := h\<rparr>) \<and>
    (proc_getas s \<noteq> None \<longrightarrow> tlb_lookup E (s\<lparr>counters := c, tlb_hw := h\<rparr>) = Map.empty)"
proof (cases "proc_getas s")
  case None
  then show ?thesis using ok
    by (intro exI [of _ "tlb_hw s"] exI [of _ "counters s"]) (simp add: as_activate_def)
next
  case (Some a)
  let ?h = "tlb_invalidate_from E 0 NUM_TLB (tlb_hw s)"
  let ?c = "(counters s)[TLB_INVALIDATION := counters s ! TLB_INVALIDATION + 1]"
  have run: "tlb_invalidate E s = Ret (s\<lparr>counters := ?c, tlb_hw := ?h\<rparr>)"
    using ok(1) by (simp add: tlb_invalidate_eq bump_def)
  have "next_victim s < NUM_TLB" using ok(3) by (simp add: tlb_wf_def)
  note W = tlb_invalidate_wf [OF ok(1,2) run this]
  show ?thesis
    using Some run W ok(1) by (intro exI [of _ ?h] exI [of _ ?c]) (simp add: as_activate_def stats_ok_def)
qed

text \<open>One zombie is reaped.\<close>

lemma exorcise_one:
  assumes "c_zombies (cur_cpu s) = [c]" "c \<noteq> curthread s" "t_state (threads s c) = S_ZOMBIE" "t_proc (threads s c) = None"
  shows "exorcise s = Ret (s\<lparr>allcpus := (allcpus s)[curcpu s := (cur_cpu s)\<lparr>c_zombies := []\<rparr>],
    threads := (threads s)(c := (threads s c)\<lparr>t_wchan_name := Some ''DESTROYED''\<rparr>),
    kheap := kheap s - thread_blocks (threads s c)\<rparr>)"
  using assms thread_destroy_ok [of c "upd_cpu (curcpu s) (\<lambda>c. c\<lparr>c_zombies := []\<rparr>) s"]
  by (simp add: exorcise_def) (simp add: upd_cpu_def upd_thread_def cur_cpu_def)

lemma exit_wait:
  assumes inv: "vm_inv E n A s" and cl: "close_laws E" and a: "a \<in> A" "p_addrspace (procs s p) = Some a" and pt: "pt_at s a f k"
    and ok: "\<not> c_isidle (cur_cpu s)" "guard_ok (threads s (curthread s))" "c_runqueue (cur_cpu s) = []" "c_zombies (cur_cpu s) = []"
    and p: "curproc s = Some p" "p_numthreads (procs s p) = 1" "kproc s \<noteq> Some p"
      "0 < p_pid (procs s p)" "p_pid (procs s p) \<le> MAX_PROC"
    and sem: "p_sem (procs s p) = Some sem" "wc_threads (sem_wchan sem) = [w]" "sem_count sem = 0"
    and w: "w \<noteq> curthread s" "t_cpu (threads s w) = Some (curcpu s)" "t_proc (threads s w) \<noteq> Some p" "\<not> t_in_interrupt (threads s w)"
  shows "\<exists>u v x. sys__exit cpu_idle status s = Ret u \<and> curthread u = w \<and> thread_switch_in E u = Ret v \<and>
    proc_wait E p v = Ret (status AND 0xff, x) \<and> vm_inv E n (A - {a}) x \<and>
    free_frames x = free_frames s \<union> {f..<f + k} \<union> {i. i < coremapSize s \<and> owner s i = Some a} \<and>
    slot_bytes E x = slot_bytes E s |` (- swapped_slots (ptabs s a) 0) \<and>
    (\<forall>b\<in>A - {a}. ptabs x b = ptabs s b \<and> (\<forall>j<length (ptabs s b). content E x b j = content E s b j)) \<and>
    ptab_proc x = (ptab_proc s)[p_pid (procs s p) := None]"
proof -
  note D = vm_invD [OF inv]
  let ?c = "curthread s" and ?u = "exited status p w sem s"
  have so: "sched_ok s" "c_spinlocks (cur_cpu s) = 0" using D(4) by (simp_all add: can_lock_def)
  have l: "curcpu s < length (allcpus s)" using so(1) by (simp add: sched_ok_def)
  have n1: "p_numthreads (procs s p) > 0" using p(2) by simp
  note X = sys_exit_ok [OF so(1) ok(1,2,3) p(1) n1 sem(1,2,3) w(1,2), of cpu_idle status]
  define s2 where "s2 = spinlock_release (upd_thread w (\<lambda>x. x\<lparr>t_wchan_name := None, t_state := S_RUN\<rparr>) ?u)"
  have f2: "same_store s s2" "curthread s2 = w" "curcpu s2 = curcpu s" "sched_ok s2" "stats_ok s2 = stats_ok s"
    "cur_cpu s2 = (cur_cpu s)\<lparr>c_zombies := [?c], c_runqueue := [], c_isidle := False, c_curthread := Some w\<rparr>"
    "threads s2 ?c = (threads s ?c)\<lparr>t_proc := None, t_wchan_name := Some ''ZOMBIE'', t_state := S_ZOMBIE\<rparr>"
    "threads s2 w = (threads s w)\<lparr>t_wchan_name := None, t_state := S_RUN\<rparr>"
    "procs s2 = procs ?u" "kproc s2 = kproc s" "ptab_proc s2 = ptab_proc s" "tlb_hw s2 = tlb_hw s" "next_victim s2 = next_victim s"
    using l so w(1) ok(4)
    by (simp_all add: s2_def exited_def Let_def spinlock_release_def upd_cpu_def upd_thread_def same_store_def sched_ok_def
        cur_cpu_def stats_ok_def)
  have tw: "tlb_wf E s2 = tlb_wf E s" by (rule tlb_cong) (use f2 in simp_all)
  from activate_flushes [of s2 E] D(1,2,3) f2(5) tw obtain h cn where
    ac: "as_activate E s2 = Ret (s2\<lparr>counters := cn, tlb_hw := h\<rparr>)" "stats_ok (s2\<lparr>counters := cn, tlb_hw := h\<rparr>)"
      "tlb_wf E (s2\<lparr>counters := cn, tlb_hw := h\<rparr>)"
      "proc_getas s2 \<noteq> None \<longrightarrow> tlb_lookup E (s2\<lparr>counters := cn, tlb_hw := h\<rparr>) = Map.empty" by auto
  let ?s3 = "s2\<lparr>counters := cn, tlb_hw := h\<rparr>"
  define v where "v = ?s3\<lparr>allcpus := (allcpus ?s3)[curcpu ?s3 := (cur_cpu ?s3)\<lparr>c_zombies := []\<rparr>],
    threads := (threads ?s3)(?c := (threads ?s3 ?c)\<lparr>t_wchan_name := Some ''DESTROYED''\<rparr>),
    kheap := kheap ?s3 - thread_blocks (threads ?s3 ?c)\<rparr>"
  have c3: "cur_cpu ?s3 = cur_cpu s2" by (simp add: cur_cpu_def)
  have "exorcise ?s3 = Ret v" unfolding v_def
    by (rule exorcise_one) (use w(1) f2 c3 in simp_all)
  then have sw: "thread_switch_in E ?u = Ret v"
    using ac(1) by (simp add: thread_switch_in_def exited_def Let_def s2_def)
  have fv: "same_store s v" "curthread v = w" "procs v = procs ?u" "kproc v = kproc s" "ptab_proc v = ptab_proc s"
    "threads v w = (threads s w)\<lparr>t_wchan_name := None, t_state := S_RUN\<rparr>" "sched_ok v" "c_spinlocks (cur_cpu v) = 0"
    using f2 w(1) so(2) by (simp_all add: v_def same_store_def sched_ok_def cur_cpu_def)
  have tl: "tlb_wf E v = tlb_wf E ?s3" "tlb_lookup E v = tlb_lookup E ?s3" by (rule tlb_cong; simp add: v_def)+
  have cp: "curproc v = t_proc (threads s w)" using fv(2,6) by (simp add: curproc_def)
  have pg: "proc_getas v = proc_getas s2" using f2(2,8,9) fv(2,3,6) by (simp add: proc_getas_def curproc_def split: option.split)
  have iv: "vm_inv E n A v"
  proof (rule vm_inv_other_thread [OF fv(1) inv])
    show "can_lock v" using fv(2,6,7,8) w(4) by (simp add: can_lock_def in_interrupt_def)
    show "stats_ok v" using ac(2) by (simp add: v_def stats_ok_def)
    show "tlb_wf E v" using ac(3) tl by simp
    show "coherent (tlb_lookup E v) (ptabs v b)" if "proc_getas v = Some b" for b
      using that ac(4) pg tl(2) by (simp add: coherent_def)
  qed
  note S = same_storeD [OF fv(1)]
  have pu: "procs v p = (procs s p)\<lparr>p_status := status AND 0xff, p_numthreads := 0,
      p_sem := Some (sem\<lparr>sem_count := 1, sem_wchan := (sem_wchan sem)\<lparr>wc_threads := []\<rparr>\<rparr>)\<rparr>"
    using p(2) sem(3) by (simp add: fv(3) exited_def Let_def)
  have "pt_at v a f k" using pt unfolding pt_at_def S .
  from proc_wait_ok [OF iv a(1) _ cl this, of p] pu a(2) p(3,4,5) fv(4) cp w(3)
  obtain x where "proc_wait E p v = Ret (status AND 0xff, x)" "vm_inv E n (A - {a}) x"
    "free_frames x = free_frames s \<union> {f..<f + k} \<union> {i. i < coremapSize s \<and> owner s i = Some a}"
    "slot_bytes E x = slot_bytes E s |` (- swapped_slots (ptabs s a) 0)"
    "\<forall>b\<in>A - {a}. ptabs x b = ptabs s b \<and> (\<forall>j<length (ptabs s b). content E x b j = content E s b j)"
    "ptab_proc x = (ptab_proc s)[p_pid (procs s p) := None]"
    unfolding S fv(5) by auto
  with X sw show ?thesis
    by (intro exI [of _ ?u] exI [of _ v] exI [of _ x]) (simp add: exited_def Let_def)
qed


section \<open>A program that cannot be opened\<close>

lemma open_fails:
  assumes "can_lock s" "proc_getas s = None" "kmem s = True # km" "vfs_open E prog (disk s) = (Some e, v, prog', d)"
  shows "cmd_progthread X E (Some prog # rest) s =
    Ret (None, kprintf (''Running program '' @ prog' @ '' failed: '' @ strerror X ENOENT @ newline)
      (s\<lparr>kmem := km, kheap := kheap s + 1, next_as := next_as s + 1, disk := d\<rparr>))"
  using assms
  by (simp add: cmd_progthread_def runprogramWithArgs_def load_program_def as_create_def can_sleep_def can_lock_def
      kmalloc_def Let_def)

lemma proc_wait_sleeps:
  assumes "p_sem (procs v p) = Some sem" "sem_count sem = 0" "can_lock v" "kproc v \<noteq> Some p"
  shows "proc_wait E p v = Sleeps"
proof -
  have "sem_P v sem = Sleeps"
    using assms(2,3) by (simp add: sem_P_def wchan_sleep_def can_lock_def Let_def)
  with assms(1,4) show ?thesis by (simp add: proc_wait_def)
qed

lemma open_fails_no_signal:
  assumes lk: "can_lock s" "proc_getas s = None" "kmem s = True # km" and op: "vfs_open E prog (disk s) = (Some e, v, prog', d)"
    and ok: "\<not> c_isidle (cur_cpu s)" "guard_ok (threads s (curthread s))" "stats_ok s" "c_runqueue (cur_cpu s) = t # q"
    and p: "curproc s = Some p" "0 < p_numthreads (procs s p)" "p_sem (procs s p) = Some sem" "sem_count sem = 0"
  shows "\<exists>s1 u. cmd_progthread X E (Some prog # rest) s = Ret (None, s1) \<and> kheap s1 = kheap s + 1 \<and>
    thread_exit cpu_idle s1 = Ret u \<and> curthread u = t \<and> p_sem (procs u p) = Some sem \<and>
    (\<forall>v. p_sem (procs v p) = p_sem (procs u p) \<longrightarrow> can_lock v \<longrightarrow> kproc v \<noteq> Some p \<longrightarrow> proc_wait E p v = Sleeps)"
proof -
  define s1 where "s1 = kprintf (''Running program '' @ prog' @ '' failed: '' @ strerror X ENOENT @ newline)
      (s\<lparr>kmem := km, kheap := kheap s + 1, next_as := next_as s + 1, disk := d\<rparr>)"
  have c: "cmd_progthread X E (Some prog # rest) s = Ret (None, s1)" unfolding s1_def by (rule open_fails [OF lk op])
  have f: "threads s1 = threads s" "curthread s1 = curthread s" "cur_cpu s1 = cur_cpu s" "sched_ok s1" "procs s1 = procs s"
    "kheap s1 = kheap s + 1" "allcpus s1 = allcpus s" "curcpu s1 = curcpu s"
    using lk(1) by (simp_all add: s1_def kprintf_def cur_cpu_def sched_ok_def can_lock_def)
  define s2 where "s2 = upd_thread (curthread s) (\<lambda>th. th\<lparr>t_proc := None\<rparr>) (upd_proc p (\<lambda>x. x\<lparr>p_numthreads := p_numthreads x - 1\<rparr>) s1)"
  have tp: "t_proc (threads s (curthread s)) = Some p" using p(1) by (simp add: curproc_def)
  have r: "proc_remthread (curthread s1) s1 = Ret s2" using f p(2) tp by (simp add: proc_remthread_def s2_def)
  have f2: "sched_ok s2" "cur_cpu s2 = cur_cpu s" "curthread s2 = curthread s" "t_proc (threads s2 (curthread s2)) = None"
    "guard_ok (threads s2 (curthread s2))" "p_sem (procs s2 p) = Some sem"
    using f ok(2) p(3) by (simp_all add: s2_def upd_proc_def upd_thread_def cur_cpu_def sched_ok_def guard_ok_def)
  have "thread_exit cpu_idle s1 = thread_exit cpu_idle s2"
    using r f tp f2(3,4) by (simp add: thread_exit_def Let_def)
  also have "\<dots> = Ret (s2\<lparr>threads := (threads s2)(curthread s2 := (threads s2 (curthread s2))
      \<lparr>t_wchan_name := Some ''ZOMBIE'', t_state := S_ZOMBIE\<rparr>),
    allcpus := (allcpus s2)[curcpu s2 := (cur_cpu s2)\<lparr>c_spinlocks := c_spinlocks (cur_cpu s2) + 1,
      c_zombies := c_zombies (cur_cpu s2) @ [curthread s2], c_runqueue := q, c_isidle := False, c_curthread := Some t\<rparr>],
    curthread := t\<rparr>)" (is "_ = Ret ?u")
    by (rule exit_detached) (use f2 ok in simp_all)
  finally have x: "thread_exit cpu_idle s1 = Ret ?u" .
  have "p_sem (procs ?u p) = Some sem" using f2(6) by simp
  with c x f(6) p(4) show ?thesis
    by (intro exI [of _ s1] exI [of _ ?u]) (simp add: proc_wait_sleeps)
qed

end
