(* ===== verification/Boot_Correct.thy ===== *)
theory Boot_Correct
  imports Vm_Inv
begin


text \<open>
  The start of the VM system (\<open>vm_bootstrap\<close> in \<open>kern/vm/addrspace.c\<close>) establishes the invariant that all its
  operations keep.
\<close>

section \<open>Bringing up the VM system\<close>

lemma lock_create_ok:
  assumes "kmem s = replicate 5 True @ km"
  shows "\<exists>lk. lock_create nm s = (Some lk, s\<lparr>kmem := km, kheap := kheap s + 5\<rparr>) \<and> lock_idle lk"
  using assms
  by (simp add: lock_create_def sem_create_def wchan_create_def kmalloc_def lock_idle_def Let_def
      numeral_eq_Suc)

lemma mm_ok_empty: "(\<And>i. i < N \<Longrightarrow> own i = None) \<Longrightarrow> mm_ok fr N own pt {} {}"
  by (simp add: mm_ok_def)

lemma stats_zero: "counters s = replicate STATS_TOT 0 \<Longrightarrow> stats_consistent s"
  by (simp add: stats_consistent_def stats_report_of_def stat_index_defs Let_def)

text \<open>
  With memory for the two locks, a swap file of \<open>n\<close> pages and the RAM of the machine above the kernel,
  \<open>vm_bootstrap\<close> returns, and what it returns is the invariant with no address space yet.
\<close>

lemma vm_bootstrap_ok:
  fixes s :: "('h, 'd, 'b, 'a) core_st_scheme" and E :: "('h, 'd, 'b, 'x) vm_ops_scheme"
  assumes laws: "tlb_laws E" "vnode_laws E" "bitmap_laws E n"
    and swap: "bitmap_create E n = Some b" "0 < n" "n < 65536" "used s = 0" "n \<le> unat firstfree"
    and cpu: "tlb_wf E s" "can_lock s" "kmem s = replicate 10 True @ km"
    and ram: "unat firstfree + 4095 \<le> unat ramsize" "unat ramsize \<le> 0x20000000" "next_svic s = 0"
      "0 < coremapSize (coremap_init ramsize firstfree s)"
  shows "\<exists>t. vm_bootstrap E (None, Some v) (None, int n * 4096) ramsize firstfree s = Ret t \<and> vm_inv E n {} t \<and>
     stats_consistent t \<and> free_frames t = {..<coremapSize t} \<and> coremapSize t = coremapSize (coremap_init ramsize firstfree s) \<and>
     slot_bytes E t = Map.empty \<and> kheap t = kheap s + 10"
proof -
  define s0 where "s0 = s\<lparr>counters := replicate STATS_TOT 0\<rparr>"
  have "kmem s0 = replicate 5 True @ (replicate 5 True @ km)"
    by (simp add: s0_def cpu(3) numeral_eq_Suc)
  from lock_create_ok [OF this, of "''STATS_lock''"] obtain l1 where
    l1: "lock_create ''STATS_lock'' s0 = (Some l1, s0\<lparr>kmem := replicate 5 True @ km, kheap := kheap s0 + 5\<rparr>)" "lock_idle l1"
    by blast
  define s1 where "s1 = s0\<lparr>kmem := replicate 5 True @ km, kheap := kheap s0 + 5, stats_lock := l1\<rparr>"
  have 1: "vm_stats_init s = Ret s1" using l1(1) by (simp add: vm_stats_init_def s0_def [symmetric] s1_def)
  define s2 where "s2 = s1\<lparr>swapFile := v, swapFileSize := int n * 4096, swapMap := b\<rparr>"
  have "kmem s2 = replicate 5 True @ km" by (simp add: s2_def s1_def)
  from lock_create_ok [OF this, of "''SWAP_lock''"] obtain l2 where
    l2: "lock_create ''SWAP_lock'' s2 = (Some l2, s2\<lparr>kmem := km, kheap := kheap s2 + 5\<rparr>)" "lock_idle l2"
    by blast
  define s3 where "s3 = s2\<lparr>kmem := km, kheap := kheap s2 + 5, swap_lock := l2\<rparr>"
  have 2: "swapmap_init E (None, Some v) (None, int n * 4096) s1 = Ret s3"
    using l2(1) swap(1) by (simp add: swapmap_init_def open_swapfile_def KASSERT_def s2_def [symmetric] s3_def)
  define t where "t = coremap_init ramsize firstfree s3"
  have 3: "vm_bootstrap E (None, Some v) (None, int n * 4096) ramsize firstfree s = Ret t"
    by (simp add: vm_bootstrap_def 1 2 t_def)
  have size: "coremapSize t = coremapSize (coremap_init ramsize firstfree s)" by (simp add: t_def coremap_init_def Let_def)
  have f: "tlb_hw t = tlb_hw s" "next_victim t = next_victim s" "counters t = replicate STATS_TOT 0" "stats_lock t = l1"
    "threads t = threads s" "curthread t = curthread s" "curcpu t = curcpu s" "curcpu_exists t = curcpu_exists s"
    "allcpus t = allcpus s" "swapFile t = v" "swapFileSize t = int n * 4096" "swapMap t = b" "swap_lock t = l2"
    "used t = 0" "kheap t = kheap s + 10"
    using swap(4) by (simp_all add: t_def s3_def s2_def s1_def s0_def coremap_init_def Let_def)
  have nb: "\<not> bitmap_isset E b i" for i using laws(3) swap(1) by (simp add: bitmap_laws_def)
  have core: "core_ok t" "free_frames t = {..<coremapSize t}"
    using coremap_init_ok [OF ram(1,2), of s3] ram(3,4) size
    by (simp_all add: t_def s3_def s2_def s1_def s0_def)
  have fp: "n \<le> unat (firstpaddr t)"
    unfolding t_def coremap_init_values(2) [OF ram(1,2)] using coremap_init_values(6) [OF ram(1,2)] swap(5) by linarith
  have "swap_inv E n t"
    using laws(2,3) swap(2,3) cpu(2) l2(2) nb
    by (simp add: swap_inv_def swap_ok_def swap_slots_def f can_lock_def in_interrupt_def)
  moreover have "can_lock t" using cpu(2) by (simp add: can_lock_def sched_ok_def in_interrupt_def cur_cpu_def f)
  moreover have "tlb_wf E t" using cpu(1) by (simp add: tlb_cong(2) [OF f(1,2)])
  moreover have "stats_ok t" using l1(2) by (simp add: stats_ok_def f)
  moreover have "owner t i = None" if "i < coremapSize t" for i
    using that by (simp add: t_def coremap_init_def Let_def)
  moreover have sb: "slot_bytes E t = Map.empty" using nb by (simp add: slot_bytes_def f fun_eq_iff)
  ultimately have "vm_inv E n {} t"
    unfolding vm_invH_def using laws(1) core(1) fp by (simp add: mm_ok_empty sw_ok_def)
  then show ?thesis using 3 core(2) size sb f(15) stats_zero [OF f(3)] by blast
qed

end
