(* ===== verification/Runprogram_Correct.thy ===== *)
theory Runprogram_Correct
  imports Args_Layout Proc_Correct Boot_Correct
begin


text \<open>
  Loading a program (\<open>load_program\<close>, \<open>load_elf\<close>, \<open>as_create\<close>) from the file to a process that can run, with its
  arguments in its memory.
\<close>

section \<open>The program headers\<close>

definition ph_region :: "Elf_Phdr \<Rightarrow> segment_t" where
  "ph_region ph = region (p_vaddr ph) (p_memsz ph) (p_filesz ph) (p_flags ph AND PF_R) (p_flags ph AND PF_W)
     (p_flags ph AND PF_X) (uint (p_offset ph))"

definition ph_segs :: "Elf_Phdr list \<Rightarrow> segment_t list" where
  "ph_segs phs = map ph_region (filter (\<lambda>ph. p_type ph = PT_LOAD) phs)"

text \<open>
  \<open>elf_file E v d eh phs\<close>: on the disk \<open>d\<close> the file \<open>v\<close> is an executable with the header \<open>eh\<close> and the program
  headers \<open>phs\<close>.
\<close>

definition header_at :: "('h, 'd, 'b, 'x) elf_ops_scheme \<Rightarrow> nat \<Rightarrow> int \<Rightarrow> nat \<Rightarrow> 'd \<Rightarrow> byte list \<Rightarrow> bool" where
  "header_at E v off k d bs \<longleftrightarrow> vop_read E v off k d = (None, bs) \<and> length bs = k"

definition elf_file :: "('h, 'd, 'b, 'x) elf_ops_scheme \<Rightarrow> nat \<Rightarrow> 'd \<Rightarrow> Elf_Ehdr \<Rightarrow> Elf_Phdr list \<Rightarrow> bool" where
  "elf_file E v d eh phs \<longleftrightarrow>
     (\<exists>bs. header_at E v 0 (sizeof_ehdr E) d bs \<and> ehdr_of E bs = eh) \<and> elf_header_ok eh \<and> e_phnum eh = length phs \<and>
     (\<forall>i<length phs. (\<exists>bs. header_at E v (uint (e_phoff eh + of_nat i * e_phentsize eh)) (sizeof_phdr E) d bs \<and>
         phdr_of E bs = phs ! i) \<and> p_type (phs ! i) \<in> {PT_NULL, PT_PHDR, PT_MIPS_REGINFO, PT_LOAD})"

lemma read_header_at: "header_at E v off k (disk s) bs \<Longrightarrow> read_header E v off k s = Inr bs"
  by (simp add: header_at_def read_header_def)

lemma load_types: "PT_LOAD \<notin> {PT_NULL, PT_PHDR, PT_MIPS_REGINFO}"
  by (simp add: PT_LOAD_def PT_NULL_def PT_PHDR_def PT_MIPS_REGINFO_def)

lemma load_phdrs_ok:
  assumes "kmem s = replicate (length (ph_segs phs)) True @ km"
    "\<forall>j<length phs. (\<exists>bs. header_at E v (uint (e_phoff eh + of_nat (i + j) * e_phentsize eh)) (sizeof_phdr E) (disk s) bs \<and>
         phdr_of E bs = phs ! j) \<and> p_type (phs ! j) \<in> {PT_NULL, PT_PHDR, PT_MIPS_REGINFO, PT_LOAD}"
  shows "load_phdrs E v eh a i (length phs) s = (None, upd_as a (\<lambda>y. y\<lparr>as_segment := as_segment y @ ph_segs phs\<rparr>)
    (s\<lparr>kmem := km, kheap := kheap s + length (ph_segs phs)\<rparr>))"
  using assms
proof (induction phs arbitrary: s i)
  case Nil
  then show ?case by (simp add: ph_segs_def upd_as_def)
next
  case (Cons ph phs)
  from Cons.prems(2) [rule_format, of 0] obtain bs where
    bs: "header_at E v (uint (e_phoff eh + of_nat i * e_phentsize eh)) (sizeof_phdr E) (disk s) bs" "phdr_of E bs = ph"
      "p_type ph \<in> {PT_NULL, PT_PHDR, PT_MIPS_REGINFO, PT_LOAD}" by auto
  have tl: "\<forall>j<length phs. (\<exists>bs. header_at E v (uint (e_phoff eh + of_nat (Suc i + j) * e_phentsize eh)) (sizeof_phdr E) (disk s) bs \<and>
         phdr_of E bs = phs ! j) \<and> p_type (phs ! j) \<in> {PT_NULL, PT_PHDR, PT_MIPS_REGINFO, PT_LOAD}"
  proof (intro allI impI)
    fix j assume "j < length phs"
    then show "(\<exists>bs. header_at E v (uint (e_phoff eh + of_nat (Suc i + j) * e_phentsize eh)) (sizeof_phdr E) (disk s) bs \<and>
         phdr_of E bs = phs ! j) \<and> p_type (phs ! j) \<in> {PT_NULL, PT_PHDR, PT_MIPS_REGINFO, PT_LOAD}"
      using Cons.prems(2) [rule_format, of "Suc j"] by (simp del: insert_iff of_nat_Suc of_nat_add)
  qed
  note rd = read_header_at [OF bs(1)]
  show ?case
  proof (cases "p_type ph = PT_LOAD")
    case False
    then have "p_type ph \<in> {PT_NULL, PT_PHDR, PT_MIPS_REGINFO}" using bs(3) by blast
    moreover have "ph_segs (ph # phs) = ph_segs phs" using False by (simp add: ph_segs_def)
    ultimately show ?thesis using Cons.IH [OF _ tl] Cons.prems(1) rd bs(2) by (simp del: insert_iff)
  next
    case True
    then have g: "ph_segs (ph # phs) = ph_region ph # ph_segs phs" by (simp add: ph_segs_def)
    let ?s1 = "upd_as a (\<lambda>y. y\<lparr>as_segment := as_segment y @ [ph_region ph]\<rparr>)
        (s\<lparr>kmem := replicate (length (ph_segs phs)) True @ km, kheap := kheap s + 1\<rparr>)"
    have "kmem s = True # replicate (length (ph_segs phs)) True @ km" using Cons.prems(1) g by simp
    from as_define_region_eq [OF this]
    have d: "as_define_region a (p_vaddr ph) (p_memsz ph) (p_filesz ph) (p_flags ph AND PF_R) (p_flags ph AND PF_W)
        (p_flags ph AND PF_X) (uint (p_offset ph)) s = (None, ?s1)" by (simp add: ph_region_def)
    have k: "kmem ?s1 = replicate (length (ph_segs phs)) True @ km" and dk: "disk ?s1 = disk s" by (simp_all add: upd_as_def)
    have "load_phdrs E v eh a i (length (ph # phs)) s = load_phdrs E v eh a (Suc i) (length phs) ?s1"
      using True load_types rd bs(2) d by (simp del: insert_iff)
    also have "\<dots> = (None, upd_as a (\<lambda>y. y\<lparr>as_segment := as_segment y @ ph_segs phs\<rparr>)
        (?s1\<lparr>kmem := km, kheap := kheap ?s1 + length (ph_segs phs)\<rparr>))"
      by (rule Cons.IH [OF k]) (unfold dk, rule tl)
    also have "\<dots> = (None, upd_as a (\<lambda>y. y\<lparr>as_segment := as_segment y @ ph_segs (ph # phs)\<rparr>)
        (s\<lparr>kmem := km, kheap := kheap s + length (ph_segs (ph # phs))\<rparr>))"
      unfolding g by (cases s) (simp add: upd_as_def)
    finally show ?thesis .
  qed
qed

section \<open>A new address space\<close>

lemma as_create_ok:
  assumes "can_lock s" "kmem s = replicate 7 True @ km" "vfs_open E prog (disk s) = (None, v, prog', d)"
  shows "\<exists>x. as_create E prog s = Ret (Some (next_as s), None, prog', s\<lparr>kmem := km, kheap := kheap s + 7, disk := d,
      aspaces := (aspaces s)(next_as s := x), next_as := next_as s + 1\<rparr>) \<and>
    lock_idle (pt_lock x) \<and> as_segment x = [] \<and> as_v x = v"
proof -
  let ?a = "next_as s"
  define s5 where "s5 = upd_as ?a (\<lambda>x. x\<lparr>as_v := v, progname := Some prog', as_segment := [], as_pt := 0, as_ptab := []\<rparr>)
      (s\<lparr>kmem := replicate 5 True @ km, kheap := kheap s + 2, disk := d, next_as := ?a + 1\<rparr>)"
  have "kmem s5 = replicate 5 True @ km" by (simp add: s5_def upd_as_def)
  from lock_create_ok [OF this, of "''PT_lock''"] obtain lk where
    lk: "lock_create ''PT_lock'' s5 = (Some lk, s5\<lparr>kmem := km, kheap := kheap s5 + 5\<rparr>)" "lock_idle lk" by blast
  have "as_create E prog s = Ret (Some ?a, None, prog', upd_as ?a (\<lambda>x. x\<lparr>pt_lock := lk\<rparr>) (s5\<lparr>kmem := km, kheap := kheap s5 + 5\<rparr>))"
  proof -
    have km: "kmem s = True # True # replicate 5 True @ km" using assms(2) by (simp add: numeral_eq_Suc)
    have e: "upd_as ?a (\<lambda>x. x\<lparr>as_v := v, progname := Some prog', as_segment := [], as_pt := 0, as_ptab := []\<rparr>)
        (s\<lparr>next_as := ?a + 1, disk := d, kmem := replicate 5 True @ km, kheap := kheap s + 2\<rparr>) = s5"
      by (cases s) (simp add: s5_def upd_as_def)
    show ?thesis
      using km assms(3) lk(1) unfolding as_create_def can_sleep_ok [OF assms(1)]
      by (simp add: kmalloc_def Let_def e [simplified])
  qed
  then show ?thesis using lk(2)
    by (intro exI [of _ "(aspaces s5 ?a)\<lparr>pt_lock := lk\<rparr>"]) (cases s, simp add: upd_as_def s5_def)
qed


text \<open>The invariant in a state that has the same pages, frames and files.\<close>

lemma vm_inv_same_pages:
  assumes inv: "vm_inv E n A s"
    and sw: "swapFile t = swapFile s" "swapFileSize t = swapFileSize s" "swapMap t = swapMap s" "swap_lock t = swap_lock s"
      "used t = used s" "\<forall>w off k. vop_read E w off k (disk t) = vop_read E w off k (disk s)"
    and cm: "coremap t = coremap s" "coremapSize t = coremapSize s" "coremapActive t = coremapActive s"
      "next_svic t = next_svic s" "firstpaddr t = firstpaddr s" "physmem t = physmem s"
    and as: "\<forall>b\<in>A. aspaces t b = aspaces s b"
    and t: "can_lock t" "stats_ok t" "tlb_wf E t" "\<And>b. b \<in> A \<Longrightarrow> proc_getas t \<noteq> Some b"
  shows "vm_inv E n A t" "slot_bytes E t = slot_bytes E s" "free_frames t = free_frames s"
    "b \<in> A \<Longrightarrow> content E t b k = content E s b k"
proof -
  note D = vm_invD [OF inv]
  show sb: "slot_bytes E t = slot_bytes E s" using sw by (simp add: slot_bytes_def slot_data_def fun_eq_iff)
  have c: "core_ok t = core_ok s" "free_frames t = free_frames s" "frame_addr t = frame_addr s"
    by (rule core_map_cong; simp add: cm)+
  show "free_frames t = free_frames s" by (rule c)
  show "b \<in> A \<Longrightarrow> content E t b k = content E s b k" using as sb cm(6) by (simp add: content_def)
  have "swap_ok E n t" using D(5) t(1) sw by (simp add: swap_inv_def swap_ok_def swap_slots_def can_lock_def)
  then have si: "swap_inv E n t" using D(5) sw by (simp add: swap_inv_def slot_data_def)
  have "mm_ok (frame_addr t) (coremapSize t) (owner t) (ptabs t) A {}"
    unfolding c cm by (rule mm_ok_cong [OF D(9)]) (simp_all add: as)
  moreover have "sw_ok (dom (slot_bytes E t)) (ptabs t) A" unfolding sb by (rule sw_ok_cong [OF D(10)]) (simp add: as)
  ultimately show "vm_inv E n A t" unfolding vm_invH_def using D(1,6-8) si t as c(1) cm(5) by auto
qed

section \<open>Loading a program\<close>

text \<open>
  \<open>startable E n A prog prog' v eh phs s\<close>: the current process has no address space, the file \<open>prog\<close> opens, leaving
  \<open>prog'\<close> in the buffer of the name, as an executable whose segments lie in order below the stack, and there is kernel memory for the address space and
  free frames for its page table.
\<close>

definition startable ::
  "('h, 'd, 'b, 'x) elf_ops_scheme \<Rightarrow> nat \<Rightarrow> nat set \<Rightarrow> string \<Rightarrow> string \<Rightarrow> nat \<Rightarrow> Elf_Ehdr \<Rightarrow> Elf_Phdr list \<Rightarrow>
     ('h, 'd, 'b, 'a) core_st_scheme \<Rightarrow> bool" where
  "startable E n A prog prog' v eh phs s \<longleftrightarrow>
     vm_inv E n A s \<and> next_as s \<notin> A \<and> curproc s \<noteq> None \<and> proc_getas s = None \<and>
     (\<exists>d. vfs_open E prog (disk s) = (None, v, prog', d) \<and> elf_file E v d eh phs \<and>
        (\<forall>w off k. vop_read E w off k d = vop_read E w off k (disk s))) \<and>
     (\<exists>km. kmem s = replicate 7 True @ replicate (length (ph_segs phs)) True @ True # km) \<and> segs_ok (ph_segs phs @ [stack_seg]) \<and>
     (let K = pt_frames (length (pt_of_segments (ph_segs phs @ [stack_seg]))) in
       K < unat (getAvailableRam s) \<and> (\<exists>g. {g..<g + K} \<subseteq> free_frames s))"

text \<open>The state in which \<open>as_prepare_load\<close> is called.\<close>

lemma load_program_prepare:
  assumes st: "startable E n A prog prog' v eh phs s"
  defines "a \<equiv> next_as s"
  shows "\<exists>u. load_program E prog s = kbind (as_prepare_load E a u) (\<lambda>(result, t).
      case result of Some e \<Rightarrow> Ret (Inl e, prog', t) | None \<Rightarrow> Ret (Inr (e_entry eh, USERSTACK), prog', t)) \<and>
    loadable E n A a u \<and> load_segs u a = ph_segs phs @ [stack_seg] \<and> proc_getas u = Some a \<and>
    free_frames u = free_frames s \<and> coremapSize u = coremapSize s \<and> slot_bytes E u = slot_bytes E s \<and>
    (\<forall>b\<in>A. ptabs u b = ptabs s b \<and> (\<forall>k. content E u b k = content E s b k))"
proof -
  from st obtain d km p where st: "vm_inv E n A s" "a \<notin> A" "curproc s = Some p" "proc_getas s = None"
    "vfs_open E prog (disk s) = (None, v, prog', d)" "elf_file E v d eh phs" "\<forall>w off k. vop_read E w off k d = vop_read E w off k (disk s)"
    "kmem s = replicate 7 True @ replicate (length (ph_segs phs)) True @ True # km"
    and room: "segs_ok (ph_segs phs @ [stack_seg])"
      "pt_frames (length (pt_of_segments (ph_segs phs @ [stack_seg]))) < unat (getAvailableRam s)"
      "\<exists>g. {g..<g + pt_frames (length (pt_of_segments (ph_segs phs @ [stack_seg])))} \<subseteq> free_frames s"
    unfolding startable_def a_def Let_def by auto
  note D = vm_invD [OF st(1)]
  from as_create_ok [OF D(4) st(8,5)] obtain x where
    x: "as_create E prog s = Ret (Some a, None, prog', s\<lparr>kmem := replicate (length (ph_segs phs)) True @ True # km,
        kheap := kheap s + 7, disk := d, aspaces := (aspaces s)(a := x), next_as := a + 1\<rparr>)" (is "_ = Ret (_, _, _, ?s1)")
      "lock_idle (pt_lock x)" "as_segment x = []" "as_v x = v" unfolding a_def by blast
  define s2 where "s2 = upd_proc p (\<lambda>pr. pr\<lparr>p_addrspace := Some a\<rparr>) ?s1"
  have set: "proc_setas (Some a) ?s1 = Ret (p_addrspace (procs s p), s2)"
    using st(3) by (simp add: proc_setas_def curproc_def s2_def)
  have g2: "proc_getas s2 = Some a" using st(3) by (simp add: proc_getas_def curproc_def s2_def upd_proc_def)
  have k2: "stats_ok s2" using D(3) by (simp add: s2_def upd_proc_def stats_ok_def)
  define s3 where "s3 = bump TLB_INVALIDATION (s2\<lparr>tlb_hw := tlb_invalidate_from E 0 NUM_TLB (tlb_hw s2)\<rparr>)"
  have inv3: "tlb_invalidate E s2 = Ret s3" unfolding s3_def by (rule tlb_invalidate_eq [OF k2])
  have act: "as_activate E s2 = Ret s3" using g2 inv3 by (simp add: as_activate_def)
  have "next_victim s2 < NUM_TLB" using D(2) by (simp add: s2_def upd_proc_def tlb_wf_def)
  note W = tlb_invalidate_wf [OF k2 D(1) inv3 this]
  have f3: "disk s3 = d" "aspaces s3 a = x" "kmem s3 = replicate (length (ph_segs phs)) True @ True # km" "proc_getas s3 = Some a"
    using st(3) by (simp_all add: s3_def s2_def bump_def upd_proc_def proc_getas_def curproc_def)
  define u where "u = upd_as a (\<lambda>y. y\<lparr>as_segment := as_segment y @ ph_segs phs\<rparr>)
      (s3\<lparr>kmem := True # km, kheap := kheap s3 + length (ph_segs phs)\<rparr>)"
  have fu: "threads u = threads s" "allcpus u = allcpus s" "curcpu u = curcpu s" "curthread u = curthread s"
    "curcpu_exists u = curcpu_exists s" "stats_lock u = stats_lock s" "length (counters u) = length (counters s)"
    "tlb_hw u = tlb_hw s3" "next_victim u = next_victim s3" "kmem u = True # km"
    "aspaces u = (aspaces s)(a := x\<lparr>as_segment := ph_segs phs\<rparr>)" "physmem u = physmem s" "disk u = d" "swapFile u = swapFile s"
    "swapFileSize u = swapFileSize s" "swapMap u = swapMap s" "swap_lock u = swap_lock s" "used u = used s"
    "coremap u = coremap s" "coremapSize u = coremapSize s" "coremapActive u = coremapActive s" "next_svic u = next_svic s"
    "firstpaddr u = firstpaddr s" "ram_used u = ram_used s"
    using x(3) by (simp_all add: u_def s3_def s2_def upd_as_def bump_def upd_proc_def)
  have gu: "proc_getas u = Some a" using st(3) by (simp add: u_def s3_def s2_def bump_def upd_as_def upd_proc_def proc_getas_def curproc_def)
  have elf: "load_elf E v s3 = kbind (as_prepare_load E a u) (\<lambda>(result, t).
      if result \<noteq> None then Ret (result, None, t) else Ret (None, Some (e_entry eh), t))"
  proof -
    from st(6) obtain bs where bs: "header_at E v 0 (sizeof_ehdr E) d bs" "ehdr_of E bs = eh" "elf_header_ok eh"
      "e_phnum eh = length phs"
      "\<forall>i<length phs. (\<exists>bs. header_at E v (uint (e_phoff eh + of_nat i * e_phentsize eh)) (sizeof_phdr E) d bs \<and>
         phdr_of E bs = phs ! i) \<and> p_type (phs ! i) \<in> {PT_NULL, PT_PHDR, PT_MIPS_REGINFO, PT_LOAD}"
      unfolding elf_file_def by blast
    have "load_phdrs E v eh a 0 (length phs) s3 = (None, u)"
      unfolding u_def by (rule load_phdrs_ok [OF f3(3)]) (use bs(5) f3(1) in simp)
    then show ?thesis
      using read_header_at [OF bs(1) [folded f3(1)]] bs(2-4) f3(4) by (simp add: load_elf_def Let_def)
  qed
  have "load_program E prog s = kbind (as_prepare_load E a u) (\<lambda>(result, t).
      case result of Some e \<Rightarrow> Ret (Inl e, prog', t) | None \<Rightarrow> Ret (Inr (e_entry eh, USERSTACK), prog', t))"
    using st(4) x(1,4) set act f3(2) elf
    by (cases "as_prepare_load E a u") (auto simp: load_program_def as_define_stack_def split: option.split)
  moreover have w: "tlb_wf E u" "tlb_lookup E u = Map.empty"
    using W by (simp_all add: tlb_cong(1) [OF fu(8)] tlb_cong(2) [OF fu(8,9)])
  have cl: "can_lock u" "stats_ok u"
    using D(3,4) by (simp_all add: can_lock_def sched_ok_def cur_cpu_def in_interrupt_def stats_ok_def fu)
  note V = vm_inv_same_pages [OF st(1) fu(14-18) _ fu(19-23,12) _ cl w(1)]
  have V: "vm_inv E n A u" "slot_bytes E u = slot_bytes E s" "free_frames u = free_frames s"
    "\<And>b k. b \<in> A \<Longrightarrow> content E u b k = content E s b k"
    by (rule V; use st(2,7) gu fu(11,13) in auto)+
  moreover have "load_segs u a = ph_segs phs @ [stack_seg]" by (simp add: load_segs_def fu(11))
  moreover have "loadable E n A a u"
  proof -
    have "owner u i \<noteq> Some a" if "i < coremapSize u" for i
      using mm_owned(1) [OF D(9), of i a] that st(2) fu(19,20) by auto
    moreover have "getAvailableRam u = getAvailableRam s" by (rule getAvailableRam_cong) (simp_all add: fu)
    moreover have "lock_idle (pt_lock (aspaces u a))" using x(2) by (simp add: fu(11))
    ultimately show ?thesis
      using V(1,3) st(2) w(2) fu(10) room \<open>load_segs u a = _\<close> unfolding loadable_def by simp
  qed
  ultimately show ?thesis using gu fu(11,20) st(2) by (intro exI [of _ u]) auto
qed

lemma as_prepare_load_rest:
  assumes ld: "loadable E n A a s" and t: "as_prepare_load E a s = Ret (None, t)"
  shows "proc_getas t = proc_getas s \<and> coremapSize t = coremapSize s"
proof -
  from ld obtain km g where l: "core_ok s" "\<not> in_interrupt s" "lock_idle (pt_lock (aspaces s a))" "kmem s = True # km"
    "segs_ok (load_segs s a)" "pt_frames (length (pt_of_segments (load_segs s a))) < unat (getAvailableRam s)"
    "{g..<g + pt_frames (length (pt_of_segments (load_segs s a)))} \<subseteq> free_frames s"
    unfolding loadable_def vm_invH_def can_lock_def by (elim exE conjE) (rule that)
  from as_prepare_load_eq [OF l, of E] t obtain f c where
    t: "t = upd_as a (\<lambda>x. x\<lparr>as_segment := load_segs s a, npages := sum_list (map seg_npages (load_segs s a)),
      as_pt := PADDR_TO_KVADDR (frame_addr s f), as_ptab := pt_of_segments (load_segs s a)\<rparr>)
      (s\<lparr>kmem := km, kheap := kheap s + 1, coremap := c\<rparr>)" by auto
  have "proc_getas t = proc_getas s" by (rule proc_getas_cong) (simp_all add: t upd_as_def)
  then show ?thesis by (simp add: t upd_as_def)
qed

lemma load_program_ok:
  assumes st: "startable E n A prog prog' v eh phs s"
  defines "a \<equiv> next_as s" and "segs \<equiv> ph_segs phs @ [stack_seg]"
  defines "K \<equiv> pt_frames (length (pt_of_segments segs))"
  shows "\<exists>t f. load_program E prog s = Ret (Inr (e_entry eh, USERSTACK), prog', t) \<and> vm_inv E n (insert a A) t \<and>
    proc_getas t = Some a \<and> as_segment (aspaces t a) = segs \<and> ptabs t a = pt_of_segments segs \<and>
    {f..<f + K} \<subseteq> free_frames s \<and> free_frames t = free_frames s - {f..<f + K} \<and> coremapSize t = coremapSize s \<and>
    (\<forall>b\<in>A. ptabs t b = ptabs s b \<and> (\<forall>k. content E t b k = content E s b k))"
proof -
  from load_program_prepare [OF st] obtain u where
    u: "load_program E prog s = kbind (as_prepare_load E a u) (\<lambda>(result, t).
        case result of Some e \<Rightarrow> Ret (Inl e, prog', t) | None \<Rightarrow> Ret (Inr (e_entry eh, USERSTACK), prog', t))"
      "loadable E n A a u" "load_segs u a = segs" "proc_getas u = Some a" "free_frames u = free_frames s"
      "coremapSize u = coremapSize s" "\<forall>b\<in>A. ptabs u b = ptabs s b \<and> (\<forall>k. content E u b k = content E s b k)"
    unfolding a_def segs_def by (elim exE conjE)
  show ?thesis
  proof (rule loadableE [OF u(2)], unfold u(3))
    fix f t
    assume t: "as_prepare_load E a u = Ret (None, t)" "vm_inv E n (insert a A) t" "as_segment (aspaces t a) = segs"
      "ptabs t a = pt_of_segments segs" "{f..<f + pt_frames (length (pt_of_segments segs))} \<subseteq> free_frames u"
      "free_frames t = free_frames u - {f..<f + pt_frames (length (pt_of_segments segs))}"
      "\<forall>b\<in>A. ptabs t b = ptabs u b \<and> (\<forall>k. content E t b k = content E u b k)"
    have "proc_getas t = Some a \<and> coremapSize t = coremapSize u" using as_prepare_load_rest [OF u(2) t(1)] u(4) by simp
    then show ?thesis using t(2-7) u(1,5-7) t(1) unfolding K_def by (intro exI [of _ t] exI [of _ f]) simp
  qed
qed


section \<open>The stack of a new program\<close>

lemma stack_seg_values: "seg_start stack_seg = 0x7FFEE000" "seg_npages stack_seg = 18" "seg_rwx stack_seg = 6"
  by (simp_all add: stack_seg_def region_def Let_def STACKPAGES_def USERSTACK_def PAGE_SIZE_def PAGE_FRAME_def PF_R_def PF_W_def)

lemma fresh_not_present:
  assumes "ptabs t a = pt_of_segments segs" "segs_ok segs" "j < length (ptabs t a)"
  shows "content E t a j = None"
  using fresh_entry(2,3) [OF assms(2), of "ptabs t a ! j"] assms(1,3) by (simp add: content_def)

lemma stack_usable:
  assumes pt: "ptabs t a = pt_of_segments (gs @ [stack_seg])" "as_segment (aspaces t a) = gs @ [stack_seg]"
    and x: "0x7FFEE000 \<le> unat x" "unat x < 0x80000000"
  shows "usable E t a x"
proof -
  let ?k = "(unat x - 0x7FFEE000) div 4096" and ?l = "length (pt_of_segments gs)"
  have k: "?k < 18" using x by simp
  have app: "pt_of_segments (gs @ [stack_seg]) = pt_of_segments gs @ seg_entries 0x7FFEE000 18 6"
    by (simp add: pt_of_segments_def stack_seg_values)
  let ?e = "\<lparr>pte_paddr = 0, pte_vaddr = 0x7FFEE000 + of_nat ?k * PAGE_SIZE, in_mem = False, in_swap = False, pte_rwx = 6\<rparr>"
  have e: "pte t a (?l + ?k) = ?e" "?l + ?k < length (ptabs t a)"
    using k nth_seg_entries [of ?k 18 "0x7FFEE000" 6] by (simp_all add: pt(1) app nth_append)
  have "unat (0x7FFEE000 + of_nat ?k * PAGE_SIZE) = 0x7FFEE000 + ?k * 4096"
    using unat_page_of [of "0x7FFEE000" 18 ?k] k by simp
  moreover have "0x7FFEE000 + ?k * 4096 = unat x div 4096 * 4096"
  proof -
    obtain r where r: "unat x = 0x7FFEE * 4096 + r" using x(1) le_Suc_ex [of "0x7FFEE * 4096"] by auto
    have "unat x div 4096 = 0x7FFEE + r div 4096" unfolding r by (rule div_mult_self3) simp
    then show ?thesis using r by simp
  qed
  ultimately have v: "0x7FFEE000 + of_nat ?k * PAGE_SIZE = x AND PAGE_FRAME" and ge: "0x7FFEE000 \<le> x AND PAGE_FRAME"
    by (simp_all add: word_unat_eq_iff unat_and_PAGE_FRAME word_le_nat_alt)
  have "stack_page t a (?l + ?k)" using ge by (simp add: stack_page_def pt(2) stack_seg_values e v)
  then show ?thesis unfolding usable_def using e v by (intro exI [of _ "?l + ?k"]) (simp add: readonly_def)
qed

lemma fresh_view:
  assumes "ptabs t a = pt_of_segments segs" "segs_ok segs"
  shows "view E t a (\<lambda>_. 0)"
  by (auto simp: view_def page_bytes_def fresh_not_present [OF assms] split: if_splits)

lemma fresh_all_fit:
  assumes A: "finite A" "a \<notin> A" "\<forall>b\<in>A. ptabs t b = ptabs s b" and w: "writes_ok E"
    and fits: "card (all_pages A s) + length (ptabs t a) \<le> n"
    and free: "free_frames t = free_frames s - {f..<f + K}" "K < card (free_frames s)"
  shows "all_fit E n (insert a A) a t"
proof -
  have "all_pages (insert a A) t = all_pages A s \<union> {a} \<times> {..<length (ptabs t a)}"
    using A(2,3) by (auto simp: all_pages_def)
  then have "card (all_pages (insert a A) t) \<le> card (all_pages A s) + card ({a} \<times> {..<length (ptabs t a)})"
    by (simp only: card_Un_le)
  then have c: "card (all_pages (insert a A) t) \<le> n" using fits by (simp add: card_cartesian_product)
  have "free_frames t \<noteq> {}"
  proof
    assume "free_frames t = {}"
    then have "card (free_frames s) \<le> card {f..<f + K}" unfolding free(1) by (intro card_mono) auto
    then show False using free(2) by simp
  qed
  then obtain i where "i < coremapSize t" "frame_free t i" by (auto simp: free_frames_def)
  then show ?thesis using A(1) w c by (auto simp: all_fit_def)
qed


section \<open>The arguments in the memory of the program\<close>

text \<open>
  What is known of \<open>copyout\<close>: to addresses where the program may write, it stores the block in the program's
  memory, as stores of the program would.
\<close>

definition copyout_laws ::
  "('h, 'd, 'b, 'x) os_ops_scheme \<Rightarrow> nat \<Rightarrow> nat set \<Rightarrow> nat \<Rightarrow>
     (byte list \<Rightarrow> vaddr_t \<Rightarrow> ('h, 'd, 'b, 'a) core_st_scheme \<Rightarrow> (kerr \<times> ('h, 'd, 'b, 'a) core_st_scheme) kres) \<Rightarrow> bool" where
  "copyout_laws E n A a cpo \<longleftrightarrow> (\<forall>bs va m s. running E n A a s \<longrightarrow> view E s a m \<longrightarrow>
     (\<forall>k<length bs. usable E s a (va + of_nat k)) \<longrightarrow> length bs < 2 ^ 32 \<longrightarrow>
     (\<exists>t. cpo bs va s = Ret (None, t) \<and> running E n A a t \<and> view E t a (mem_write va bs m) \<and> others_kept E A a s t \<and>
        (\<forall>x. usable E t a x = usable E s a x)))"

lemma copyout_lawsD:
  assumes "copyout_laws E n A a cpo" "running E n A a s" "view E s a m" "\<forall>k<length bs. usable E s a (va + of_nat k)"
    "length bs < 2 ^ 32"
  shows "\<exists>t. cpo bs va s = Ret (None, t) \<and> running E n A a t \<and> view E t a (mem_write va bs m) \<and> others_kept E A a s t \<and>
    (\<forall>x. usable E t a x = usable E s a x)"
  using assms by (simp add: copyout_laws_def)

lemma copyout_copies:
  assumes "copyout_laws E n A a cpo"
  shows "copies cpo (\<lambda>m s. running E n A a s \<and> view E s a m \<and> others_kept E A a s0 s \<and>
      (\<forall>x. usable E s a x = usable E s0 a x)) {x. usable E s0 a x}"
  unfolding copies_def
proof (intro allI impI, elim conjE)
  fix bs :: "byte list" and va m s
  assume s: "running E n A a s" "view E s a m" "others_kept E A a s0 s" "\<forall>x. usable E s a x = usable E s0 a x"
    "length bs < 2 ^ 32" "\<forall>k<length bs. va + of_nat k \<in> {x. usable E s0 a x}"
  then have us: "\<forall>k<length bs. usable E s a (va + of_nat k)" by simp
  from copyout_lawsD [OF assms s(1,2) us s(5)]
  obtain t where t: "cpo bs va s = Ret (None, t)" "running E n A a t" "view E t a (mem_write va bs m)"
    "others_kept E A a s t" "\<forall>x. usable E t a x = usable E s a x" by (elim exE conjE) (rule that)
  show "\<exists>t. cpo bs va s = Ret (None, t) \<and> running E n A a t \<and> view E t a (mem_write va bs m) \<and> others_kept E A a s0 t \<and>
      (\<forall>x. usable E t a x = usable E s0 a x)"
    using t others_kept_trans [OF s(3) t(4)] s(4) by (intro exI [of _ t]) simp
qed

lemma args_pushed:
  assumes ld: "load_program E (hd args0) s = Ret (Inr (entry, sp), prog', s1)" and ne: "args0 \<noteq> []" "args = prog' # tl args0"
    and law: "copies cpo Q W" "stack_free W (unat sp - args_size args) (unat sp)" and fits: "args_size args \<le> unat sp"
    and Q: "Q m s1"
  defines "p \<equiv> argv_addr sp args 0"
  shows "\<exists>t m1. runprogramWithArgs cpo E (map Some args0) s = Ret (Inr \<lparr>um_argc = length args, um_argv = of_nat p,
      um_stackptr = of_nat (p div 8 * 8), um_entry = entry\<rparr>, map Some args, t) \<and> Q m1 t \<and>
    (\<forall>j\<le>length args. bytes_at m1 (argv_addr sp args j) (be32 (arg_ptr sp args j))) \<and>
    (\<forall>j<length args. bytes_at m1 (arg_addr sp args j) (cstr (args ! j)))"
proof -
  let ?n = "length args"
  have sp: "unat sp < 2 ^ 32" using unsigned_less [of sp] by simp
  have start: "of_nat (arg_addr sp args ?n) = sp" by (simp add: arg_addr_def)
  have v: "\<forall>j. ?n \<le> j \<and> j < ?n \<longrightarrow> replicate (?n + 1) None ! j = Some (arg_ptr sp args j) \<and>
      bytes_at m (arg_addr sp args j) (cstr (args ! j))" by auto
  from push_strings_ok [OF law fits order_refl Q length_replicate v, unfolded start]
  obtain t1 m1 as where r1: "push_strings cpo (map Some args) ?n sp (replicate (?n + 1) None) s1 =
      Ret (None, of_nat (arg_addr sp args 0), as, t1)" "Q m1 t1" "length as = ?n + 1"
    "\<forall>j<?n. as ! j = Some (arg_ptr sp args j) \<and> bytes_at m1 (arg_addr sp args j) (cstr (args ! j))"
    by (elim exE conjE) (rule that)
  let ?as = "as[?n := Some 0]"
  have as: "length ?as = ?n + 1" "\<forall>j\<le>?n. ?as ! j = Some (arg_ptr sp args j)"
    using r1(3,4) by (auto simp: nth_list_update arg_ptr_def)
  have mid: "arg_addr sp args 0 = argv_addr sp args (?n + 1)"
    using fits by (simp add: arg_addr_def argv_addr_def args_size_def)
  have v: "\<forall>j. ?n + 1 \<le> j \<and> j \<le> ?n \<longrightarrow> bytes_at m1 (argv_addr sp args j) (be32 (arg_ptr sp args j))" by auto
  from push_pointers_ok [OF law fits as order_refl r1(2) v, folded mid p_def]
  obtain t m2 where r2: "push_pointers cpo ?as (?n + 1) (of_nat (arg_addr sp args 0)) t1 = Ret (None, of_nat p, t)"
    "Q m2 t" "\<forall>j\<le>?n. bytes_at m2 (argv_addr sp args j) (be32 (arg_ptr sp args j))" "kept_from (arg_addr sp args 0) m1 m2"
    by (elim exE conjE) (rule that)
  have keep: "bytes_at m2 (arg_addr sp args j) (cstr (args ! j))" if "j < ?n" for j
  proof (rule bytes_at_kept [OF _ r2(4)])
    show "bytes_at m1 (arg_addr sp args j) (cstr (args ! j))" using r1(4) that by simp
    show "arg_addr sp args 0 \<le> arg_addr sp args j" using arg_addr_step(3) [OF that fits] by (simp add: arg_addr_def)
    show "arg_addr sp args j + length (cstr (args ! j)) \<le> 2 ^ 32"
      using arg_addr_step(1,2) [OF that fits] cstr_room(1) [of "args ! j"] sp by linarith
  qed
  have "p < 2 ^ 32" using sp by (simp add: p_def argv_addr_def)
  then have "unat (of_nat p mod 8 :: w32) = p mod 8" by (simp add: unat_mod unat_of_nat)
  then have "of_nat (unat (of_nat p mod 8 :: w32)) = (of_nat (p mod 8) :: w32)" by simp
  then have md: "of_nat p mod 8 = (of_nat (p mod 8) :: w32)" by (simp only: of_nat_unat ucast_id)
  have "of_nat p - (of_nat p mod 8 :: w32) = of_nat (p - p mod 8)" unfolding md by simp
  also have "p - p mod 8 = p div 8 * 8" by (rule minus_mod_eq_div_mult)
  finally have al: "of_nat p - (of_nat p mod 8 :: w32) = of_nat (p div 8 * 8)" .
  have "runprogramWithArgs cpo E (map Some args0) s = Ret (Inr \<lparr>um_argc = ?n, um_argv = of_nat p,
      um_stackptr = of_nat p - of_nat p mod 8, um_entry = entry\<rparr>, map Some args, t)"
    using ld r1(1) r2(1) ne by (cases args0) (simp_all add: runprogramWithArgs_def Let_def)
  then show ?thesis unfolding al using r2(2,3) keep by blast
qed

lemma program_starts:
  assumes st: "startable E n A (hd args0) prog' v eh phs s" and A: "finite A" and w: "writes_ok E"
    and args: "args0 \<noteq> []" "args = prog' # tl args0" "args_size args \<le> 0x12000"
  defines "a \<equiv> next_as s" and "np \<equiv> length (pt_of_segments (ph_segs phs @ [stack_seg]))"
    and "p \<equiv> argv_addr USERSTACK args 0"
  assumes fits: "card (all_pages A s) + np \<le> n" "pt_frames np < card (free_frames s)"
    and cpo: "copyout_laws E n (insert a A) a cpo"
  shows "\<exists>t m. runprogramWithArgs cpo E (map Some args0) s = Ret (Inr \<lparr>um_argc = length args, um_argv = of_nat p,
      um_stackptr = of_nat (p div 8 * 8), um_entry = e_entry eh\<rparr>, map Some args, t) \<and>
    running E n (insert a A) a t \<and> view E t a m \<and>
    (\<forall>j\<le>length args. bytes_at m (argv_addr USERSTACK args j) (be32 (arg_ptr USERSTACK args j))) \<and>
    (\<forall>j<length args. bytes_at m (arg_addr USERSTACK args j) (cstr (args ! j))) \<and>
    pages_kept E (all_pages A s) s t"
proof -
  from load_program_ok [OF st, folded a_def np_def] obtain s1 f where
    l: "load_program E (hd args0) s = Ret (Inr (e_entry eh, USERSTACK), prog', s1)" "vm_inv E n (insert a A) s1"
      "proc_getas s1 = Some a" "as_segment (aspaces s1 a) = ph_segs phs @ [stack_seg]"
      "ptabs s1 a = pt_of_segments (ph_segs phs @ [stack_seg])"
      "free_frames s1 = free_frames s - {f..<f + pt_frames np}"
      "\<forall>b\<in>A. ptabs s1 b = ptabs s b \<and> (\<forall>k. content E s1 b k = content E s b k)"
    by (elim exE conjE) (rule that)
  have aA: "a \<notin> A" and so: "segs_ok (ph_segs phs @ [stack_seg])" using st by (auto simp: startable_def a_def)
  have "all_fit E n (insert a A) a s1"
    by (rule fresh_all_fit [OF A aA _ w _ l(6) fits(2)]) (use l(5,7) fits(1) in \<open>simp_all add: np_def\<close>)
  then have run: "running E n (insert a A) a s1" using l(2,3) by (simp add: running_def)
  have us: "unat USERSTACK = 0x80000000" by (simp add: USERSTACK_def)
  have free: "stack_free {x. usable E s1 a x} (unat USERSTACK - args_size args) (unat USERSTACK)"
    unfolding stack_free_def us
  proof (intro allI impI)
    fix x assume x: "0x80000000 - args_size args \<le> x" "x < (0x80000000 :: nat)"
    then have "unat (of_nat x :: w32) = x" by (intro unat_of_nat32) simp
    moreover have "0x7FFEE000 \<le> x" using x(1) args(3) by linarith
    ultimately show "of_nat x \<in> {x. usable E s1 a x}" using stack_usable [OF l(5,4), of "of_nat x" E] x(2) by simp
  qed
  have "args_size args \<le> unat USERSTACK" using args(3) us by simp
  moreover have "running E n (insert a A) a s1 \<and> view E s1 a (\<lambda>_. 0) \<and> others_kept E (insert a A) a s1 s1 \<and>
      (\<forall>x. usable E s1 a x = usable E s1 a x)" by (simp add: run fresh_view [OF l(5) so] others_kept_refl)
  ultimately have "\<exists>t m. runprogramWithArgs cpo E (map Some args0) s = Ret (Inr \<lparr>um_argc = length args, um_argv = of_nat p,
      um_stackptr = of_nat (p div 8 * 8), um_entry = e_entry eh\<rparr>, map Some args, t) \<and>
      (running E n (insert a A) a t \<and> view E t a m \<and> others_kept E (insert a A) a s1 t \<and> (\<forall>x. usable E t a x = usable E s1 a x)) \<and>
      (\<forall>j\<le>length args. bytes_at m (argv_addr USERSTACK args j) (be32 (arg_ptr USERSTACK args j))) \<and>
      (\<forall>j<length args. bytes_at m (arg_addr USERSTACK args j) (cstr (args ! j)))"
    unfolding p_def by (rule args_pushed [OF l(1) args(1,2) copyout_copies [OF cpo] free])
  then obtain t m where t: "runprogramWithArgs cpo E (map Some args0) s = Ret (Inr \<lparr>um_argc = length args, um_argv = of_nat p,
      um_stackptr = of_nat (p div 8 * 8), um_entry = e_entry eh\<rparr>, map Some args, t)"
    "running E n (insert a A) a t" "view E t a m" "others_kept E (insert a A) a s1 t"
    "\<forall>j\<le>length args. bytes_at m (argv_addr USERSTACK args j) (be32 (arg_ptr USERSTACK args j))"
    "\<forall>j<length args. bytes_at m (arg_addr USERSTACK args j) (cstr (args ! j))" by (elim exE conjE) (rule that)
  have "pages_kept E (all_pages A s1) s1 t" using t(4) aA by (simp add: others_kept_def)
  moreover have "all_pages A s1 = all_pages A s" using l(7) by (auto simp: all_pages_def)
  ultimately have "pages_kept E (all_pages A s) s t"
    using l(7) by (auto simp: pages_kept_def all_pages_def)
  with t show ?thesis by blast
qed

end
