(* ===== verification/Sim_Threads.thy ===== *)
theory Sim_Threads
  imports Thread_System Sim_Vm
begin


text \<open>
  A machine with two CPUs and five threads on the concrete machine: thread 0 runs on the first CPU,
  threads 1 to 4 wait there, and the second CPU idles.
\<close>

definition sim_threads :: "(sim_tlb, sim_disk, sim_bitmap, nat) thr_st" where
  "sim_threads = (sim_boot 4 [] (as_st_ext (\<lambda>_. sim_as []) 1
     (core_st_ext [] 0 0 0x20000 0x20000 True 0 (thr_st_ext 5 (\<lambda>_. None) (replicate 1024 0) None ()))))
     \<lparr>allcpus := [sim_cpu\<lparr>c_runqueue := [1, 2, 3, 4]\<rparr>, sim_cpu\<lparr>c_number := 1, c_isidle := True\<rparr>]\<rparr>"

lemma sim_threads_fields [simp]:
  "allcpus sim_threads = [sim_cpu\<lparr>c_runqueue := [1, 2, 3, 4]\<rparr>, sim_cpu\<lparr>c_number := 1, c_isidle := True\<rparr>]"
  "curcpu sim_threads = 0" "curthread sim_threads = 0" "threads sim_threads t = sim_thread" "curcpu_exists sim_threads"
  "next_thread sim_threads = 5" "stack_block sim_threads = replicate 1024 0" "kmem sim_threads = replicate 20 True"
  "kheap sim_threads = 0" "procs sim_threads p = sim_proc"
  by (simp_all add: sim_threads_def sim_boot_def)

lemma sim_threads_cpu [simp]: "cur_cpu sim_threads = sim_cpu\<lparr>c_runqueue := [1, 2, 3, 4]\<rparr>"
  by (simp add: cur_cpu_def)

lemma sim_threads_stats [simp]: "stats_ok sim_threads"
  by (simp add: sim_threads_def sim_boot_def stats_ok_def STATS_TOT_def)

lemma sim_threads_ok:
  "rr_ok sim_threads" "home_ok sim_threads" "distinct (all_queued sim_threads)" "sched_ok sim_threads"
  by (auto simp: rr_ok_def run_order_def sched_ok_def home_ok_def all_queued_def queue_of_def guard_ok_def
      less_Suc_eq sim_cpu_def sim_thread_def)

end
