(* ===== verification/Sim_Kern.thy ===== *)
theory Sim_Kern
  imports Syscall_Correct Proc_Correct Sim_Threads
begin


text \<open>
  The whole kernel on the concrete machine: the operations outside the repository, and a process
  with a page of text and a page of stack that makes system calls.
\<close>

abbreviation sim_elf :: "Elf_Ehdr" where
  "sim_elf \<equiv> \<lparr>e_ident = elf_magic, e_type = ET_EXEC, e_machine = EM_MACHINE, e_version = EV_CURRENT,
     e_entry = 0x400000, e_phoff = 52, e_phentsize = 32, e_phnum = 0\<rparr>"

abbreviation sim_phdr :: "Elf_Phdr" where
  "sim_phdr \<equiv> \<lparr>p_type = PT_NULL, p_offset = 0, p_vaddr = 0, p_filesz = 0, p_memsz = 0, p_flags = 0\<rparr>"

definition sim_sysno :: "w32 \<Rightarrow> sysno option" where
  "sim_sysno w = (if w = 3 then Some SYS__exit else if w = 4 then Some SYS_waitpid else if w = 50 then Some SYS_read
     else if w = 55 then Some SYS_write else None)"

abbreviation sim_kern_ops :: "bool \<Rightarrow> nat \<Rightarrow> (sim_tlb, sim_disk, sim_bitmap) kern_ops" where
  "sim_kern_ops file n \<equiv> sim_opsx n (vm_ops_ext (\<lambda>name d. (None, 2, name, d)) (\<lambda>v d. d) (\<lambda>n d. (0, d))
     (elf_ops_ext 52 (\<lambda>_. sim_elf) 32 (\<lambda>_. sim_phdr)
       (kern_ops_ext 8 file False (\<lambda>_. 1) sim_sysno (\<lambda>_. None) 2 ())))"

lemma sim_kern_ops_simps [simp]:
  "vfs_open (sim_kern_ops f n) name d = (None, 2, name, d)" "vfs_close (sim_kern_ops f n) v d = d"
  "ram_stealmem (sim_kern_ops f n) k d = (0, d)" "sysno_of (sim_kern_ops f n) = sim_sysno"
  "open_max (sim_kern_ops f n) = 8" "opt_file (sim_kern_ops f n) = f" "\<not> opt_fork (sim_kern_ops f n)"
  "errno_num (sim_kern_ops f n) e = 1" "sizeof_ehdr (sim_kern_ops f n) = 52" "ehdr_of (sim_kern_ops f n) bs = sim_elf"
  "sizeof_phdr (sim_kern_ops f n) = 32" "phdr_of (sim_kern_ops f n) bs = sim_phdr"
  by (simp_all add: sim_opsx_def)

text \<open>Functions of other parts of the kernel that do nothing.\<close>

definition sim_ext :: "'s kern_ext" where
  "sim_ext = \<lparr>cpu_idle_of = id, kmalloc_block = (\<lambda>_. hd sim_pt), sys_time = (\<lambda>_ _ s. Ret (None, s)),
     vfs_openu = (\<lambda>_ _ _ s. Ret (None, 2, s)), copyin = (\<lambda>_ n s. Ret (None, replicate n 0, s)),
     copyout = (\<lambda>_ _ s. Ret (None, s)), vfs_do = (\<lambda>_ s. (None, [], s)), mainbus_stop = (\<lambda>_ _. Diverges),
     swapoff_of = (\<lambda>_. None), run_other = (\<lambda>_ _ s. Ret (None, s)), strerror = (\<lambda>_. []), gettime = (\<lambda>_. (0, 0))\<rparr>"

definition sim_kern :: "byte list \<Rightarrow> (sim_tlb, sim_disk, sim_bitmap) kern_st" where
  "sim_kern inp = core_st.extend (sim_vm [] sim_pt) (thr_st_ext 1 (\<lambda>_. None) (replicate 1024 0) None
     (kern_st_ext (\<lambda>_. replicate 8 None) (replicate 80 \<lparr>of_vn = None, of_offset = 0, countRef = 0\<rparr>) [] inp ()))"

lemma sim_kern_truncate: "core_st.truncate (sim_kern inp) = core_st.truncate (sim_vm [] sim_pt)"
  by (simp add: sim_kern_def core_st.truncate_def core_st.extend_def)

lemma sim_kern_fields [simp]: "console (sim_kern inp) = []" "con_in (sim_kern inp) = inp"
  "fileTable (sim_kern inp) p = replicate 8 None"
  "systemFileTable (sim_kern inp) = replicate 80 \<lparr>of_vn = None, of_offset = 0, countRef = 0\<rparr>"
  by (simp_all add: sim_kern_def core_st.extend_def)

lemma sim_vm_running: "running (sim_opsx 4 x) 4 {0} 0 (sim_vm [] sim_pt)"
proof -
  have "all_pages {0} (sim_vm [] sim_pt) = {(0, 0), (0, 1)}"
    by (auto simp: all_pages_def sim_pt_def less_Suc_eq)
  then show ?thesis
    using sim_vm_inv [of x] sim_writes_ok by (simp add: running_def all_fit_def sim_frame_def)
qed

lemma sim_vm_view: "view (sim_opsx 4 x) (sim_vm [] sim_pt) 0 (\<lambda>_. 0)"
proof -
  have m: "physmem (sim_vm ss pt) = (\<lambda>_. 0)" for ss pt by (simp add: sim_vm_def)
  have "bs ! k = 0" if "j < 2" "page_bytes (sim_opsx 4 x) (sim_vm [] sim_pt) 0 j = Some bs" "k < 4096" for j bs k
    using that by (auto simp: less_2_cases_iff page_bytes_def content_def sim_pt_def m nth_mem_read split: if_splits)
  moreover have "length (ptabs (sim_vm [] sim_pt) 0) = 2" by (simp add: sim_pt_def)
  ultimately show ?thesis unfolding view_def by auto
qed

lemma sim_vm_usable:
  assumes "va AND PAGE_FRAME \<in> {0x400000, 0x7FFFF000}"
  shows "usable (sim_opsx 4 x) (sim_vm [] sim_pt) 0 va"
proof -
  have st: "stack_page (sim_vm [] sim_pt) 0 1" by (simp add: stack_page_def sim_pt_def)
  show ?thesis unfolding usable_def
    using assms st by (intro exI [of _ "if va AND PAGE_FRAME = 0x7FFFF000 then 1 else 0"])
      (auto simp: sim_pt_def readonly_def content_def)
qed

lemmas sim_kern_running = running_cong(1) [OF sim_kern_truncate, THEN iffD2, OF sim_vm_running]
  running_cong(2) [OF sim_kern_truncate, THEN iffD2, OF sim_vm_view]

lemma sim_kern_usable: "va AND PAGE_FRAME \<in> {0x400000, 0x7FFFF000} \<Longrightarrow> usable (sim_opsx 4 x) (sim_kern inp) 0 va"
  unfolding running_cong(3) [OF sim_kern_truncate] by (rule sim_vm_usable)

lemma sim_kern_spl: "spl_ok (sim_kern inp)"
  using truncate_fields(1,4) [OF sim_kern_truncate [of inp]] by (simp add: spl_ok_def sim_vm_def sim_thread_def)

definition sim_tf :: "w32 \<Rightarrow> w32 \<Rightarrow> w32 \<Rightarrow> w32 \<Rightarrow> trapframe" where
  "sim_tf v0 a0 a1 a2 = \<lparr>tf_v0 = v0, tf_a0 = a0, tf_a1 = a1, tf_a2 = a2, tf_a3 = 0, tf_sp = 0x7FFFFFF0, tf_epc = 0x400100\<rparr>"

lemma sim_page_usable:
  "\<forall>i<unat (3 :: w32). usable (sim_opsx 4 x) (sim_kern inp) 0 (0x7FFFF120 + of_nat i)"
proof (intro allI impI)
  fix i assume "i < unat (3 :: w32)"
  then have "i < 3" by simp
  then have "i = 0 \<or> i = 1 \<or> i = 2" by linarith
  then have "(0x7FFFF120 + of_nat i :: w32) AND PAGE_FRAME = 0x7FFFF000" by (auto simp: PAGE_FRAME_def)
  then show "usable (sim_opsx 4 x) (sim_kern inp) 0 (0x7FFFF120 + of_nat i)" by (simp add: sim_kern_usable)
qed

lemma upt3: "[0..<unat (3 :: w32)] = [0, 1, 2]"
  by (simp add: upt_rec)

section \<open>A parent and its child\<close>

text \<open>
  The child is process 1 with thread 0, which runs; its parent is the kernel process 0 with thread 1,
  which waits on the semaphore of the child. The child's address space is the one of \<open>sim_dying\<close>.
\<close>

definition sim_wait_sem :: semaphore where
  "sim_wait_sem = \<lparr>sem_name = ''p'', sem_wchan = \<lparr>wc_name = ''p'', wc_threads = [1]\<rparr>, sem_count = 0\<rparr>"

definition sim_child :: "(sim_tlb, sim_disk, sim_bitmap) core_st" where
  "sim_child = sim_dying
     \<lparr>threads := (\<lambda>t. sim_thread\<lparr>t_proc := Some (if t = 0 then 1 else 0)\<rparr>),
      procs := (\<lambda>p. if p = 1 then sim_proc\<lparr>p_sem := Some sim_wait_sem\<rparr> else sim_proc\<lparr>p_addrspace := None\<rparr>)\<rparr>"

lemma sim_child_fields [simp]:
  "threads sim_child t = sim_thread\<lparr>t_proc := Some (if t = 0 then 1 else 0)\<rparr>" "curthread sim_child = 0"
  "allcpus sim_child = [sim_cpu]" "curcpu sim_child = 0" "curcpu_exists sim_child" "kproc sim_child = Some 0"
  "procs sim_child p = (if p = 1 then sim_proc\<lparr>p_sem := Some sim_wait_sem\<rparr> else sim_proc\<lparr>p_addrspace := None\<rparr>)"
  by (simp_all add: sim_child_def sim_dying_def sim_vm_def) (simp add: sim_boot_def)

lemma sim_child_cpu [simp]: "cur_cpu sim_child = sim_cpu" by (simp add: cur_cpu_def)

lemma sim_child_store: "same_store sim_dying sim_child"
  by (simp add: same_store_def sim_child_def)

lemma sim_child_inv: "vm_inv (sim_vm_ops 4) 4 {0} sim_child"
proof (rule vm_inv_other_thread [OF sim_child_store sim_dying_inv(1)])
  show "can_lock sim_child" by (simp add: can_lock_def sched_ok_def in_interrupt_def sim_cpu_def sim_thread_def)
  show "stats_ok sim_child" using vm_invD(3) [OF sim_dying_inv(1)] by (simp add: sim_child_def stats_ok_def)
  have w: "tlb_wf (sim_vm_ops 4) sim_child = tlb_wf (sim_vm_ops 4) (sim_vm [] sim_pt)"
    "tlb_lookup (sim_vm_ops 4) sim_child = tlb_lookup (sim_vm_ops 4) (sim_vm [] sim_pt)"
    by (rule tlb_cong; simp add: sim_child_def sim_dying_def)+
  then show "tlb_wf (sim_vm_ops 4) sim_child" by simp
  show "coherent (tlb_lookup (sim_vm_ops 4) sim_child) (ptabs sim_child a)" for a
    unfolding w(2) by (simp add: coherent_def)
qed

section \<open>A program that does not exist\<close>

text \<open>The operations with a file system on which no file opens, and a process without address space.\<close>

abbreviation sim_nofile_ops :: "(sim_tlb, sim_disk, sim_bitmap) kern_ops" where
  "sim_nofile_ops \<equiv> sim_opsx 4 (vm_ops_ext (\<lambda>name d. (Some ENOENT, 0, name, d)) (\<lambda>v d. d) (\<lambda>n d. (0, d))
     (elf_ops_ext 52 (\<lambda>_. sim_elf) 32 (\<lambda>_. sim_phdr)
       (kern_ops_ext 8 False False (\<lambda>_. 1) sim_sysno (\<lambda>_. None) 2 ())))"

lemma sim_nofile_open: "vfs_open sim_nofile_ops name d = (Some ENOENT, 0, name, d)"
  by (simp add: sim_opsx_def)

definition sim_prog :: "(sim_tlb, sim_disk, sim_bitmap) kern_st" where
  "sim_prog = (sim_kern [])\<lparr>allcpus := [sim_cpu\<lparr>c_runqueue := [2]\<rparr>],
     procs := (\<lambda>p. sim_proc\<lparr>p_addrspace := None, p_sem := Some sim_wait_sem\<rparr>)\<rparr>"

lemma sim_prog_fields [simp]: "allcpus sim_prog = [sim_cpu\<lparr>c_runqueue := [2]\<rparr>]" "curcpu sim_prog = 0"
  "procs sim_prog p = sim_proc\<lparr>p_addrspace := None, p_sem := Some sim_wait_sem\<rparr>" "threads sim_prog t = sim_thread"
  "kmem sim_prog = True # replicate 19 True" "curcpu_exists sim_prog" "stats_ok sim_prog"
  using truncate_fields [OF sim_kern_truncate [of "[]"]]
  by (simp_all add: sim_prog_def sim_vm_def stats_ok_def STATS_TOT_def) (simp_all add: sim_boot_def numeral_eq_Suc)

lemma sim_prog_cpu [simp]: "cur_cpu sim_prog = sim_cpu\<lparr>c_runqueue := [2]\<rparr>" by (simp add: cur_cpu_def)

end
