(* ===== verification/Sim_Program.thy ===== *)
theory Sim_Program
  imports Runprogram_Correct Sim_Kern
begin


text \<open>A program started on the concrete machine, from its file to its first instruction.\<close>

section \<open>A program on the concrete machine\<close>

text \<open>A \<open>copyout\<close> that stores byte after byte, as the program would.\<close>

fun sim_copyout ::
  "('h, 'd, 'b, 'x) os_ops_scheme \<Rightarrow> byte list \<Rightarrow> vaddr_t \<Rightarrow> ('h, 'd, 'b, 'a) core_st_scheme \<Rightarrow>
     (kerr \<times> ('h, 'd, 'b, 'a) core_st_scheme) kres" where
  "sim_copyout E [] va s = Ret (None, s)"
| "sim_copyout E (b # bs) va s = kbind (store_bytes E va [b] s) (sim_copyout E bs (va + 1))"

lemma sim_copyout_ok:
  assumes "running E n A a s" "view E s a m" "\<forall>k<length bs. usable E s a (va + of_nat k)" "length bs < 2 ^ 32"
  shows "\<exists>t. sim_copyout E bs va s = Ret (None, t) \<and> running E n A a t \<and> view E t a (mem_write va bs m) \<and>
    others_kept E A a s t \<and> (\<forall>x. usable E t a x = usable E s a x)"
  using assms
proof (induction bs arbitrary: va s m)
  case Nil
  then show ?case using others_kept_refl by (intro exI [of _ s]) (simp add: mem_write_def)
next
  case (Cons b bs)
  have "usable E s a va" using Cons.prems(3) [rule_format, of 0] by simp
  from store_byte_ok [OF Cons.prems(1) this Cons.prems(2), of b] obtain s1 where
    s1: "store_bytes E va [b] s = Ret s1" "running E n A a s1" "view E s1 a (m(va := b))" "others_kept E A a s s1"
      "\<forall>x. usable E s1 a x = usable E s a x" by (elim exE conjE) (rule that)
  have us: "\<forall>k<length bs. usable E s1 a (va + 1 + of_nat k)"
  proof (intro allI impI)
    fix k assume "k < length bs"
    then show "usable E s1 a (va + 1 + of_nat k)"
      using Cons.prems(3) [rule_format, of "Suc k"] s1(5) by (simp add: algebra_simps)
  qed
  have l: "length bs < 2 ^ 32" using Cons.prems(4) by simp
  from Cons.IH [OF s1(2,3) us l] obtain t where
    t: "sim_copyout E bs (va + 1) s1 = Ret (None, t)" "running E n A a t" "view E t a (mem_write (va + 1) bs (m(va := b)))"
      "others_kept E A a s1 t" "\<forall>x. usable E t a x = usable E s1 a x" by (elim exE conjE) (rule that)
  show ?case
    using s1(1,5) t others_kept_trans [OF s1(4) t(4)] mem_write_Cons [OF l, of va b m]
    by (intro exI [of _ t]) simp
qed

lemma sim_copyout_laws: "copyout_laws E n A a (sim_copyout E)"
  unfolding copyout_laws_def using sim_copyout_ok by blast

text \<open>
  An executable with one page of text, and a process without address space on a machine with three free
  frames and a swap file of 32 pages. Opening a file cuts its name at the colon behind the device.
\<close>

definition sim_run_elf :: Elf_Ehdr where
  "sim_run_elf = sim_elf\<lparr>e_phnum := 1\<rparr>"

definition sim_run_phdr :: Elf_Phdr where
  "sim_run_phdr = \<lparr>p_type = PT_LOAD, p_offset = 0x1000, p_vaddr = 0x400000, p_filesz = 0x1000, p_memsz = 0x1000, p_flags = 7\<rparr>"

abbreviation sim_run_ops :: "(sim_tlb, sim_disk, sim_bitmap) kern_ops" where
  "sim_run_ops \<equiv> sim_opsx 32 (vm_ops_ext (\<lambda>name d. (None, 2, takeWhile (\<lambda>c. c \<noteq> CHR '':'') name, d)) (\<lambda>v d. d) (\<lambda>n d. (0, d))
     (elf_ops_ext 52 (\<lambda>_. sim_run_elf) 32 (\<lambda>_. sim_run_phdr)
       (kern_ops_ext 8 False False (\<lambda>_. 1) sim_sysno (\<lambda>_. None) 2 ())))"

lemma sim_run_ops_simps:
  "vfs_open sim_run_ops name d = (None, 2, takeWhile (\<lambda>c. c \<noteq> CHR '':'') name, d)" "sizeof_ehdr sim_run_ops = 52" "ehdr_of sim_run_ops bs = sim_run_elf"
  "sizeof_phdr sim_run_ops = 32" "phdr_of sim_run_ops bs = sim_run_phdr" "vop_read sim_run_ops v off k d = sim_read v off k d"
  by (simp_all add: sim_opsx_def)

definition sim_start :: "(sim_tlb, sim_disk, sim_bitmap) core_st" where
  "sim_start = (sim_boot 32 [] (as_st_ext (\<lambda>_. sim_as []) 1
     (core_st_ext (replicate 3 \<lparr>c_vaddr = 0, c_as = None, allocpages = 0\<rparr>) 3 0 0x20000 0x23000 True 0 ())))
     \<lparr>procs := (\<lambda>_. sim_proc\<lparr>p_addrspace := None\<rparr>)\<rparr>"

lemma sim_start_fields [simp]:
  "coremap sim_start = replicate 3 \<lparr>c_vaddr = 0, c_as = None, allocpages = 0\<rparr>" "coremapSize sim_start = 3"
  "firstpaddr sim_start = 0x20000" "next_as sim_start = 1" "kmem sim_start = replicate 20 True" "curthread sim_start = 0"
  "threads sim_start = (\<lambda>_. sim_thread)" "procs sim_start = (\<lambda>_. sim_proc\<lparr>p_addrspace := None\<rparr>)" "disk sim_start = (\<lambda>_ _. 0)"
  by (simp_all add: sim_start_def) (simp_all add: sim_boot_def)

lemma sim_start_free: "core_ok sim_start" "free_frames sim_start = {..<3}" "unat (getAvailableRam sim_start) = 3"
  by (auto simp: core_ok_def free_frames_def CUSED_def CRES_def getAvailableRam_def sim_start_def sim_boot_def)

lemma sim_start_inv: "vm_inv sim_run_ops 32 {} sim_start"
proof -
  let ?b = "sim_boot 32 [] ()"
  have w: "tlb_wf sim_run_ops sim_start = tlb_wf sim_run_ops ?b" by (rule tlb_cong) (simp_all add: sim_start_def)
  have q: "swap_inv sim_run_ops 32 sim_start = swap_inv sim_run_ops 32 ?b" "slot_bytes sim_run_ops sim_start = slot_bytes sim_run_ops ?b"
    by (rule swap_inv_cong; simp add: sim_start_def sim_boot_def)+
  have o: "can_lock sim_start = can_lock ?b" "stats_ok sim_start = stats_ok ?b"
    by (rule can_lock_cong stats_ok_cong; simp add: sim_start_def sim_boot_def)+
  have "swap_inv sim_run_ops 32 ?b" by (rule sim_boot_swap_inv) simp_all
  then show ?thesis unfolding vm_invH_def w q o using sim_start_free(1) by (simp add: mm_ok_empty sw_ok_def)
qed

lemma sim_run_segs: "ph_segs [sim_run_phdr] @ [stack_seg] =
  [\<lparr>seg_start = 0x400000, seg_size = 0x1000, seg_filesize = 0x1000, seg_npages = 1, seg_rwx = 7, seg_offset = 0x1000, initoffset = 0\<rparr>,
   \<lparr>seg_start = 0x7FFEE000, seg_size = 0x12000, seg_filesize = 0x12000, seg_npages = 18, seg_rwx = 6, seg_offset = 0, initoffset = 0\<rparr>]"
  by (simp add: sim_run_phdr_def ph_segs_def ph_region_def stack_seg_def region_def Let_def STACKPAGES_def USERSTACK_def
      PAGE_SIZE_def PAGE_FRAME_def PF_R_def PF_W_def PF_X_def)

lemma sim_run_pages: "length (pt_of_segments (ph_segs [sim_run_phdr] @ [stack_seg])) = 19"
  unfolding sim_run_segs by (simp add: pt_of_segments_def)

lemma sim_startable: "startable sim_run_ops 32 {} prog (takeWhile (\<lambda>c. c \<noteq> CHR '':'') prog) 2 sim_run_elf [sim_run_phdr] sim_start"
proof -
  have "elf_file sim_run_ops 2 (disk sim_start) sim_run_elf [sim_run_phdr]"
  proof -
    have "elf_header_ok sim_run_elf" "e_phnum sim_run_elf = 1" "p_type sim_run_phdr = PT_LOAD"
      by (simp_all add: sim_run_elf_def sim_run_phdr_def elf_header_ok_def elf_magic_def)
    then show ?thesis by (simp add: elf_file_def header_at_def sim_run_ops_simps sim_read_def)
  qed
  moreover have "segs_ok (ph_segs [sim_run_phdr] @ [stack_seg])"
    unfolding sim_run_segs by (simp add: seg_ok_def seg_end_def)
  moreover have "length (ph_segs [sim_run_phdr]) = 1" by (simp add: ph_segs_def sim_run_phdr_def)
  then have "kmem sim_start = replicate 7 True @ replicate (length (ph_segs [sim_run_phdr])) True @ True # replicate 11 True"
    by (simp add: numeral_eq_Suc)
  moreover have "\<exists>g. {g..<g + pt_frames 19} \<subseteq> free_frames sim_start" "pt_frames 19 < unat (getAvailableRam sim_start)"
    unfolding sim_start_free by (intro exI [of _ 0]) (simp_all add: pt_frames_def)
  moreover have "proc_getas sim_start = None" "curproc sim_start \<noteq> None"
    by (simp_all add: proc_getas_def curproc_def sim_thread_def)
  ultimately show ?thesis
    unfolding startable_def sim_run_pages Let_def using sim_start_inv by (auto simp: sim_run_ops_simps)
qed

end
