(* ===== verification/Files_Correct.thy ===== *)
theory Files_Correct
  imports File_Syscalls
begin


text \<open>
  Open files (\<open>kern/syscall/file_syscalls.c\<close>): the reference counts of the system table agree with the tables of
  the processes.
\<close>

section \<open>Reference counts\<close>

definition fd_refs :: "nat set \<Rightarrow> ('h, 'd, 'b, 'a) kern_st_scheme \<Rightarrow> nat \<Rightarrow> (nat \<times> nat) set" where
  "fd_refs P s k = {(p, fd). p \<in> P \<and> fd < length (fileTable s p) \<and> fileTable s p ! fd = Some k}"

text \<open>
  \<open>files_ok E P s\<close>: for the processes \<open>P\<close>, every descriptor in use refers to an entry of the system table that is
  in use, and each such entry counts the descriptors that refer to it.
\<close>

definition files_ok ::
  "('h, 'd, 'b, 'x) kern_ops_scheme \<Rightarrow> nat set \<Rightarrow> ('h, 'd, 'b, 'a) kern_st_scheme \<Rightarrow> bool" where
  "files_ok E P s \<longleftrightarrow> finite P \<and> length (systemFileTable s) = SYSTEM_OPEN_MAX E \<and>
     (\<forall>p\<in>P. length (fileTable s p) = open_max E) \<and>
     (\<forall>k. fd_refs P s k \<noteq> {} \<longrightarrow> k < SYSTEM_OPEN_MAX E \<and> of_vn (systemFileTable s ! k) \<noteq> None) \<and>
     (\<forall>k<SYSTEM_OPEN_MAX E. of_vn (systemFileTable s ! k) \<noteq> None \<longrightarrow>
        fd_refs P s k \<noteq> {} \<and> unat (countRef (systemFileTable s ! k)) = card (fd_refs P s k))"

lemma files_okD:
  assumes "files_ok E P s"
  shows "finite P" "length (systemFileTable s) = SYSTEM_OPEN_MAX E" "\<And>p. p \<in> P \<Longrightarrow> length (fileTable s p) = open_max E"
    "\<And>k. fd_refs P s k \<noteq> {} \<Longrightarrow> k < SYSTEM_OPEN_MAX E \<and> of_vn (systemFileTable s ! k) \<noteq> None"
    "\<And>k. k < SYSTEM_OPEN_MAX E \<Longrightarrow> of_vn (systemFileTable s ! k) \<noteq> None \<Longrightarrow>
      fd_refs P s k \<noteq> {} \<and> unat (countRef (systemFileTable s ! k)) = card (fd_refs P s k)"
  using assms by (simp_all add: files_ok_def)

lemma finite_fd_refs: "finite P \<Longrightarrow> finite (fd_refs P s k)"
  by (rule finite_subset [of _ "SIGMA p:P. {..<length (fileTable s p)}"]) (auto simp: fd_refs_def)

lemma fd_refs_cong: "fileTable t = fileTable s \<Longrightarrow> fd_refs P t k = fd_refs P s k"
  by (simp add: fd_refs_def)

lemma fd_refs_upd:
  assumes "p \<in> P" "fd < length (fileTable s p)"
  shows "fd_refs P (upd_fd p fd x s) k = (if x = Some k then insert (p, fd) (fd_refs P s k) else fd_refs P s k - {(p, fd)})"
  using assms by (auto simp: fd_refs_def upd_fd_def nth_list_update split: if_splits)

section \<open>Opening a file\<close>

text \<open>The free entries of the system table, and the free descriptors of a process above the standard ones.\<close>

definition free_file :: "('h, 'd, 'b, 'x) kern_ops_scheme \<Rightarrow> ('h, 'd, 'b, 'a) kern_st_scheme \<Rightarrow> nat \<Rightarrow> bool" where
  "free_file E s k \<longleftrightarrow> k < SYSTEM_OPEN_MAX E \<and> of_vn (systemFileTable s ! k) = None"

definition free_fd :: "('h, 'd, 'b, 'x) kern_ops_scheme \<Rightarrow> nat \<Rightarrow> ('h, 'd, 'b, 'a) kern_st_scheme \<Rightarrow> nat \<Rightarrow> bool" where
  "free_fd E p s fd \<longleftrightarrow> 3 \<le> fd \<and> fd < open_max E \<and> fileTable s p ! fd = None"

definition opened_file :: "nat \<Rightarrow> openfile" where
  "opened_file v = \<lparr>of_vn = Some v, of_offset = 0, countRef = 1\<rparr>"

lemma first_free_file:
  "first_idx (\<lambda>i. of_vn (systemFileTable s ! i) = None) 0 (SYSTEM_OPEN_MAX E) = Some k \<longleftrightarrow>
     free_file E s k \<and> (\<forall>j<k. \<not> free_file E s j)"
  "first_idx (\<lambda>i. of_vn (systemFileTable s ! i) = None) 0 (SYSTEM_OPEN_MAX E) = None \<longleftrightarrow> (\<forall>j. \<not> free_file E s j)"
  by (auto simp: first_idx_Some_iff first_idx_None_iff free_file_def)

lemma first_free_fd:
  "first_idx (\<lambda>fd. fileTable s p ! fd = None) 3 (open_max E - 3) = Some fd \<longleftrightarrow>
     free_fd E p s fd \<and> (\<forall>j<fd. \<not> free_fd E p s j)"
  "first_idx (\<lambda>fd. fileTable s p ! fd = None) 3 (open_max E - 3) = None \<longleftrightarrow> (\<forall>j. \<not> free_fd E p s j)"
  by (auto simp: first_idx_Some_iff first_idx_None_iff free_fd_def)

lemma ex_first: "\<exists>k :: nat. P k \<Longrightarrow> \<exists>k. P k \<and> (\<forall>j<k. \<not> P j)"
  using exists_least_iff by blast

lemma files_ok_open:
  assumes ok: "files_ok E P s" and p: "p \<in> P" and i: "free_file E s i" and fd: "free_fd E p s fd"
    and t: "fileTable t = (fileTable s)(p := (fileTable s p)[fd := Some i])"
      "systemFileTable t = (systemFileTable s)[i := opened_file v]"
  shows "files_ok E P t"
proof -
  note D = files_okD [OF ok]
  have il: "i < length (systemFileTable s)" "of_vn (systemFileTable s ! i) = None" using i D(2) by (simp_all add: free_file_def)
  then have ri: "fd_refs P s i = {}" using D(4) by blast
  have bl: "fd < length (fileTable s p)" using fd D(3) [OF p] by (simp add: free_fd_def)
  have refs: "fd_refs P t k = (if k = i then {(p, fd)} else fd_refs P s k)" for k
  proof -
    have "(p, fd) \<notin> fd_refs P s k" using fd by (simp add: fd_refs_def free_fd_def)
    moreover have "fd_refs P t k = fd_refs P (upd_fd p fd (Some i) s) k" by (rule fd_refs_cong) (simp add: t upd_fd_def)
    ultimately show ?thesis using fd_refs_upd [OF p bl, of "Some i" k] ri by auto
  qed
  show ?thesis
    unfolding files_ok_def refs t(2) using D il by (auto simp: t(1) nth_list_update opened_file_def)
qed

lemma not_files_ok_open:
  assumes ok: "files_ok E P s" and i: "free_file E s i"
    and t: "fileTable t = fileTable s" "systemFileTable t = (systemFileTable s)[i := opened_file v]"
  shows "\<not> files_ok E P t"
proof -
  note D = files_okD [OF ok]
  have il: "i < length (systemFileTable s)" "of_vn (systemFileTable s ! i) = None" using i D(2) by (simp_all add: free_file_def)
  then have "fd_refs P s i = {}" using D(4) by blast
  then have "fd_refs P t i = {}" using fd_refs_cong [OF t(1)] by simp
  moreover have "of_vn (systemFileTable t ! i) \<noteq> None" using il by (simp add: t opened_file_def)
  ultimately show ?thesis using files_okD(5) [of E P t i] i by (auto simp: free_file_def)
qed

text \<open>
  The three ways \<open>sys_open\<close> ends on a file that opens: without a free entry in the system table, without a free
  descriptor, and with the first one of each.
\<close>

lemma sys_open_cases:
  assumes ok: "files_ok E P s" and p: "curproc s = Some p" "p \<in> P"
    and v: "vfs_openu X path flags mode s = Ret (None, v, s1)" "fileTable s1 = fileTable s"
      "systemFileTable s1 = systemFileTable s" "curproc s1 = Some p"
  shows "\<forall>k. \<not> free_file E s k \<Longrightarrow> \<exists>t. sys_open X E path flags mode s = Ret (-1, Some ENFILE, t) \<and> files_ok E P t \<and>
      fileTable t = fileTable s \<and> systemFileTable t = systemFileTable s"
    and "\<exists>k. free_file E s k \<Longrightarrow> \<forall>fd. \<not> free_fd E p s fd \<Longrightarrow>
      \<exists>k t. sys_open X E path flags mode s = Ret (-1, Some EMFILE, t) \<and> free_file E s k \<and> \<not> files_ok E P t \<and>
        fileTable t = fileTable s \<and> systemFileTable t = (systemFileTable s)[k := opened_file v]"
    and "\<exists>k. free_file E s k \<Longrightarrow> \<exists>fd. free_fd E p s fd \<Longrightarrow>
      \<exists>k fd t. sys_open X E path flags mode s = Ret (int fd, None, t) \<and> free_file E s k \<and> (\<forall>j<k. \<not> free_file E s j) \<and>
        free_fd E p s fd \<and> (\<forall>j<fd. \<not> free_fd E p s j) \<and> files_ok E P t \<and>
        fileTable t = (fileTable s)(p := (fileTable s p)[fd := Some k]) \<and>
        systemFileTable t = (systemFileTable s)[k := opened_file v]"
proof -
  have cong: "free_file E s1 k = free_file E s k" for k using v(3) by (simp add: free_file_def)
  show "\<exists>t. sys_open X E path flags mode s = Ret (-1, Some ENFILE, t) \<and> files_ok E P t \<and>
      fileTable t = fileTable s \<and> systemFileTable t = systemFileTable s" if n: "\<forall>k. \<not> free_file E s k"
  proof -
    have "sys_open X E path flags mode s = Ret (-1, Some ENFILE, s1\<lparr>disk := vfs_close E v (disk s1)\<rparr>)"
      using v(1) first_free_file(2) [of s1 E] n by (simp add: sys_open_def cong)
    then show ?thesis using ok v(2,3) by (simp add: files_ok_def fd_refs_def)
  qed
  have open_at: "sys_open X E path flags mode s =
      (case first_idx (\<lambda>fd. fileTable s p ! fd = None) 3 (open_max E - 3) of
        Some fd \<Rightarrow> Ret (int fd, None, upd_fd p fd (Some k) (upd_file k (\<lambda>x. opened_file v) s1))
      | None \<Rightarrow> Ret (-1, Some EMFILE, upd_file k (\<lambda>x. opened_file v) s1\<lparr>disk := vfs_close E v (disk s1)\<rparr>))"
    if k: "free_file E s k \<and> (\<forall>j<k. \<not> free_file E s j)" for k
  proof -
    have "first_idx (\<lambda>i. of_vn (systemFileTable s1 ! i) = None) 0 (SYSTEM_OPEN_MAX E) = Some k"
      unfolding first_free_file(1) using k by (simp add: cong)
    then show ?thesis
      using v by (simp add: sys_open_def opened_file_def upd_file_def curproc_def Let_def split: option.split)
  qed
  assume "\<exists>k. free_file E s k"
  from ex_first [OF this] obtain k where k: "free_file E s k \<and> (\<forall>j<k. \<not> free_file E s j)" by (elim exE) (rule that)
  note o = open_at [OF k]
  show "\<exists>k t. sys_open X E path flags mode s = Ret (-1, Some EMFILE, t) \<and> free_file E s k \<and> \<not> files_ok E P t \<and>
      fileTable t = fileTable s \<and> systemFileTable t = (systemFileTable s)[k := opened_file v]"
    if "\<forall>fd. \<not> free_fd E p s fd"
  proof -
    let ?t = "upd_file k (\<lambda>x. opened_file v) s1\<lparr>disk := vfs_close E v (disk s1)\<rparr>"
    have "sys_open X E path flags mode s = Ret (-1, Some EMFILE, ?t)" using o that by (simp add: first_free_fd(2) [THEN iffD2])
    moreover have t: "fileTable ?t = fileTable s" "systemFileTable ?t = (systemFileTable s)[k := opened_file v]"
      using v(2,3) by (simp_all add: upd_file_def)
    moreover have "\<not> files_ok E P ?t" by (rule not_files_ok_open [OF ok _ t]) (use k in simp)
    ultimately show ?thesis using k by (intro exI [of _ k] exI [of _ ?t]) simp
  qed
  show "\<exists>k fd t. sys_open X E path flags mode s = Ret (int fd, None, t) \<and> free_file E s k \<and> (\<forall>j<k. \<not> free_file E s j) \<and>
      free_fd E p s fd \<and> (\<forall>j<fd. \<not> free_fd E p s j) \<and> files_ok E P t \<and>
      fileTable t = (fileTable s)(p := (fileTable s p)[fd := Some k]) \<and>
      systemFileTable t = (systemFileTable s)[k := opened_file v]"
    if ex: "\<exists>fd. free_fd E p s fd"
  proof -
    obtain fd where fd: "free_fd E p s fd \<and> (\<forall>j<fd. \<not> free_fd E p s j)" using ex_first [OF ex] by (elim exE) (rule that)
    let ?t = "upd_fd p fd (Some k) (upd_file k (\<lambda>x. opened_file v) s1)"
    have "sys_open X E path flags mode s = Ret (int fd, None, ?t)" using o fd by (simp add: first_free_fd(1) [THEN iffD2])
    moreover have t: "fileTable ?t = (fileTable s)(p := (fileTable s p)[fd := Some k])"
      "systemFileTable ?t = (systemFileTable s)[k := opened_file v]"
      using v(2,3) by (simp_all add: upd_file_def upd_fd_def)
    moreover have "files_ok E P ?t" by (rule files_ok_open [OF ok p(2) _ _ t]) (use k fd in simp_all)
    ultimately show ?thesis using k fd by (intro exI [of _ k] exI [of _ fd] exI [of _ ?t]) simp
  qed
qed

section \<open>Closing a file\<close>

lemma descriptor_entry:
  assumes ok: "files_ok E P s" and p: "p \<in> P" "fd < length (fileTable s p)" "fileTable s p ! fd = Some k"
  shows "k < length (systemFileTable s)" "of_vn (systemFileTable s ! k) \<noteq> None"
    "unat (countRef (systemFileTable s ! k) - 1) = card (fd_refs P s k) - 1"
    "card (fd_refs P s k - {(p, fd)}) = card (fd_refs P s k) - 1"
    "countRef (systemFileTable s ! k) - 1 = 0 \<longleftrightarrow> fd_refs P s k = {(p, fd)}"
    "fd_refs P (upd_fd p fd None s) j = (if j = k then fd_refs P s k - {(p, fd)} else fd_refs P s j)"
proof -
  note D = files_okD [OF ok]
  have in_k: "(p, fd) \<in> fd_refs P s k" using p by (simp add: fd_refs_def)
  have K: "k < SYSTEM_OPEN_MAX E" "of_vn (systemFileTable s ! k) \<noteq> None" using D(4) [of k] in_k by auto
  show "k < length (systemFileTable s)" "of_vn (systemFileTable s ! k) \<noteq> None" using K D(2) by simp_all
  have c: "unat (countRef (systemFileTable s ! k)) = card (fd_refs P s k)" using D(5) [OF K] by simp
  have pos: "0 < card (fd_refs P s k)" using in_k finite_fd_refs [OF D(1)] card_gt_0_iff by blast
  show u: "unat (countRef (systemFileTable s ! k) - 1) = card (fd_refs P s k) - 1"
    using c pos unat_minus_one [of "countRef (systemFileTable s ! k)"] by (metis less_irrefl unat_0)
  show "card (fd_refs P s k - {(p, fd)}) = card (fd_refs P s k) - 1" using in_k finite_fd_refs [OF D(1)] by simp
  have "countRef (systemFileTable s ! k) - 1 = 0 \<longleftrightarrow> card (fd_refs P s k) = 1"
    using u pos by (metis One_nat_def Suc_pred diff_is_0_eq' order_refl unat_eq_zero)
  also have "\<dots> \<longleftrightarrow> fd_refs P s k = {(p, fd)}" using in_k by (auto simp: card_1_singleton_iff)
  finally show "countRef (systemFileTable s ! k) - 1 = 0 \<longleftrightarrow> fd_refs P s k = {(p, fd)}" .
  have "(p, fd) \<notin> fd_refs P s j" if "j \<noteq> k" using that p(3) by (simp add: fd_refs_def)
  then show "fd_refs P (upd_fd p fd None s) j = (if j = k then fd_refs P s k - {(p, fd)} else fd_refs P s j)"
    using fd_refs_upd [OF p(1,2), of None j] by auto
qed

lemma files_ok_close:
  assumes ok: "files_ok E P s" and p: "p \<in> P" "fd < length (fileTable s p)" "fileTable s p ! fd = Some k"
    and t: "fileTable t = fileTable (upd_fd p fd None s)" "systemFileTable t = (systemFileTable s)[k := y]"
    and y: "of_vn y = None \<longleftrightarrow> fd_refs P s k = {(p, fd)}"
      "fd_refs P s k \<noteq> {(p, fd)} \<Longrightarrow> unat (countRef y) = card (fd_refs P s k - {(p, fd)})"
  shows "files_ok E P t"
proof -
  note D = files_okD [OF ok] and K = descriptor_entry [OF ok p]
  have refs: "fd_refs P t j = (if j = k then fd_refs P s k - {(p, fd)} else fd_refs P s j)" for j
    using K(6) fd_refs_cong [OF t(1)] by simp
  have in_k: "(p, fd) \<in> fd_refs P s k" using p by (simp add: fd_refs_def)
  have "length (fileTable t q) = open_max E" if "q \<in> P" for q using D(3) [OF that] by (auto simp: t upd_fd_def)
  then show ?thesis
    unfolding files_ok_def
  proof (intro conjI allI impI ballI)
    fix j
    show "j < SYSTEM_OPEN_MAX E" "of_vn (systemFileTable t ! j) \<noteq> None" if "fd_refs P t j \<noteq> {}"
      using that refs D(2,4) K(1) y(1) by (auto simp: t nth_list_update split: if_splits)
    assume j: "j < SYSTEM_OPEN_MAX E" "of_vn (systemFileTable t ! j) \<noteq> None"
    then have "of_vn (systemFileTable s ! j) \<noteq> None" if "j \<noteq> k" using that K(1) by (simp add: t)
    then show "fd_refs P t j \<noteq> {}" "unat (countRef (systemFileTable t ! j)) = card (fd_refs P t j)"
      using j refs D(2,5) K(1) y in_k by (auto simp: t split: if_splits)
  qed (use D(1,2) in \<open>simp_all add: t\<close>)
qed

lemma sys_close_cases:
  assumes ok: "files_ok E P s" and p: "curproc s = Some p" "p \<in> P"
  shows "fd < 0 \<or> int (open_max E) < fd \<Longrightarrow> sys_close E fd s = Ret (-1, s)"
    and "0 \<le> fd \<Longrightarrow> fd < int (open_max E) \<Longrightarrow> fileTable s p ! nat fd = None \<Longrightarrow> sys_close E fd s = Ret (-1, s)"
    and "0 \<le> fd \<Longrightarrow> fd < int (open_max E) \<Longrightarrow> fileTable s p ! nat fd = Some k \<Longrightarrow>
      \<exists>t. sys_close E fd s = Ret (0, t) \<and> files_ok E P t \<and> fileTable t = (fileTable s)(p := (fileTable s p)[nat fd := None]) \<and>
        (of_vn (systemFileTable t ! k) = None \<longleftrightarrow> fd_refs P s k = {(p, nat fd)}) \<and>
        (\<forall>j. j \<noteq> k \<longrightarrow> systemFileTable t ! j = systemFileTable s ! j)"
proof -
  have L: "length (fileTable s p) = open_max E" by (rule files_okD(3) [OF ok p(2)])
  show "sys_close E fd s = Ret (-1, s)" if "fd < 0 \<or> int (open_max E) < fd" using that by (auto simp: sys_close_def fd_entry_def)
  assume b: "0 \<le> fd" "fd < int (open_max E)"
  have ent: "fd_entry E fd s = Ret (map_option (Pair p) (fileTable s p ! nat fd))" using b p(1) L by (simp add: fd_entry_def)
  show "sys_close E fd s = Ret (-1, s)" if "fileTable s p ! nat fd = None" using that ent by (simp add: sys_close_def)
  assume fk: "fileTable s p ! nat fd = Some k"
  then have k: "nat fd < length (fileTable s p)" "fileTable s p ! nat fd = Some k" using b L by auto
  note K = descriptor_entry [OF ok p(2) k]
  let ?x = "systemFileTable s ! k"
  let ?y = "if fd_refs P s k = {(p, nat fd)} then ?x\<lparr>countRef := countRef ?x - 1, of_vn := None\<rparr> else ?x\<lparr>countRef := countRef ?x - 1\<rparr>"
  have "\<exists>t. sys_close E fd s = Ret (0, t) \<and> fileTable t = fileTable (upd_fd p (nat fd) None s) \<and> systemFileTable t = (systemFileTable s)[k := ?y]"
    using ent fk K(1,2,5) word_gt_0 [of "countRef ?x - 1"]
    by (auto simp: sys_close_def upd_file_def upd_fd_def Let_def)
  then obtain t where t: "sys_close E fd s = Ret (0, t)" "fileTable t = fileTable (upd_fd p (nat fd) None s)"
    "systemFileTable t = (systemFileTable s)[k := ?y]" by blast
  have y: "of_vn ?y = None \<longleftrightarrow> fd_refs P s k = {(p, nat fd)}"
    "fd_refs P s k \<noteq> {(p, nat fd)} \<Longrightarrow> unat (countRef ?y) = card (fd_refs P s k - {(p, nat fd)})"
    using K(2-4) by simp_all
  have "files_ok E P t" by (rule files_ok_close [OF ok p(2) k t(2,3) y])
  then show "\<exists>t. sys_close E fd s = Ret (0, t) \<and> files_ok E P t \<and> fileTable t = (fileTable s)(p := (fileTable s p)[nat fd := None]) \<and>
      (of_vn (systemFileTable t ! k) = None \<longleftrightarrow> fd_refs P s k = {(p, nat fd)}) \<and>
      (\<forall>j. j \<noteq> k \<longrightarrow> systemFileTable t ! j = systemFileTable s ! j)"
    using t y(1) K(1) by (intro exI [of _ t]) (simp add: upd_fd_def del: split_paired_All)
qed

section \<open>Copying the table of a process\<close>

lemma card_fd_refs:
  assumes "files_ok E P s"
  shows "card (fd_refs P s k) \<le> card P * open_max E"
proof -
  have "fd_refs P s k \<subseteq> P \<times> {..<open_max E}" using files_okD(3) [OF assms] by (auto simp: fd_refs_def)
  then show ?thesis using card_mono [of "P \<times> {..<open_max E}"] files_okD(1) [OF assms] by (simp add: card_cartesian_product)
qed

text \<open>One more descriptor for an open file.\<close>

lemma files_ok_dup:
  assumes ok: "files_ok E P s" and p: "p \<in> P" "fd < length (fileTable s p)" "fileTable s p ! fd = None"
    and k: "fd_refs P s k \<noteq> {}" and b: "card P * open_max E < 2 ^ 32"
  shows "files_ok E P (openfileIncrRefCount (Some k) (upd_fd p fd (Some k) s))" (is "files_ok E P ?t")
proof -
  note D = files_okD [OF ok]
  have K: "k < SYSTEM_OPEN_MAX E" "of_vn (systemFileTable s ! k) \<noteq> None" using D(4) [OF k] by simp_all
  have new: "(p, fd) \<notin> fd_refs P s j" for j using p(3) by (simp add: fd_refs_def)
  have refs: "fd_refs P ?t j = (if j = k then insert (p, fd) (fd_refs P s k) else fd_refs P s j)" for j
    using fd_refs_upd [OF p(1,2), of "Some k" j] new [of j]
    by (auto simp: openfileIncrRefCount_def fd_refs_def)
  have st: "systemFileTable ?t = (systemFileTable s)
      [k := (systemFileTable s ! k)\<lparr>countRef := countRef (systemFileTable s ! k) + 1\<rparr>]"
    by (simp add: openfileIncrRefCount_def upd_fd_def)
  have cd: "card (insert (p, fd) (fd_refs P s k)) = card (fd_refs P s k) + 1"
    by (simp add: new finite_fd_refs [OF D(1)])
  have len: "length (fileTable ?t q) = open_max E" if "q \<in> P" for q
    using D(3) [OF that] by (auto simp: openfileIncrRefCount_def upd_fd_def)
  have "card (insert (p, fd) (fd_refs P s k)) \<le> card P * open_max E"
  proof -
    have "insert (p, fd) (fd_refs P s k) \<subseteq> P \<times> {..<open_max E}" using D(3) p by (auto simp: fd_refs_def)
    then show ?thesis using card_mono [of "P \<times> {..<open_max E}"] D(1) by (simp add: card_cartesian_product)
  qed
  then have u: "unat (countRef (systemFileTable s ! k) + 1) = card (fd_refs P s k) + 1"
    using D(5) [OF K] b cd by (simp add: unat_word_ariths)
  show ?thesis
    unfolding files_ok_def st
  proof (intro conjI allI impI ballI)
    fix j
    show "j < SYSTEM_OPEN_MAX E" if "fd_refs P ?t j \<noteq> {}" using that refs D(4) K(1) by (auto split: if_splits)
    show "of_vn ((systemFileTable s)[k := (systemFileTable s ! k)\<lparr>countRef := countRef (systemFileTable s ! k) + 1\<rparr>] ! j) \<noteq> None"
      if "fd_refs P ?t j \<noteq> {}" using that refs D(2,4) K by (auto simp: nth_list_update split: if_splits)
    assume j: "j < SYSTEM_OPEN_MAX E"
      "of_vn ((systemFileTable s)[k := (systemFileTable s ! k)\<lparr>countRef := countRef (systemFileTable s ! k) + 1\<rparr>] ! j) \<noteq> None"
    then have "of_vn (systemFileTable s ! j) \<noteq> None" if "j \<noteq> k" using that by simp
    then show "fd_refs P ?t j \<noteq> {}" "unat (countRef ((systemFileTable s)
        [k := (systemFileTable s ! k)\<lparr>countRef := countRef (systemFileTable s ! k) + 1\<rparr>] ! j)) = card (fd_refs P ?t j)"
      using j(1) refs D(2) D(5) [of j] u cd by (auto split: if_splits)
  qed (use D(1,2) len in simp_all)
qed

lemma proc_file_table_copy_ok:
  assumes P: "src \<in> P" "dst \<in> P" "src \<noteq> dst" and b: "card P * open_max E < 2 ^ 32"
  shows "files_ok E P s \<Longrightarrow> fd + n = open_max E \<Longrightarrow> (\<forall>i. fd \<le> i \<and> i < fd + n \<longrightarrow> fileTable s dst ! i = None) \<Longrightarrow>
    files_ok E P (proc_file_table_copy src dst fd n s) \<and>
    fileTable (proc_file_table_copy src dst fd n s) =
      (fileTable s)(dst := take fd (fileTable s dst) @ drop fd (fileTable s src))"
proof (induction n arbitrary: fd s)
  case 0
  have "length (fileTable s dst) = open_max E" "length (fileTable s src) = open_max E"
    using files_okD(3) [OF 0(1)] P(1,2) by simp_all
  then show ?case using 0 by (simp add: fun_eq_iff)
next
  case (Suc n)
  note D = files_okD [OF Suc.prems(1)]
  have l: "length (fileTable s dst) = open_max E" "length (fileTable s src) = open_max E" using D(3) P(1,2) by simp_all
  have fd: "fd < length (fileTable s dst)" "fd < length (fileTable s src)" using Suc.prems(2) l by simp_all
  have none: "fileTable s dst ! fd = None" using Suc.prems(3) by simp
  define f where "f = fileTable s src ! fd"
  define s1 where "s1 = openfileIncrRefCount f (upd_fd dst fd f s)"
  have ft: "fileTable s1 = (fileTable s)(dst := (fileTable s dst)[fd := f])"
    by (cases f) (simp_all add: s1_def openfileIncrRefCount_def upd_fd_def)
  have ok1: "files_ok E P s1"
  proof (cases f)
    case None
    have "(fileTable s dst)[fd := None] = fileTable s dst" using none by (metis list_update_id)
    then have "s1 = s" using None by (simp add: s1_def openfileIncrRefCount_def upd_fd_def)
    then show ?thesis using Suc.prems(1) by simp
  next
    case (Some k)
    then have "(src, fd) \<in> fd_refs P s k" using P(1) fd(2) by (simp add: fd_refs_def f_def)
    then show ?thesis unfolding s1_def Some by (intro files_ok_dup [OF Suc.prems(1) P(2) fd(1) none _ b]) blast
  qed
  have "\<forall>i. Suc fd \<le> i \<and> i < Suc fd + n \<longrightarrow> fileTable s1 dst ! i = None" using Suc.prems(3) ft by simp
  moreover have "Suc fd + n = open_max E" using Suc.prems(2) by simp
  ultimately have IH: "files_ok E P (proc_file_table_copy src dst (Suc fd) n s1)"
    "fileTable (proc_file_table_copy src dst (Suc fd) n s1) =
      (fileTable s1)(dst := take (Suc fd) (fileTable s1 dst) @ drop (Suc fd) (fileTable s1 src))" using Suc.IH [OF ok1] by blast+
  have eq: "proc_file_table_copy src dst fd (Suc n) s = proc_file_table_copy src dst (Suc fd) n s1"
    by (simp add: s1_def f_def upd_fd_def Let_def)
  have "take (Suc fd) ((fileTable s dst)[fd := f]) @ drop (Suc fd) (fileTable s src) =
      take fd (fileTable s dst) @ drop fd (fileTable s src)"
    using fd by (simp add: take_Suc_conv_app_nth f_def Cons_nth_drop_Suc)
  then have "fileTable (proc_file_table_copy src dst (Suc fd) n s1) =
      (fileTable s)(dst := take fd (fileTable s dst) @ drop fd (fileTable s src))" unfolding IH(2) ft using P(3) by (simp add: fun_eq_iff)
  then show ?case unfolding eq using IH(1) by blast
qed

text \<open>Copying an empty table drops the descriptors of the destination and leaves the counts.\<close>

lemma proc_file_table_copy_empty:
  assumes "src \<noteq> dst" "\<forall>i<fd + n. fileTable s src ! i = None"
  shows "systemFileTable (proc_file_table_copy src dst fd n s) = systemFileTable s \<and>
    (\<forall>q. q \<noteq> dst \<longrightarrow> fileTable (proc_file_table_copy src dst fd n s) q = fileTable s q) \<and>
    length (fileTable (proc_file_table_copy src dst fd n s) dst) = length (fileTable s dst) \<and>
    (\<forall>i. fd \<le> i \<and> i < fd + n \<and> i < length (fileTable s dst) \<longrightarrow> fileTable (proc_file_table_copy src dst fd n s) dst ! i = None) \<and>
    (\<forall>i<fd. fileTable (proc_file_table_copy src dst fd n s) dst ! i = fileTable s dst ! i)"
  using assms
proof (induction n arbitrary: fd s)
  case (Suc n)
  let ?s1 = "upd_fd dst fd None s"
  have f: "fileTable s src ! fd = None" using Suc.prems(2) by simp
  have eq: "proc_file_table_copy src dst fd (Suc n) s = proc_file_table_copy src dst (Suc fd) n ?s1"
    using f by (simp add: upd_fd_def openfileIncrRefCount_def)
  have "\<forall>i<Suc fd + n. fileTable ?s1 src ! i = None" using Suc.prems by (simp add: upd_fd_def)
  note IH = Suc.IH [OF Suc.prems(1) this]
  show ?case
    unfolding eq
  proof (intro conjI allI impI)
    fix i assume i: "fd \<le> i \<and> i < fd + Suc n \<and> i < length (fileTable s dst)"
    show "fileTable (proc_file_table_copy src dst (Suc fd) n ?s1) dst ! i = None"
    proof (cases "i = fd")
      case True
      then have "fileTable (proc_file_table_copy src dst (Suc fd) n ?s1) dst ! i = fileTable ?s1 dst ! i" using IH by simp
      then show ?thesis using True i by (simp add: upd_fd_def)
    next
      case False
      then show ?thesis using IH i by (simp add: upd_fd_def)
    qed
  qed (use IH in \<open>simp_all add: upd_fd_def\<close>)
qed auto

text \<open>
  So \<open>sys_fork\<close>, which copies the empty table of the child to the parent, breaks the counts of a parent with
  open files.
\<close>

lemma empty_copy_breaks_counts:
  assumes ok: "files_ok E P s" and P: "src \<in> P" "dst \<in> P" "src \<noteq> dst" and e: "\<forall>i<open_max E. fileTable s src ! i = None"
    and k: "fd < open_max E" "fileTable s dst ! fd = Some k"
  defines "t \<equiv> proc_file_table_copy src dst 0 (open_max E) s"
  shows "\<forall>i<open_max E. fileTable t dst ! i = None" "\<not> files_ok E P t"
proof -
  note D = files_okD [OF ok]
  have l: "length (fileTable s dst) = open_max E" using D(3) P(2) by simp
  have "\<forall>i<0 + open_max E. fileTable s src ! i = None" using e by simp
  note C = proc_file_table_copy_empty [OF P(3) this, folded t_def]
  show none: "\<forall>i<open_max E. fileTable t dst ! i = None" using C l by simp
  have in_k: "(dst, fd) \<in> fd_refs P s k" using P(2) k l by (simp add: fd_refs_def)
  then have K: "k < SYSTEM_OPEN_MAX E" "of_vn (systemFileTable s ! k) \<noteq> None" using D(4) [of k] by auto
  have "fd_refs P t k \<subset> fd_refs P s k"
  proof
    show "fd_refs P t k \<subseteq> fd_refs P s k"
    proof
      fix x assume "x \<in> fd_refs P t k"
      then obtain q i where x: "x = (q, i)" "q \<in> P" "i < length (fileTable t q)" "fileTable t q ! i = Some k"
        by (auto simp: fd_refs_def)
      then have "q \<noteq> dst" using none C l by auto
      then show "x \<in> fd_refs P s k" using x C by (simp add: fd_refs_def)
    qed
    have "(dst, fd) \<notin> fd_refs P t k" using none k(1) by (simp add: fd_refs_def)
    then show "fd_refs P t k \<noteq> fd_refs P s k" using in_k by blast
  qed
  then have "card (fd_refs P t k) < card (fd_refs P s k)" by (rule psubset_card_mono [OF finite_fd_refs [OF D(1)]])
  then show "\<not> files_ok E P t" using D(5) [OF K] files_okD(5) [of E P t k] K C by auto
qed

end
