(* ===== verification/Menu_Correct.thy ===== *)
theory Menu_Correct
  imports Kern_Menu
begin


text \<open>
  The command lines of the menu: \<open>menu_execute\<close> and \<open>cmd_dispatch\<close> take them apart with \<open>strtok_r\<close>; the
  specification splits a line into blocks by recursion on its characters.
\<close>

section \<open>Blocks of characters\<close>

text \<open>
  The maximal blocks of characters that are no delimiters: \<open>w\<close> is the block that is being read.
\<close>

fun blocks :: "(char \<Rightarrow> bool) \<Rightarrow> string \<Rightarrow> string \<Rightarrow> string list" where
  "blocks D w [] = (if w = [] then [] else [w])"
| "blocks D w (c # cs) =
     (if D c then (if w = [] then [] else [w]) @ blocks D [] cs else blocks D (w @ [c]) cs)"

lemma blocks_concat: "concat (blocks D w cs) = w @ filter (\<lambda>c. \<not> D c) cs"
  by (induction D w cs rule: blocks.induct) auto

lemma blocks_nonempty: "[] \<notin> set (blocks D w cs)"
  by (induction D w cs rule: blocks.induct) auto

lemma blocks_skip: "blocks D [] cs = blocks D [] (dropWhile D cs)"
  by (induction cs) auto

lemma blocks_take:
  "blocks D w cs =
    (if w @ takeWhile (\<lambda>c. \<not> D c) cs = [] then [] else [w @ takeWhile (\<lambda>c. \<not> D c) cs]) @
    blocks D [] (drop 1 (dropWhile (\<lambda>c. \<not> D c) cs))"
  by (induction cs arbitrary: w) auto

lemma strtok_r_blocks:
  "blocks (\<lambda>c. c \<in> set ds) [] cs =
    (case strtok_r ds cs of None \<Rightarrow> [] | Some (w, rest) \<Rightarrow> w # blocks (\<lambda>c. c \<in> set ds) [] rest)"
proof -
  let ?D = "\<lambda>c. c \<in> set ds"
  let ?r = "dropWhile ?D cs"
  have w: "blocks ?D [] cs = blocks ?D [] ?r" by (rule blocks_skip)
  show ?thesis
  proof (cases ?r)
    case Nil
    show ?thesis unfolding strtok_r_def w Nil Let_def by simp
  next
    case (Cons c cs')
    then have "\<not> ?D c" using hd_dropWhile [of ?D cs] by auto
    then have t: "takeWhile (\<lambda>c. \<not> ?D c) ?r \<noteq> []" using Cons by simp
    have s: "strtok_r ds cs = Some (takeWhile (\<lambda>c. \<not> ?D c) ?r, drop 1 (dropWhile (\<lambda>c. \<not> ?D c) ?r))"
      using Cons unfolding strtok_r_def Let_def by simp
    show ?thesis unfolding w s blocks_take [of ?D "[]" ?r] using t by simp
  qed
qed

section \<open>Words and commands\<close>

definition words_of :: "string \<Rightarrow> string list" where
  "words_of cmd = blocks (\<lambda>c. c \<in> set [CHR '' '', tab_char]) [] cmd"

definition commands_of :: "string \<Rightarrow> string list" where
  "commands_of line = blocks (\<lambda>c. c \<in> set '';'') [] line"

lemma split_args_acc:
  "split_args cmd args =
    (if length args + length (words_of cmd) \<le> MAXMENUARGS \<or> words_of cmd = [] then Some (args @ words_of cmd) else None)"
proof (induction cmd args rule: split_args.induct)
  case (1 cmd args)
  show ?case
  proof (cases "strtok_r [CHR '' '', tab_char] cmd")
    case None
    then have "words_of cmd = []" using strtok_r_blocks [of "[CHR '' '', tab_char]" cmd] by (simp add: words_of_def)
    then show ?thesis using None by (simp add: split_args.simps [of cmd])
  next
    case (Some wr)
    obtain w rest where wr: "wr = (w, rest)" by (cases wr)
    have ws: "words_of cmd = w # words_of rest"
      using strtok_r_blocks [of "[CHR '' '', tab_char]" cmd] Some wr unfolding words_of_def by simp
    show ?thesis
    proof (cases "length args \<ge> MAXMENUARGS")
      case True
      then show ?thesis using Some wr ws by (simp add: split_args.simps [of cmd])
    next
      case False
      have "split_args cmd args = split_args rest (args @ [w])" using Some wr False by (simp add: split_args.simps [of cmd])
      also have "\<dots> = (if length (args @ [w]) + length (words_of rest) \<le> MAXMENUARGS \<or> words_of rest = []
          then Some ((args @ [w]) @ words_of rest) else None)"
        using "1.IH" [OF Some wr [symmetric]] False by simp
      finally show ?thesis using ws False by auto
    qed
  qed
qed

text \<open>A command given by its words, and a line given by its commands.\<close>

definition dispatch_words ::
  "('h, 'd, 'b, 'a) kern_st_scheme kern_ext \<Rightarrow> ('h, 'd, 'b, 'x) kern_ops_scheme \<Rightarrow> string list \<Rightarrow>
     ('h, 'd, 'b, 'a) kern_st_scheme \<Rightarrow> (kerr \<times> ('h, 'd, 'b, 'a) kern_st_scheme) kres" where
  "dispatch_words X E ws s =
     (if ws = [] then Ret (None, s)
      else if length ws > MAXMENUARGS then Ret (Some E2BIG, kprintf (''Command line has too many words'' @ newline) s)
      else case map_of cmdtable (hd ws) of
          None \<Rightarrow> Ret (Some EINVAL, kprintf (hd ws @ '': Command not found'' @ newline) s)
        | Some c \<Rightarrow>
            kbind (run_command X E c ws s) (\<lambda>(result, s1).
            Ret (result, kprintf (took (timespec_sub (gettime X s1) (gettime X s))) s1)))"

fun run_commands ::
  "('h, 'd, 'b, 'a) kern_st_scheme kern_ext \<Rightarrow> ('h, 'd, 'b, 'x) kern_ops_scheme \<Rightarrow> bool \<Rightarrow> string list \<Rightarrow>
     ('h, 'd, 'b, 'a) kern_st_scheme \<Rightarrow> ('h, 'd, 'b, 'a) kern_st_scheme kres" where
  "run_commands X E isargs [] s = Ret s"
| "run_commands X E isargs (cmd # cmds) s =
     kbind (dispatch_words X E (words_of cmd) (if isargs then kprintf (''OS/161 kernel: '' @ cmd @ newline) s else s))
      (\<lambda>(result, s2). case result of
         None \<Rightarrow> run_commands X E isargs cmds s2
       | Some e \<Rightarrow>
           if isargs then Panic ''Failure processing kernel arguments''
           else run_commands X E isargs cmds (kprintf (''Menu command failed: '' @ strerror X e @ newline) s2))"

lemma cmd_dispatch_words: "cmd_dispatch X E cmd s = dispatch_words X E (words_of cmd) s"
  by (cases "words_of cmd") (auto simp: cmd_dispatch_def dispatch_words_def split_args_acc split: option.split)

lemma menu_execute_commands: "menu_execute X E line isargs s = run_commands X E isargs (commands_of line) s"
proof (induction X E line isargs s rule: menu_execute.induct)
  case (1 X E line isargs s)
  show ?case
  proof (cases "strtok_r '';'' line")
    case None
    then have "commands_of line = []" using strtok_r_blocks [of "'';''" line] unfolding commands_of_def by simp
    then show ?thesis using None by (simp add: menu_execute.simps [of X E line])
  next
    case (Some wr)
    obtain cmd rest where wr: "wr = (cmd, rest)" by (cases wr)
    have cs: "commands_of line = cmd # commands_of rest"
      using strtok_r_blocks [of "'';''" line] Some wr unfolding commands_of_def by simp
    let ?s1 = "if isargs then kprintf (''OS/161 kernel: '' @ cmd @ newline) s else s"
    note IH = "1.IH" [OF Some wr [symmetric] refl]
    have "menu_execute X E line isargs s = kbind (cmd_dispatch X E cmd ?s1) (\<lambda>(result, s2). case result of
        None \<Rightarrow> run_commands X E isargs (commands_of rest) s2
      | Some e \<Rightarrow> if isargs then Panic ''Failure processing kernel arguments''
          else run_commands X E isargs (commands_of rest) (kprintf (''Menu command failed: '' @ strerror X e @ newline) s2))"
      using Some wr IH by (simp add: menu_execute.simps [of X E line] Let_def cong: option.case_cong)
    then show ?thesis unfolding cs run_commands.simps cmd_dispatch_words .
  qed
qed

end
