(* ===== verification/Pid_Table.thy ===== *)
theory Pid_Table
  imports Proc
begin


text \<open>
  The table of processes (\<open>kern/proc/proc.c\<close>): the search for a free pid ends and finds one, and the table
  stays well formed as processes come and go.
\<close>

section \<open>The table of pids\<close>

text \<open>
  \<open>ptab_ok\<close>: the table has a slot for every pid up to \<open>MAX_PROC\<close>, slot 0 stays empty, each entry is an
  existing process whose pid is its index, and before the first process there is none in the table.
\<close>

definition ptab_ok :: "'a procs_st_scheme \<Rightarrow> bool" where
  "ptab_ok s \<longleftrightarrow> length (ptab_proc s) = MAX_PROC + 1 \<and> ptab_last_i s \<le> MAX_PROC \<and> ptab_proc s ! 0 = None \<and>
     (\<forall>i p. i \<le> MAX_PROC \<longrightarrow> ptab_proc s ! i = Some p \<longrightarrow> p < next_proc s \<and> p_pid (procs s p) = i) \<and>
     (ptab_last_i s = 0 \<longrightarrow> (\<forall>i\<le>MAX_PROC. ptab_proc s ! i = None))"

text \<open>The slots the search still has to look at when it is at \<open>i\<close>.\<close>

definition pid_arc :: "nat \<Rightarrow> nat \<Rightarrow> nat set" where
  "pid_arc last_i i = (if i \<le> last_i then {i..<last_i} else {i..MAX_PROC} \<union> {1..<last_i})"

lemma pid_arc_step:
  assumes "1 \<le> last_i" "last_i \<le> MAX_PROC" "1 \<le> i" "i \<le> MAX_PROC" "i \<noteq> last_i"
  shows "pid_arc last_i i = insert i (pid_arc last_i (ptab_next i))" "i \<notin> pid_arc last_i (ptab_next i)"
  using assms by (auto simp: pid_arc_def ptab_next_def)

lemma finite_pid_arc: "finite (pid_arc l i)" by (simp add: pid_arc_def)

lemma pid_search_spec:
  assumes "1 \<le> last_i" "last_i \<le> MAX_PROC" "1 \<le> i" "i \<le> MAX_PROC"
  shows "\<exists>r. pid_search tab last_i i = Some r \<and> (case r of
      None \<Rightarrow> \<forall>j\<in>pid_arc last_i i. tab ! j \<noteq> None
    | Some j \<Rightarrow> j \<in> pid_arc last_i i \<and> tab ! j = None)"
  using assms(3,4)
proof (induction "card (pid_arc last_i i)" arbitrary: i rule: less_induct)
  case less
  show ?case
  proof (cases "i = last_i")
    case True
    then show ?thesis by (simp add: pid_search.simps pid_arc_def)
  next
    case False
    note A = pid_arc_step [OF assms(1,2) less.prems False]
    show ?thesis
    proof (cases "tab ! i = None")
      case True
      then show ?thesis using False A(1) by (simp add: pid_search.simps)
    next
      case some: False
      have n: "1 \<le> ptab_next i" "ptab_next i \<le> MAX_PROC" using less.prems by (simp_all add: ptab_next_def MAX_PROC_def)
      have "card (pid_arc last_i (ptab_next i)) < card (pid_arc last_i i)"
        unfolding A(1) using A(2) finite_pid_arc by simp
      from less.hyps [OF this n] obtain r where
        r: "pid_search tab last_i (ptab_next i) = Some r" "case r of
            None \<Rightarrow> \<forall>j\<in>pid_arc last_i (ptab_next i). tab ! j \<noteq> None
          | Some j \<Rightarrow> j \<in> pid_arc last_i (ptab_next i) \<and> tab ! j = None" by blast
      have "pid_search tab last_i i = Some r" using False some r(1) by (subst pid_search.simps) auto
      then show ?thesis using r(2) some A(1) by (intro exI [of _ r]) (auto split: option.splits)
    qed
  qed
qed

text \<open>In a table that obeys the invariant the search ends, with a free slot unless only the last one is free.\<close>

lemma pid_search_ok:
  assumes "ptab_ok s"
  shows "(\<exists>i. pid_search (ptab_proc s) (ptab_last_i s) (ptab_next (ptab_last_i s)) = Some (Some i) \<and>
      1 \<le> i \<and> i \<le> MAX_PROC \<and> i \<noteq> ptab_last_i s \<and> ptab_proc s ! i = None) \<or>
    pid_search (ptab_proc s) (ptab_last_i s) (ptab_next (ptab_last_i s)) = Some None \<and>
      (\<forall>i. 1 \<le> i \<and> i \<le> MAX_PROC \<and> i \<noteq> ptab_last_i s \<longrightarrow> ptab_proc s ! i \<noteq> None)"
proof (cases "ptab_last_i s = 0")
  case True
  then have "ptab_proc s ! 1 = None" using assms by (simp add: ptab_ok_def MAX_PROC_def)
  then show ?thesis using True by (simp add: pid_search.simps ptab_next_def MAX_PROC_def)
next
  case False
  let ?l = "ptab_last_i s"
  have l: "1 \<le> ?l" "?l \<le> MAX_PROC" using False assms by (simp_all add: ptab_ok_def)
  have n: "1 \<le> ptab_next ?l" "ptab_next ?l \<le> MAX_PROC" using l by (simp_all add: ptab_next_def MAX_PROC_def)
  have arc: "j \<in> pid_arc ?l (ptab_next ?l) \<longleftrightarrow> 1 \<le> j \<and> j \<le> MAX_PROC \<and> j \<noteq> ?l" for j
    using l by (auto simp: pid_arc_def ptab_next_def MAX_PROC_def)
  from pid_search_spec [OF l n, of "ptab_proc s"] obtain r where
    r: "pid_search (ptab_proc s) ?l (ptab_next ?l) = Some r" "case r of
        None \<Rightarrow> \<forall>j\<in>pid_arc ?l (ptab_next ?l). ptab_proc s ! j \<noteq> None
      | Some j \<Rightarrow> j \<in> pid_arc ?l (ptab_next ?l) \<and> ptab_proc s ! j = None" by blast
  then show ?thesis unfolding arc by (cases r) (auto simp: Ball_def arc)
qed

lemma sem_create_procs:
  "procs (snd (sem_create nm k s)) = procs s" "ptab_proc (snd (sem_create nm k s)) = ptab_proc s"
  "ptab_last_i (snd (sem_create nm k s)) = ptab_last_i s" "next_proc (snd (sem_create nm k s)) = next_proc s"
  by (simp_all add: sem_create_def kmalloc_def wchan_create_def kfree_def Let_def split: list.split)

lemma proc_create_pid:
  assumes ok: "ptab_ok s" and km: "kmem s = True # True # km"
  shows "(\<exists>t i. proc_create name s = Ret (Some (next_proc s), t) \<and> ptab_ok t \<and> p_pid (procs t (next_proc s)) = i \<and>
      1 \<le> i \<and> i \<le> MAX_PROC \<and> ptab_proc s ! i = None \<and> ptab_proc t = (ptab_proc s)[i := Some (next_proc s)]) \<or>
    proc_create name s = Panic ''too many processes. proc table is full'' \<and>
      (\<forall>i. 1 \<le> i \<and> i \<le> MAX_PROC \<and> i \<noteq> ptab_last_i s \<longrightarrow> ptab_proc s ! i \<noteq> None)"
proof -
  let ?p = "next_proc s"
  define s4 where "s4 = upd_proc ?p (\<lambda>p. p\<lparr>p_name := name, p_numthreads := 0, p_addrspace := None, p_cwd := None\<rparr>)
      (s\<lparr>next_proc := ?p + 1, kmem := km, kheap := kheap s + 2\<rparr>)"
  have c: "proc_create name s = kbind (proc_init_waitpid ?p name s4) (\<lambda>s5. Ret (Some ?p, s5))"
    using km by (simp add: proc_create_def kmalloc_def Let_def s4_def)
  define s0 where "s0 = upd_proc ?p (\<lambda>p. p\<lparr>p_pid := 0\<rparr>) s4"
  have f: "ptab_proc s0 = ptab_proc s" "ptab_last_i s0 = ptab_last_i s" "next_proc s0 = ?p + 1"
    "\<And>q. q \<noteq> ?p \<Longrightarrow> procs s0 q = procs s q"
    by (simp_all add: s0_def s4_def upd_proc_def)
  from pid_search_ok [OF ok] show ?thesis
  proof (elim disjE exE conjE)
    fix i assume i: "pid_search (ptab_proc s) (ptab_last_i s) (ptab_next (ptab_last_i s)) = Some (Some i)"
      "1 \<le> i" "i \<le> MAX_PROC" "ptab_proc s ! i = None"
    define s2 where "s2 = upd_proc ?p (\<lambda>p. p\<lparr>p_pid := i, p_status := 0\<rparr>)
        (s0\<lparr>ptab_proc := (ptab_proc s)[i := Some ?p], ptab_last_i := i\<rparr>)"
    define t where "t = upd_proc ?p (\<lambda>p. p\<lparr>p_sem := fst (sem_create name 0 s2)\<rparr>) (snd (sem_create name 0 s2))"
    have "proc_init_waitpid ?p name s4 = Ret t"
      using i(1) f(1,2) by (simp add: proc_init_waitpid_def Let_def s0_def [symmetric] s2_def [symmetric] t_def split_def)
    moreover have t: "ptab_proc t = (ptab_proc s)[i := Some ?p]" "ptab_last_i t = i" "next_proc t = ?p + 1"
      "p_pid (procs t ?p) = i" "\<And>q. q \<noteq> ?p \<Longrightarrow> procs t q = procs s q"
      using f(3,4) by (simp_all add: t_def upd_proc_def sem_create_procs s2_def)
    moreover have "ptab_ok t"
      unfolding ptab_ok_def t(1-3)
    proof (intro conjI allI impI)
      show "length ((ptab_proc s)[i := Some ?p]) = MAX_PROC + 1" "(ptab_proc s)[i := Some ?p] ! 0 = None"
        using ok i(2) by (simp_all add: ptab_ok_def)
      fix j q assume j: "j \<le> MAX_PROC" "(ptab_proc s)[i := Some ?p] ! j = Some q"
      have "q < ?p + 1 \<and> p_pid (procs t q) = j"
      proof (cases "j = i")
        case True
        then show ?thesis using j ok t(4) by (auto simp: ptab_ok_def nth_list_update)
      next
        case False
        then have "q < ?p \<and> p_pid (procs s q) = j" using j ok by (simp add: ptab_ok_def)
        then show ?thesis using t(5) [of q] by simp
      qed
      then show "q < ?p + 1" "p_pid (procs t q) = j" by simp_all
    qed (use i in simp_all)
    ultimately show ?thesis using c i(2-4) by auto
  next
    assume "pid_search (ptab_proc s) (ptab_last_i s) (ptab_next (ptab_last_i s)) = Some None"
      "\<forall>i. 1 \<le> i \<and> i \<le> MAX_PROC \<and> i \<noteq> ptab_last_i s \<longrightarrow> ptab_proc s ! i \<noteq> None"
    then show ?thesis using c f(1,2) by (simp add: proc_init_waitpid_def Let_def s0_def [symmetric])
  qed
qed

lemma proc_end_waitpid_ok:
  assumes ok: "ptab_ok s" and e: "proc_end_waitpid p s = Ret t"
  shows "ptab_ok t"
proof -
  have t: "ptab_proc t = (ptab_proc s)[p_pid (procs s p) := None]" "procs t = procs s" "next_proc t = next_proc s"
    "ptab_last_i t = ptab_last_i s" "0 < p_pid (procs s p)"
    using e by (auto simp: proc_end_waitpid_def sem_destroy_def wchan_destroy_def kfree_def Let_def split: option.splits)
  let ?i = "p_pid (procs s p)"
  have n: "(ptab_proc s)[?i := None] ! j = (if j = ?i \<and> j < length (ptab_proc s) then None else ptab_proc s ! j)" for j
    by (cases "?i < length (ptab_proc s)") (auto simp: nth_list_update list_update_beyond)
  show ?thesis unfolding ptab_ok_def t(1-4) n using ok t(5) by (auto simp: ptab_ok_def split: if_splits)
qed

end
