(* ===== verification/Lock_Correct.thy ===== *)
theory Lock_Correct
  imports Synch
begin


text \<open>
  Locks under contention (\<open>kern/thread/synch.c\<close>): a step relation for threads that compete for one lock,
  mutual exclusion, and that no wake-up is lost.
\<close>

section \<open>Interleaved use of a lock\<close>

text \<open>
  Any number of threads call \<open>lock_acquire\<close> and \<open>lock_release\<close> on one lock. A step is the code between
  two points where the thread may be preempted by a competitor for the lock: the check of the owner,
  one turn of the loop of \<open>P\<close> under the spinlock of the semaphore, the assignment of the owner under
  the spinlock of the lock, and \<open>lock_release\<close>, which runs \<open>V\<close> with that spinlock held. The kernel state
  \<open>s\<close> of a step is any one in which the thread runs.
\<close>

datatype lpc = Outside | Acquiring | Asleep | Took | Critical

type_synonym lock_conf = "lock \<times> (tid \<Rightarrow> lpc)"

inductive lock_step :: "lock_conf \<Rightarrow> lock_conf \<Rightarrow> bool" where
  enter: "pc (curthread (s :: sched)) = Outside \<Longrightarrow> \<not> lock_do_i_hold s lk \<Longrightarrow> \<not> in_interrupt s \<Longrightarrow>
    lock_step (lk, pc) (lk, pc(curthread s := Acquiring))"
| take: "pc (curthread (s :: sched)) = Acquiring \<or> pc (curthread s) = Asleep \<and> curthread s \<notin> set (wc_threads (sem_wchan (lk_sem lk))) \<Longrightarrow>
    sem_P s (lk_sem lk) = Ret sem \<Longrightarrow>
    lock_step (lk, pc) (lk\<lparr>lk_sem := sem\<rparr>, pc(curthread s := Took))"
| sleep: "pc (curthread (s :: sched)) = Acquiring \<or> pc (curthread s) = Asleep \<and> curthread s \<notin> set (wc_threads (sem_wchan (lk_sem lk))) \<Longrightarrow>
    sem_P s (lk_sem lk) = Sleeps \<Longrightarrow>
    lock_step (lk, pc)
      (lk\<lparr>lk_sem := (lk_sem lk)\<lparr>sem_wchan := (sem_wchan (lk_sem lk))\<lparr>wc_threads :=
          wc_threads (sem_wchan (lk_sem lk)) @ [curthread s]\<rparr>\<rparr>\<rparr>, pc(curthread s := Asleep))"
| own: "pc (curthread (s :: sched)) = Took \<Longrightarrow> lk_owner lk = None \<Longrightarrow>
    lock_step (lk, pc) (lk\<lparr>lk_owner := Some (curthread s)\<rparr>, pc(curthread s := Critical))"
| release: "pc (curthread (s :: sched)) = Critical \<Longrightarrow> lock_release s lk = Ret (lk1, s1) \<Longrightarrow>
    lock_step (lk, pc) (lk1, pc(curthread s := Outside))"

inductive lock_reach :: "lock \<Rightarrow> lock_conf \<Rightarrow> bool" for lk0 where
  init: "lock_reach lk0 (lk0, \<lambda>_. Outside)"
| step: "lock_reach lk0 c \<Longrightarrow> lock_step c c1 \<Longrightarrow> lock_reach lk0 c1"

inductive_cases lock_stepE: "lock_step (lk, pc) c"

text \<open>Without a competitor the steps are those of \<open>lock_acquire\<close>.\<close>

lemma lock_acquire_steps:
  fixes s :: sched
  assumes "lock_acquire s lk = Ret lk1" "pc (curthread s) = Outside" "lock_reach lk0 (lk, pc)"
  shows "lock_reach lk0 (lk1, pc(curthread s := Critical))"
proof -
  let ?t = "curthread s"
  obtain sem where h: "\<not> lock_do_i_hold s lk" "\<not> in_interrupt s" "sem_P s (lk_sem lk) = Ret sem"
    "lk_owner lk = None" "lk1 = lk\<lparr>lk_sem := sem, lk_owner := Some ?t\<rparr>"
    using assms(1) by (auto simp: lock_acquire_def KASSERT_def kbind_eq_Ret split: if_splits)
  have "lock_reach lk0 (lk, pc(?t := Acquiring))"
    by (rule lock_reach.step [OF assms(3) lock_step.enter [where pc = pc and s = s, OF assms(2) h(1,2)]])
  moreover have "lock_step (lk, pc(?t := Acquiring)) (lk\<lparr>lk_sem := sem\<rparr>, (pc(?t := Acquiring))(?t := Took))"
    by (rule lock_step.take) (simp_all add: h(3))
  ultimately have "lock_reach lk0 (lk\<lparr>lk_sem := sem\<rparr>, (pc(?t := Acquiring))(?t := Took))"
    by (rule lock_reach.step)
  moreover have "lock_step (lk\<lparr>lk_sem := sem\<rparr>, (pc(?t := Acquiring))(?t := Took))
      ((lk\<lparr>lk_sem := sem\<rparr>)\<lparr>lk_owner := Some ?t\<rparr>, ((pc(?t := Acquiring))(?t := Took))(?t := Critical))"
    by (rule lock_step.own) (simp_all add: h(4))
  ultimately have "lock_reach lk0 ((lk\<lparr>lk_sem := sem\<rparr>)\<lparr>lk_owner := Some ?t\<rparr>,
      ((pc(?t := Acquiring))(?t := Took))(?t := Critical))"
    by (rule lock_reach.step)
  then show ?thesis by (simp add: h(5))
qed

text \<open>
  The invariant: the count is one exactly when nobody is between \<open>P\<close> and \<open>V\<close>, and otherwise one thread
  is; the owner is the thread in the critical section. The sleepers are on the channel once each, and
  when the lock is free while there are sleepers, one of them has been woken and not yet run.
\<close>

definition in_section :: "(tid \<Rightarrow> lpc) \<Rightarrow> tid \<Rightarrow> bool" where
  "in_section pc t \<longleftrightarrow> pc t = Took \<or> pc t = Critical"

definition lock_inv_at :: "tid option \<Rightarrow> lock \<Rightarrow> (tid \<Rightarrow> lpc) \<Rightarrow> bool" where
  "lock_inv_at h lk pc \<longleftrightarrow>
     sem_count (lk_sem lk) = (if h = None then 1 else 0) \<and> (\<forall>u. in_section pc u \<longleftrightarrow> h = Some u) \<and>
     (\<forall>u. lk_owner lk = Some u \<longleftrightarrow> pc u = Critical) \<and>
     distinct (wc_threads (sem_wchan (lk_sem lk))) \<and> (\<forall>t\<in>set (wc_threads (sem_wchan (lk_sem lk))). pc t = Asleep) \<and>
     (h = None \<longrightarrow> wc_threads (sem_wchan (lk_sem lk)) \<noteq> [] \<longrightarrow>
       (\<exists>t. pc t = Asleep \<and> t \<notin> set (wc_threads (sem_wchan (lk_sem lk)))))"

lemma lock_create_idle: "lock_create nm s = (Some lk, t) \<Longrightarrow> lock_idle lk"
  by (auto simp: lock_create_def sem_create_def wchan_create_def lock_idle_def Let_def split: prod.splits if_splits)

lemma sem_P_Ret: "sem_P s sem = Ret sem1 \<longleftrightarrow> \<not> in_interrupt s \<and> sem_count sem \<noteq> 0 \<and> sem1 = sem\<lparr>sem_count := sem_count sem - 1\<rparr>"
  by (auto simp: sem_P_def wchan_sleep_def KASSERT_def Let_def word_gt_zero_succ split: if_splits)

lemma sem_P_Sleeps: "sem_P s sem = Sleeps \<Longrightarrow> sem_count sem = 0"
  by (auto simp: sem_P_def KASSERT_def Let_def split: if_splits)

lemma lock_release_Ret:
  assumes "lock_release s lk = Ret (lk1, s1)"
  shows "lk_owner lk = Some (curthread s)"
    "lk1 = lk\<lparr>lk_sem := (lk_sem lk)\<lparr>sem_count := sem_count (lk_sem lk) + 1,
       sem_wchan := (sem_wchan (lk_sem lk))\<lparr>wc_threads := tl (wc_threads (sem_wchan (lk_sem lk)))\<rparr>\<rparr>, lk_owner := None\<rparr>"
  using assms
  by (auto simp: lock_release_def lock_do_i_hold_def sem_V_def KASSERT_def Let_def kbind_eq_Ret wchan_wakeone_def
      split: if_splits list.splits)

lemma woken_upd:
  "\<exists>t. pc t = Asleep \<and> t \<notin> W \<Longrightarrow> pc u \<noteq> Asleep \<Longrightarrow> \<exists>t. (pc(u := x)) t = Asleep \<and> t \<notin> W"
  by (metis fun_upd_apply)

lemma lock_inv_holder: "lock_inv_at h lk pc \<Longrightarrow> in_section pc u \<longleftrightarrow> h = Some u"
  by (simp add: lock_inv_at_def)

lemma lock_inv_owner: "lock_inv_at h lk pc \<Longrightarrow> pc u = Critical \<longleftrightarrow> lk_owner lk = Some u"
  by (simp add: lock_inv_at_def)

lemma lock_inv_step:
  assumes "lock_step c c1" "lock_inv_at h (fst c) (snd c)"
  shows "\<exists>h1. lock_inv_at h1 (fst c1) (snd c1)"
  using assms
proof (induction rule: lock_step.induct)
  case (enter pc s lk)
  have h: "h \<noteq> Some (curthread s)" using enter lock_inv_holder [of h lk pc "curthread s"] by (simp add: in_section_def)
  have "lock_inv_at h lk (pc(curthread s := Acquiring))"
    unfolding lock_inv_at_def
  proof (intro conjI impI)
    show "\<exists>t. (pc(curthread s := Acquiring)) t = Asleep \<and> t \<notin> set (wc_threads (sem_wchan (lk_sem lk)))"
      if "h = None" "wc_threads (sem_wchan (lk_sem lk)) \<noteq> []"
      by (rule woken_upd) (use that enter in \<open>simp_all add: lock_inv_at_def\<close>)
  qed (use enter h in \<open>auto simp: lock_inv_at_def in_section_def lock_do_i_hold_def\<close>)
  then show ?case unfolding fst_conv snd_conv by blast
next
  case (take pc s lk sem)
  then have n: "h = None" and nc: "pc u \<noteq> Took" "pc u \<noteq> Critical" for u
    by (auto simp: lock_inv_at_def in_section_def sem_P_Ret split: if_splits)
  have "lk_owner lk = None" using take(3) nc(2) by (cases "lk_owner lk") (auto simp: lock_inv_at_def)
  then have "lock_inv_at (Some (curthread s)) (lk\<lparr>lk_sem := sem\<rparr>) (pc(curthread s := Took))"
    using take n nc by (auto simp: lock_inv_at_def in_section_def sem_P_Ret)
  then show ?case unfolding fst_conv snd_conv by blast
next
  case (sleep pc s lk)
  have "\<not> in_section pc (curthread s)" using sleep(1) by (auto simp: in_section_def)
  then have h: "h \<noteq> Some (curthread s)" using sleep(3) lock_inv_holder [of h lk pc] by simp
  moreover have "h \<noteq> None" using sleep(3) sem_P_Sleeps [OF sleep(2)] by (auto simp: lock_inv_at_def split: if_splits)
  ultimately have "lock_inv_at h (lk\<lparr>lk_sem := (lk_sem lk)\<lparr>sem_wchan := (sem_wchan (lk_sem lk))\<lparr>wc_threads :=
      wc_threads (sem_wchan (lk_sem lk)) @ [curthread s]\<rparr>\<rparr>\<rparr>) (pc(curthread s := Asleep))"
    using sleep by (auto simp: lock_inv_at_def in_section_def)
  then show ?case unfolding fst_conv snd_conv by blast
next
  case (own pc s lk)
  then have "lock_inv_at h (lk\<lparr>lk_owner := Some (curthread s)\<rparr>) (pc(curthread s := Critical))"
    by (auto simp: lock_inv_at_def in_section_def)
  then show ?case unfolding fst_conv snd_conv by blast
next
  case (release pc s lk lk1 s1)
  note r = lock_release_Ret [OF release(2)]
  have h: "h = Some (curthread s)"
    using release(1,3) lock_inv_holder [of h lk pc "curthread s"] by (simp add: in_section_def)
  have o: "pc u = Critical \<longleftrightarrow> u = curthread s" for u using release(3) r(1) lock_inv_owner [of h lk pc u] by auto
  have nt: "pc u \<noteq> Took" for u
    using lock_inv_holder [of h lk pc u] release(1,3) h by (auto simp: in_section_def)
  let ?w = "wc_threads (sem_wchan (lk_sem lk))"
  have w: "pc t = Asleep" if "t \<in> set ?w" for t using release(3) that by (simp add: lock_inv_at_def)
  have ns: "curthread s \<notin> set ?w" using w release(1) by fastforce
  have "distinct ?w" using release(3) by (simp add: lock_inv_at_def)
  moreover have "\<exists>t. (pc(curthread s := Outside)) t = Asleep \<and> t \<notin> set (tl ?w)" if "tl ?w \<noteq> []"
    using that w [of "hd ?w"] ns \<open>distinct ?w\<close>
    by (cases ?w) (auto intro: exI [of _ "hd ?w"])
  moreover have "t \<in> set ?w" if "t \<in> set (tl ?w)" for t using that by (cases ?w) simp_all
  ultimately have "lock_inv_at None lk1 (pc(curthread s := Outside))"
    using release(3) o nt h w ns unfolding r(2)
    by (auto simp: lock_inv_at_def in_section_def distinct_tl)
  then show ?case unfolding fst_conv snd_conv by blast
qed

lemma lock_inv_reach:
  assumes "lock_reach lk0 c" "lock_idle lk0"
  shows "\<exists>h. lock_inv_at h (fst c) (snd c)"
  using assms
proof (induction rule: lock_reach.induct)
  case init
  then show ?case by (intro exI [of _ None]) (simp add: lock_inv_at_def lock_idle_def in_section_def)
next
  case (step c c1)
  then show ?case using lock_inv_step by blast
qed

lemma lock_inv_facts:
  assumes "lock_inv_at h lk pc"
  shows "pc t = Critical \<Longrightarrow> pc u = Critical \<Longrightarrow> t = u"
    "pc t = Critical \<longleftrightarrow> lk_owner lk = Some t"
    "pc t = Took \<Longrightarrow> lk_owner lk = None"
    "\<forall>t. pc t \<noteq> Took \<and> pc t \<noteq> Critical \<Longrightarrow> \<not> in_interrupt s \<Longrightarrow> \<exists>sem. sem_P s (lk_sem lk) = Ret sem"
    "\<forall>t. pc t \<noteq> Took \<and> pc t \<noteq> Critical \<Longrightarrow> pc t = Asleep \<Longrightarrow>
      \<exists>t. pc t = Asleep \<and> t \<notin> set (wc_threads (sem_wchan (lk_sem lk)))"
proof -
  note O = lock_inv_owner [OF assms] and H = lock_inv_holder [OF assms]
  show "pc t = Critical \<Longrightarrow> pc u = Critical \<Longrightarrow> t = u" "pc t = Critical \<longleftrightarrow> lk_owner lk = Some t"
    using O by simp_all
  show "lk_owner lk = None" if "pc t = Took"
  proof (cases "lk_owner lk")
    case (Some u)
    then have "pc u = Critical" using O by simp
    then show ?thesis using that H [of t] H [of u] by (auto simp: in_section_def)
  qed simp
next
  assume "\<forall>t. pc t \<noteq> Took \<and> pc t \<noteq> Critical"
  then have n: "h = None" using lock_inv_holder [OF assms] by (cases h) (auto simp: in_section_def)
  then show "\<not> in_interrupt s \<Longrightarrow> \<exists>sem. sem_P s (lk_sem lk) = Ret sem"
    using assms by (simp add: sem_P_Ret lock_inv_at_def)
  show "pc t = Asleep \<Longrightarrow> \<exists>t. pc t = Asleep \<and> t \<notin> set (wc_threads (sem_wchan (lk_sem lk)))"
    using assms n by (cases "wc_threads (sem_wchan (lk_sem lk)) = []") (auto simp: lock_inv_at_def)
qed

end
