(* ===== verification/Spec2Isabelle.thy ===== *)
theory Spec2Isabelle
  imports Sim_Program Files_Correct Menu_Correct Pid_Table Lock_Correct Boot_Correct
begin

text \<open>
  \<^bold>\<open>Verification of the demand paging extension of the OS/161 kernel\<close>

  The program is a teaching kernel for a simulated MIPS machine, extended with on-demand loading of
  programs, page replacement, a swap file, a TLB policy, VM statistics, locks and condition variables,
  process creation and termination, and a few system calls. All paths below are relative to
  \<open>src/os161/os161-base-2.0.2/kern\<close>. The configuration modelled is the one the sources are built with for
  paging: \<open>OPT_PAGING\<close>, \<open>OPT_SYNCH\<close> with \<open>USE_SEMAPHORE_FOR_LOCK\<close>, \<open>OPT_WAITPID\<close>, \<open>OPT_ARGS\<close>; \<open>OPT_FILE\<close>
  and \<open>OPT_FORK\<close> are parameters of the model.

  \<^bold>\<open>Parts and theories\<close>

  \<^item> \<open>OS161_Prelude\<close>: machine words, memory as a function from addresses to bytes, outcomes of kernel code.
    \<open>kres\<close> has a constructor for each way a C function can end: \<open>Ret\<close>, \<open>Panic\<close> (also a failed \<open>KASSERT\<close>),
    \<open>Undef\<close> (undefined behaviour, such as following a null pointer), \<open>Sleeps\<close> (the thread blocks) and
    \<open>Diverges\<close> (a loop that does not end). \<open>kbind\<close> sequences them.
  \<^item> \<open>Threads\<close>, \<open>Thread_System\<close> (\<open>thread/thread.c\<close>): threads, CPUs, run queues, wait channels; creation,
    \<open>thread_fork\<close>, \<open>thread_switch\<close> in two halves around the change of context, exit, yield, migration,
    interprocessor interrupts.
  \<^item> \<open>Synch\<close>, \<open>Lock_Correct\<close> (\<open>thread/synch.c\<close>): semaphores, locks, condition variables; the locale \<open>mutex\<close>;
    threads that compete for a lock as a step relation.
  \<^item> \<open>Proc\<close>, \<open>Pid_Table\<close> (\<open>proc/proc.c\<close>): processes and the table of pids.
  \<^item> \<open>VM_Stats\<close> (\<open>vm/vmstats.c\<close>), \<open>VM_TLB\<close> (\<open>vm/vm_tlb.c\<close>; locale \<open>translation_cache\<close>), \<open>Vnode_IO\<close> and \<open>Loadelf\<close>
    (\<open>syscall/loadelf.c\<close>), \<open>Swapfile\<close> (\<open>vm/swapfile.c\<close>; locale \<open>page_store\<close>), \<open>Page_Table\<close> (\<open>vm/pt.c\<close>), \<open>Coremap\<close>
    (\<open>vm/coremap.c\<close>; locale \<open>frame_allocator\<close>), \<open>Addrspace\<close> and \<open>Vm_Fault\<close> (\<open>vm/addrspace.c\<close>): the VM system.
  \<^item> \<open>Proc_Syscalls\<close> (\<open>syscall/proc_syscalls.c\<close>, the rest of \<open>proc/proc.c\<close>), \<open>File_Syscalls\<close>
    (\<open>syscall/file_syscalls.c\<close>), \<open>Runprogram\<close> (\<open>syscall/runprogram.c\<close>), \<open>Syscall_Dispatch\<close>
    (\<open>arch/mips/syscall/syscall.c\<close>, \<open>main/main.c\<close>), \<open>Kern_Menu\<close> and \<open>Menu_Correct\<close> (\<open>main/menu.c\<close>).
  \<^item> \<open>Vm_Inv\<close>, \<open>Vm_Correct\<close>, \<open>Addrspace_Correct\<close>, \<open>Boot_Correct\<close>, \<open>User_Memory\<close>: the invariant of the VM system and
    the proofs about it. \<open>Syscall_Correct\<close>, \<open>Files_Correct\<close>, \<open>Proc_Correct\<close>, \<open>Args_Layout\<close>, \<open>Runprogram_Correct\<close>: system
    calls, open files, the end and the start of a process, on top of it.
  \<^item> \<open>Sim_Machine\<close>, \<open>Sim_Vm\<close>, \<open>Sim_Threads\<close>, \<open>Sim_Kern\<close>, \<open>Sim_Program\<close>: a concrete machine (a TLB as an array, a disk as a
    function, a bitmap) and concrete kernel states, on which the properties are instantiated.

  \<^bold>\<open>State and operations\<close>

  The static variables of the C files are the fields of records that extend each other in the order in
  which the files use each other: \<open>sched\<close>, \<open>procs_st\<close>, \<open>stats_st\<close>, \<open>tlb_st\<close>, \<open>mem_st\<close>, \<open>swap_st\<close>, \<open>as_st\<close>, \<open>core_st\<close>,
  \<open>thr_st\<close>, \<open>kern_st\<close>. An operation is stated on the first record that has what it needs and applies to all
  that extend it. A pointer to a process, address space or thread is an index into a map of the state;
  the null pointer is \<open>None\<close>. Names are those of the C functions. Loops are recursive functions with the
  name of what they do (\<open>victim_loop\<close>, \<open>write_loop\<close>); those that may run forever are partial functions whose
  value \<open>None\<close> becomes \<open>Diverges\<close>, so that a theorem with \<open>Ret\<close> in its conclusion includes termination. No
  definition uses fuel.

  What the sources call but do not contain is a parameter. The records \<open>tlb_ops\<close>, \<open>vnode_ops\<close>, \<open>os_ops\<close>,
  \<open>vm_ops\<close>, \<open>elf_ops\<close>, \<open>kern_ops\<close> hold the TLB instructions, file reads and writes, bitmaps, name lookup, the
  layout of ELF headers and numbers from system headers; \<open>kern_ext\<close> and \<open>boot_ext\<close> hold calls that take the
  whole state. What a theorem needs of them is a named hypothesis: \<open>tlb_laws\<close>, \<open>vnode_laws\<close>, \<open>bitmap_laws\<close>,
  \<open>close_laws\<close>, \<open>writes_ok\<close>, \<open>copyout_laws\<close>. The \<open>Sim\<close> theories prove them for the concrete machine. Kernel memory is the list
  \<open>kmem\<close> of outcomes of the coming \<open>kmalloc\<close> calls and the number \<open>kheap\<close> of live blocks: the allocator itself is
  outside the sources, and so is what it asks of \<open>alloc_kpages\<close> and gives back to \<open>free_kpages\<close> for large blocks, and
  what \<open>bitmap_create\<close> allocates. \<open>vfs_open\<close> may overwrite the name it is given; it returns what it leaves in the
  buffer, and \<open>as_create\<close>, \<open>load_program\<close>, \<open>runprogramWithArgs\<close> pass that on to their callers.

  \<^bold>\<open>What the theorems show\<close>

  \<^item> Paging: a program sees a flat memory (\<open>paging_refines_flat_memory\<close>), because serving a fault keeps the
    invariant \<open>vm_inv\<close>, every page and the statistics (\<open>vm_fault_correct\<close>, \<open>vm_fault_keeps_pages\<close>,
    \<open>vm_fault_keeps_statistics\<close>). \<open>vm_inv\<close> says that resident pages have a frame each and own it, swapped
    pages a slot each, the TLB agrees with the page table, and locks are free; \<open>vm_bootstrap\<close> establishes
    it, \<open>as_prepare_load\<close> and \<open>as_destroy\<close> keep it and leak nothing.
  \<^item> Its parts: the TLB refines an update of a partial map with a fair victim; swap slots and frames are
    handed out fresh, in first-fit order, and come back; boot memory is not handed out.
  \<^item> Processes and threads: arguments and exit status are delivered, everything a process had is
    released, scheduling is round robin, migration loses no thread, pids are unique, locks exclude.
  \<^item> System calls and the menu: \<open>read\<close> and \<open>write\<close> move exactly the bytes of the program's memory; open files
    are counted, with the exact cases of \<open>open\<close> and \<open>close\<close>; the menu's parser agrees with a specification.
  \<^item> Defects, as theorems about the code as it is: memory exhaustion with no address space, the endless
    search for a victim, the swap file that is never seen to be full, locks kept on error paths, the
    TLB that ignores free slots, the menu that waits forever for a program that does not exist, console
    calls that reach kernel memory, \<open>fork\<close> that copies the file table the wrong way round, and the program name that
    reaches the program as \<open>vfs_open\<close> left it.

  \<^bold>\<open>Bounds\<close>

  Words have 32 bits and wrap as in C; \<open>coremap_init\<close> is stated for at most 512 MB, the range of the direct
  mapped segment, and the swap file has fewer than 65536 pages so that slot numbers times the page size
  do not overflow. The counters of the statistics wrap.

  \<^bold>\<open>Not modelled\<close>

  \<^item> The branches of \<open>loadelf.c\<close> and \<open>runprogram.c\<close> for a kernel without paging, of \<open>cmd_progthread\<close> without \<open>OPT_ARGS\<close>,
    and of \<open>file_syscalls.c\<close> with \<open>USE_KERNEL_BUFFER\<close>, which this configuration does not compile.
  \<^item> Interrupt levels (\<open>splhigh\<close>, \<open>splx\<close>) apart from the assertions of \<open>syscall\<close>, and spinlocks beyond their count per
    CPU: kernel code runs on one CPU until it sleeps or switches. Concurrency is explicit where the code
    is about it: switches, migration, competition for a lock.
  \<^item> The path of the shell in \<open>cmd_shell\<close> is a constant; that \<open>vfs_open\<close> might overwrite the string literal is not
    modelled.
  \<^item> Messages printed by the VM system, and the text of the test programs the menu only calls.
  \<^item> The build configuration (\<open>conf\<close>, makefiles) and headers with prototypes only, which hold no code.
\<close>

section \<open>Page faults\<close>

text \<open>
  C2. A read or write fault on a page of the current address space that the TLB does not map is
  served, whenever the page is in memory or there is room for it: \<open>vm_fault\<close> returns success, the
  page is in memory afterwards, the TLB translates it to its frame (with the write permission of
  the page), every other translation was there before, and the invariant of the VM system holds
  again. This covers the eviction of another page, the read from the swap file, the load from the
  executable and the zeroed stack page.
\<close>

theorem vm_fault_correct:
  assumes "vm_inv E n A s" "proc_getas s = Some a" "a \<in> A" "ft \<in> {VM_FAULT_READ, VM_FAULT_WRITE}"
    and "j < length (ptabs s a)" "pte_vaddr (pte s a j) = va AND PAGE_FRAME"
    and "tlb_lookup E s (va AND PAGE_FRAME) = None" "in_mem (pte s a j) \<or> room E n a s"
  shows "\<exists>t. vm_fault E ft va s = Ret (None, t) \<and> vm_inv E n A t \<and> in_mem (pte t a j) \<and>
    tlb_lookup E t (va AND PAGE_FRAME) = Some (tlb_entrylo (pte_paddr (pte t a j)) (readonly (pte s a j))) \<and>
    (\<forall>x e. tlb_lookup E t x = Some e \<longrightarrow> x = va AND PAGE_FRAME \<or> tlb_lookup E s x = Some e)"
  using vm_fault_serves [OF assms] assms(6) unfolding served_def by auto

theorem vm_fault_correct_witness:
  "\<exists>t. vm_fault (sim_ops 4) VM_FAULT_WRITE 0x7FFFF123 (sim_vm [] sim_pt) = Ret (None, t) \<and> in_mem (pte t 0 1)"
  using vm_fault_correct [OF sim_fault] by blast

text \<open>
  C3. Serving a fault loses no data. No page of any address space other than the faulting one
  changes, wherever it is (in memory, in the swap file), except that a read-only page may be
  forgotten, to be loaded again from the executable; the faulting page has the bytes it had if it
  had any, and a page of the last segment (the stack) that is touched for the first time is zero.
\<close>

theorem vm_fault_keeps_pages:
  assumes "vm_inv E n A s" "proc_getas s = Some a" "a \<in> A" "ft \<in> {VM_FAULT_READ, VM_FAULT_WRITE}"
    and "j < length (ptabs s a)" "pte_vaddr (pte s a j) = va AND PAGE_FRAME"
    and "tlb_lookup E s (va AND PAGE_FRAME) = None" "in_mem (pte s a j) \<or> room E n a s"
    and "vm_fault E ft va s = Ret (r, t)"
  shows "pages_kept E (all_pages A s - {(a, j)}) s t \<and>
    (content E s a j \<noteq> None \<longrightarrow> content E t a j = content E s a j) \<and>
    (content E s a j = None \<and> seg_start (last (as_segment (aspaces s a))) \<le> va AND PAGE_FRAME \<longrightarrow>
       content E t a j = Some (replicate 4096 0))"
  using vm_fault_serves [OF assms(1-8)] assms(6,9) unfolding served_def by auto

theorem vm_fault_keeps_pages_witness:
  "\<exists>t. vm_fault (sim_ops 4) VM_FAULT_WRITE 0x7FFFF123 (sim_vm [] sim_pt) = Ret (None, t) \<and>
     content (sim_ops 4) t 0 1 = Some (replicate 4096 0)"
proof -
  obtain t where t: "vm_fault (sim_ops 4) VM_FAULT_WRITE 0x7FFFF123 (sim_vm [] sim_pt) = Ret (None, t)"
    using vm_fault_serves [OF sim_fault] by blast
  have "content (sim_ops 4) (sim_vm [] sim_pt) 0 1 = None" by (simp add: content_def sim_pt_def)
  with vm_fault_keeps_pages [OF sim_fault t] t show ?thesis by (simp add: PAGE_FRAME_def)
qed

text \<open>
  C4. Serving a fault keeps the three identities between the counters that \<open>vm_stats_print\<close> checks
  at shutdown, so a run whose faults are all served prints no line \<open>INCONSISTENCY\<close>.
\<close>

theorem vm_fault_keeps_statistics:
  assumes "vm_inv E n A s" "proc_getas s = Some a" "a \<in> A" "ft \<in> {VM_FAULT_READ, VM_FAULT_WRITE}"
    and "j < length (ptabs s a)" "pte_vaddr (pte s a j) = va AND PAGE_FRAME"
    and "tlb_lookup E s (va AND PAGE_FRAME) = None" "in_mem (pte s a j) \<or> room E n a s"
    and "stats_consistent s"
  shows "\<exists>t. vm_fault E ft va s = Ret (None, t) \<and> stats_consistent t"
proof -
  obtain t where t: "vm_fault E ft va s = Ret (None, t)" "served E n A a j s t"
    using vm_fault_serves [OF assms(1-8)] by blast
  from t(2) obtain evs x where "evs \<in> fault_events" "x \<in> {TLB_FAULT_WITH_FREE, TLB_FAULT_WITH_REPLACE}"
    "counters t = counted (TLB_FAULT # evs @ [x]) (counters s)"
    unfolding served_def by blast
  moreover have "length (counters s) = STATS_TOT" using vm_invD(3) [OF assms(1)] by (simp add: stats_ok_def)
  ultimately have "stats_consistent t" using fault_events_consistent assms(9) by blast
  with t(1) show ?thesis by blast
qed

theorem vm_fault_keeps_statistics_witness:
  "\<exists>t. vm_fault (sim_ops 4) VM_FAULT_WRITE 0x7FFFF123 (sim_vm [] sim_pt) = Ret (None, t) \<and> stats_consistent t"
  by (rule vm_fault_keeps_statistics [OF sim_fault sim_vm_stats])

section \<open>Swap file\<close>

text \<open>
  C10. A page written out by \<open>swap_out\<close> and read back by \<open>swap_in\<close> into any frame is the page it was:
  the read succeeds, the frame holds the bytes the original frame held when it was swapped out,
  and the slots in use are those from before.
\<close>

theorem swap_round_trip:
  assumes "swap_inv E n s" "swap_out E p s = Ret (None, slot, s1)"
  shows "\<exists>s2. swap_in E slot ram True s1 = Ret (None, ram, s2) \<and> swap_inv E n s2 \<and>
    slot_bytes E s2 = slot_bytes E s \<and>
    mem_read ram 4096 (physmem s2) = mem_read p 4096 (physmem s)"
  using swap.put_get [OF assms] .

theorem swap_round_trip_witness:
  "\<exists>slot s1 s2. swap_out (sim_ops 4) 0x20000 (sim_boot 4 [1] ()) = Ret (None, slot, s1) \<and>
     swap_in (sim_ops 4) slot 0x30000 True s1 = Ret (None, 0x30000, s2)"
proof -
  let ?s = "sim_boot 4 [1] ()"
  have inv: "swap_inv (sim_ops 4) 4 ?s" by (rule sim_boot_swap_inv) simp_all
  obtain slot s1 where out: "swap_out (sim_ops 4) 0x20000 ?s = Ret (None, slot, s1)"
    using swap_out_total [OF inv, where i = 2 and p = "0x20000"] by auto
  from swap_round_trip [OF inv out, of "0x30000"] out show ?thesis by blast
qed

section \<open>The TLB\<close>

text \<open>
  C17. \<open>tlb_loadentry\<close> refines the update of a partial map. Loading a user page that is not yet mapped
  always succeeds, the page then has exactly the entry asked for, the only translation that can
  disappear is that of the slot written, and the TLB stays well formed (no page is mapped twice).
\<close>

theorem tlb_load_refines_update:
  assumes "tlb_laws T" "tlb_wf T s" "stats_ok s" "user_page fa" "tlb_lookup T s fa = None"
  shows "\<exists>t. tlb_loadentry T fa p ro s = Ret (None, t) \<and> tlb_wf T t \<and>
    tlb_lookup T t = (\<lambda>va. if va = fa then Some (tlb_entrylo p ro)
      else if slot_valid (tlb_slot T s (tlb_target T s)) \<and> fst (tlb_slot T s (tlb_target T s)) = va
      then None else tlb_lookup T s va)"
proof -
  obtain t where t: "tlb_loadentry T fa p ro s = Ret (None, t)"
    using tlb.load_total assms(1-3) by blast
  with tlb_loadentry_wf [OF assms(3,1,2) t assms(4,5)] tlb_loadentry_lookup [OF assms(3,1,2) t assms(4,5)]
  show ?thesis by blast
qed

theorem tlb_load_refines_update_witness:
  "\<exists>t. tlb_loadentry (sim_ops 4) 0x400000 0x20000 True (sim_boot 4 [] ()) = Ret (None, t) \<and>
     tlb_lookup (sim_ops 4) t 0x400000 = Some (tlb_entrylo 0x20000 True)"
proof -
  have "user_page 0x400000" by (simp add: user_page_def PAGE_FRAME_def)
  with tlb_load_refines_update [of "sim_ops 4" "sim_boot 4 [] ()" "0x400000" "0x20000" True] show ?thesis by auto
qed

text \<open>
  C35. After \<open>as_activate\<close> on behalf of an address space the TLB translates nothing, whatever it held
  before: no translation of one process survives into another.
\<close>

theorem as_activate_flushes:
  assumes "tlb_laws E" "tlb_wf E s" "stats_ok s" "proc_getas s = Some a"
  shows "\<exists>t. as_activate E s = Ret t \<and> tlb_wf E t \<and> tlb_lookup E t = Map.empty"
proof -
  obtain t where t: "tlb_invalidate E s = Ret t" using tlb_invalidate_eq [OF assms(3)] by blast
  with tlb_invalidate_wf [OF assms(3,1) t] assms(2,4) show ?thesis
    by (auto simp: as_activate_def tlb_wf_def [of E s])
qed

theorem as_activate_flushes_witness:
  "\<exists>t. as_activate (sim_vm_ops 4) (sim_vm [] sim_pt) = Ret t \<and> tlb_lookup (sim_vm_ops 4) t = Map.empty"
  using as_activate_flushes [of "sim_vm_ops 4" "sim_vm [] sim_pt" 0] by auto

text \<open>
  C34. The victims of replacement are taken in turn: in any 64 replacements in a row every slot of
  the TLB is the victim exactly once.
\<close>

theorem tlb_round_robin_fair:
  assumes "next_victim s < NUM_TLB"
  shows "distinct (rr_victims NUM_TLB s) \<and> set (rr_victims NUM_TLB s) = {..<NUM_TLB}"
proof -
  let ?f = "\<lambda>k. (next_victim s + k) mod NUM_TLB"
  have le: "y \<le> x" if "y < NUM_TLB" "?f x = ?f y" for x y
  proof (rule ccontr)
    assume xy: "\<not> y \<le> x"
    then have "NUM_TLB dvd y - x"
      using that(2) mod_eq_dvd_iff_nat [of "next_victim s + x" "next_victim s + y" NUM_TLB] by simp
    then have "NUM_TLB \<le> y - x" using xy by (simp add: dvd_imp_le)
    with that(1) show False by simp
  qed
  have inj: "inj_on ?f {..<NUM_TLB}"
    by (rule inj_onI) (metis le lessThan_iff order_antisym)
  have "?f ` {..<NUM_TLB} \<subseteq> {..<NUM_TLB}" by (auto simp: NUM_TLB_def)
  then have "?f ` {..<NUM_TLB} = {..<NUM_TLB}" using inj by (simp add: endo_inj_surj)
  with inj show ?thesis
    by (simp add: rr_victims_eq [OF assms] distinct_map atLeast0LessThan)
qed

theorem tlb_round_robin_fair_witness: "set (rr_victims NUM_TLB (sim_boot 4 [] ())) = {..<NUM_TLB}"
  using tlb_round_robin_fair [of "sim_boot 4 [] ()"] by (simp add: NUM_TLB_def)

text \<open>
  C39. The flag \<open>tlb_full\<close> is never reset: once the TLB has been full, every load replaces the round
  robin victim, even when slots are free (here: the TLB has just been emptied), and counts the
  fault as one with replacement.
\<close>

theorem tlb_full_ignores_free_slots:
  assumes "stats_ok s" "tlb_full s" "tlb_laws T" "tlb_invalidate T s = Ret t"
  shows "tlb_full t \<and> (\<forall>i<NUM_TLB. \<not> slot_valid (tlb_slot T t i)) \<and>
    tlb_loadentry T fa p ro t = Ret (None, bump TLB_FAULT_WITH_REPLACE
      (t\<lparr>next_victim := (next_victim t + 1) mod NUM_TLB,
         tlb_hw := tlb_write T fa (tlb_entrylo p ro) (next_victim t) (tlb_hw t)\<rparr>))"
proof -
  have t: "t = bump TLB_INVALIDATION (s\<lparr>tlb_hw := tlb_invalidate_from T 0 NUM_TLB (tlb_hw s)\<rparr>)"
    using assms(1,4) by (simp add: tlb_invalidate_eq)
  then have full: "tlb_full t" "stats_ok t" using assms(1,2) by (simp_all add: bump_def stats_ok_def)
  then have "tlb_free T t = None" "t\<lparr>tlb_full := True\<rparr> = t" by (simp_all add: tlb_free_def)
  with full tlb_loadentry_eq [OF full(2), of T fa p ro] tlb_invalidate_slot [OF assms(1,3,4)]
  show ?thesis by simp
qed

theorem tlb_full_ignores_free_slots_witness:
  "\<exists>t. tlb_invalidate (sim_ops 4) ((sim_boot 4 [] ())\<lparr>tlb_full := True\<rparr>) = Ret t \<and> tlb_full t"
proof -
  let ?s = "(sim_boot 4 [] ())\<lparr>tlb_full := True\<rparr>"
  obtain t where t: "tlb_invalidate (sim_ops 4) ?s = Ret t" using tlb_invalidate_eq [of ?s] by auto
  with tlb_full_ignores_free_slots [OF _ _ _ t] show ?thesis by auto
qed

section \<open>The swap file\<close>

text \<open>
  C18. \<open>swap_out\<close> never overwrites a page that is still needed: the slot it returns was free, every
  slot in use keeps its bytes, and the new slot holds the page.
\<close>

theorem swap_out_fresh_slot:
  assumes "swap_inv E n s" "swap_out E p s = Ret (None, slot, t)"
  shows "swap_inv E n t \<and> slot_bytes E s (unat slot) = None \<and>
    slot_bytes E t = (slot_bytes E s)(unat slot \<mapsto> mem_read p 4096 (physmem s))"
  using swap_out_inv [OF assms] by blast

theorem swap_out_fresh_slot_witness:
  "\<exists>slot t. swap_out (sim_ops 4) 0x20000 (sim_boot 4 [0, 1] ()) = Ret (None, slot, t) \<and>
     swap_inv (sim_ops 4) 4 t"
proof -
  have inv: "swap_inv (sim_ops 4) 4 (sim_boot 4 [0, 1] ())" by (rule sim_boot_swap_inv) auto
  obtain slot t where out: "swap_out (sim_ops 4) 0x20000 (sim_boot 4 [0, 1] ()) = Ret (None, slot, t)"
    using swap_out_total [OF inv, where i = 2 and p = "0x20000"] by auto
  from swap_out_fresh_slot [OF inv out] out show ?thesis by blast
qed

text \<open>
  C37. A full swap file is not detected: the number of slots in use is compared with the size of the
  file in bytes. With every slot taken \<open>getAvailableSwap\<close> still reports space, and \<open>swap_out\<close> goes on
  to the bitmap, whose error it returns with the page still in memory.
\<close>

theorem swap_full_not_detected:
  assumes "swap_inv E n s" "\<And>i. i < n \<Longrightarrow> bitmap_isset E (swapMap s) i"
  shows "\<exists>e b avail. avail \<noteq> 0 \<and> getAvailableSwap s = Ret (avail, s) \<and>
    swap_out E p s = Ret (Some e, p, s\<lparr>swapMap := b\<rparr>)"
proof -
  note D = swap_invD [OF assms(1)]
  obtain r i b where al: "bitmap_alloc E (swapMap s) = (r, i, b)" by (metis prod.collapse)
  have "r \<noteq> None"
  proof
    assume "r = None"
    with al have "bitmap_alloc E (swapMap s) = (None, i, b)" by simp
    from bitmap_alloc_Some(1,2) [OF D(2) this] assms(2) show False by blast
  qed
  then obtain e where "bitmap_alloc E (swapMap s) = (Some e, i, b)" using al by blast
  from swap_out_full [OF D(4,3) this] getAvailableSwap_ok [OF D(4)] swap_space_left [OF D(4,3)]
  show ?thesis by blast
qed

theorem swap_full_not_detected_witness:
  "\<exists>e b. swap_out (sim_ops 1) 0x20000 (sim_boot 1 [0] ()) = Ret (Some e, 0x20000, (sim_boot 1 [0] ())\<lparr>swapMap := b\<rparr>)"
proof -
  have "swap_inv (sim_ops 1) 1 (sim_boot 1 [0] ())" by (rule sim_boot_swap_inv) auto
  from swap_full_not_detected [OF this, of "0x20000"] show ?thesis by auto
qed

text \<open>
  C38. When the read of a swapped page fails, \<open>swap_in\<close> returns the error without releasing
  \<open>swap_lock\<close>: the next use of the swap file by that thread stops the kernel.
\<close>

theorem swap_in_error_leaks_lock:
  assumes "swap_ok E n s" "unat slot < n" "slot_data E s (unat slot) = (Some e, bs)"
  shows "\<exists>t. swap_in E slot ram rm s = Ret (Some e, slot, t) \<and> lock_do_i_hold t (swap_lock t) \<and>
    swap_out E p t = Panic ''KASSERT''"
proof -
  let ?t = "s\<lparr>swap_lock := lock_by (curthread s) (swap_lock s), physmem := mem_write ram bs (physmem s)\<rparr>"
  have held: "lock_do_i_hold ?t (swap_lock ?t)" by simp
  then have "lock_acquire ?t (swap_lock ?t) = Panic ''KASSERT''" by (rule lk.acquire_held)
  then have "swap_out E p ?t = Panic ''KASSERT''" by (simp add: swap_out_def)
  with swap_in_error [OF assms] held show ?thesis by blast
qed

theorem swap_in_error_leaks_lock_witness:
  "\<exists>t. swap_in ((sim_ops 4)\<lparr>vop_read := \<lambda>v off n d. (Some (Eother 5), [])\<rparr>) 1 0x20000 True (sim_boot 4 [1] ()) = Ret (Some (Eother 5), 1, t)"
proof -
  let ?E = "(sim_ops 4)\<lparr>vop_read := \<lambda>v off n d. (Some (Eother 5), [])\<rparr>"
  have "swap_ok (sim_ops 4) 4 (sim_boot 4 [1] ())" by (rule sim_boot_swap_ok) auto
  then have "swap_ok ?E 4 (sim_boot 4 [1] ())" by (simp add: swap_ok_def swap_slots_def)
  moreover have "slot_data ?E (sim_boot 4 [1] ()) 1 = (Some (Eother 5), [])" by (simp add: slot_data_def)
  ultimately show ?thesis using swap_in_error_leaks_lock [of ?E 4 "sim_boot 4 [1] ()" 1 "Eother 5" "[]" "0x20000" True] by auto
qed

section \<open>Physical frames\<close>

text \<open>
  C24. The search for a victim of \<open>getPage\<close> returns exactly if the address space has a frame that is not
  reserved; otherwise the kernel loops forever. What it returns is such a frame, the first one in cyclic order
  from the round robin index, found within one round over all frames, and the index is left behind it.
\<close>

theorem victim_search_terminates:
  assumes "next_svic s < coremapSize s"
  shows "((\<exists>r. victim_loop as s = Some r) \<longleftrightarrow> (\<exists>i<coremapSize s. evictable s as i)) \<and>
    (\<forall>i t. victim_loop as s = Some (i, t) \<longrightarrow> i < coremapSize s \<and> evictable s as i \<and>
      t = s\<lparr>next_svic := (i + 1) mod coremapSize s\<rparr> \<and>
      (\<exists>d<coremapSize s. i = (next_svic s + d) mod coremapSize s \<and>
        (\<forall>k<d. \<not> evictable s as ((next_svic s + k) mod coremapSize s))))"
proof (cases "\<exists>i<coremapSize s. evictable s as i")
  case True
  then obtain i where "i < coremapSize s" "evictable s as i" by blast
  from victim_loop_first [OF assms this] obtain d where d: "d < coremapSize s"
    "evictable s as ((next_svic s + d) mod coremapSize s)" "\<forall>k<d. \<not> evictable s as ((next_svic s + k) mod coremapSize s)"
    "victim_loop as s = Some ((next_svic s + d) mod coremapSize s,
       s\<lparr>next_svic := ((next_svic s + d) mod coremapSize s + 1) mod coremapSize s\<rparr>)" by (elim exE conjE) (rule that)
  then show ?thesis using True assms by auto
next
  case False
  then have "victim_loop as s = None" using victim_loop_diverges [OF assms] by blast
  then show ?thesis using False by simp
qed

theorem victim_search_terminates_witness:
  "(\<exists>r. victim_loop (Some 0) (sim_vm [] sim_pt) = Some r) \<and> \<not> (\<exists>r. victim_loop (Some 7) (sim_vm [] sim_pt) = Some r)"
  using victim_search_terminates [of "sim_vm [] sim_pt" "Some 0"] victim_search_terminates [of "sim_vm [] sim_pt" "Some 7"]
  by (simp add: evictable_def sim_frame_def)

text \<open>
  C33. Without any frame of its own that could be evicted, an address space that asks for a frame when
  memory is full hangs the kernel.
\<close>

theorem getPage_hangs:
  assumes "core_ok s" "swap_inv E n s" "\<forall>i<coremapSize s. \<not> frame_free s i"
    and "\<forall>i<coremapSize s. c_as (coremap s ! i) \<noteq> Some a"
  shows "getPage E res va (Some a) s = Diverges"
proof -
  let ?t = "spinlock_acquire s"
  note sok = swap_invD(4) [OF assms(2)] and n0 = swap_invD(3) [OF assms(2)]
  have "getAvailableSwap ?t = Ret (word_of_int (swapFileSize ?t - uint (used ?t)), ?t)"
    by (rule getAvailableSwap_ok [of E n]) (simp add: sok)
  moreover have "word_of_int (swapFileSize ?t - uint (used ?t)) \<noteq> (0 :: w32)"
    by (rule swap_space_left [of E n, OF _ n0]) (simp add: sok)
  moreover have "victim_loop (Some a) ?t = None"
    by (rule victim_loop_diverges) (use assms core_okD(3) [OF assms(1)] in \<open>simp_all add: evictable_def\<close>)
  moreover have "first_idx (frame_free s) 0 (coremapSize s) = None" using assms(3) by (simp add: no_free_first)
  ultimately show ?thesis
    using core_okD(1,3) [OF assms(1)] by (simp add: getPage_def)
qed

theorem getPage_hangs_witness: "getPage (sim_ops 4) False 0x400000 (Some 7) (sim_vm [] sim_pt) = Diverges"
proof (rule getPage_hangs [of _ "sim_ops 4" 4])
  show "core_ok (sim_vm [] sim_pt)" "swap_inv (sim_ops 4) 4 (sim_vm [] sim_pt)"
    by (rule vm_invD [OF sim_vm_inv])+
qed (simp_all add: sim_frame_def CUSED_def)

text \<open>
  C19. The allocator is first fit: when a run of \<open>n\<close> free frames exists, \<open>getPages\<close> returns the address
  of the first one there is, takes exactly its frames, records its length, and keeps the map well
  formed.
\<close>

theorem getPages_first_fit:
  assumes "core_ok s" "va AND 3 = 0" "0 < n" "{g..<g + n} \<subseteq> free_frames s"
  shows "\<exists>f t. getPages E (int n) va as s = Ret (frame_addr s f, t) \<and> {f..<f + n} \<subseteq> free_frames s \<and> f \<le> g \<and>
    free_frames t = free_frames s - {f..<f + n} \<and> allocpages (coremap t ! f) = n \<and> core_ok t"
proof -
  obtain f t where t: "getPages E (int n) va as s = Ret (frame_addr s f, t)" "{f..<f + n} \<subseteq> free_frames s"
    "f \<le> g" "free_frames t = free_frames s - {f..<f + n}" "core_ok t"
    "\<forall>k<coremapSize s. allocpages (coremap t ! k) = (if k = f then n else allocpages (coremap s ! k))"
    using cm.alloc_ok [of s va n g E as] assms by blast
  have "f \<in> free_frames s" using t(2) assms(3) by (meson atLeastLessThan_iff less_add_same_cancel1 order_refl subsetD)
  then have "f < coremapSize s" by (simp add: free_frames_def)
  with t show ?thesis by auto
qed

theorem getPages_first_fit_witness:
  "\<exists>f t. getPages (sim_ops 4) (int 2) 0x400000 None sim_free = Ret (frame_addr sim_free f, t) \<and> f \<le> 1"
proof -
  have "{1..<1 + 2} \<subseteq> free_frames sim_free" by auto
  from getPages_first_fit [OF sim_free_ok(1) _ _ this, of "0x400000" "sim_ops 4" None] show ?thesis by auto
qed

text \<open>
  C20. Frames that were allocated and given back are free again: when there is a run of \<open>n\<close> free frames,
  \<open>getPages\<close> of \<open>n\<close> frames returns, and after \<open>freepages\<close> of the address it returned the free frames are those from
  before.
\<close>

theorem frames_round_trip:
  assumes "core_ok s" "va AND 3 = 0" "0 < n" "{g..<g + n} \<subseteq> free_frames s"
  shows "\<exists>p s1 s2. getPages E (int n) va as s = Ret (p, s1) \<and> freepages p s1 = Ret s2 \<and> core_ok s2 \<and>
    free_frames s2 = free_frames s"
  using cm.alloc_release [of s va n g E as] assms by blast

theorem frames_round_trip_witness:
  "\<exists>p s1 s2. getPages (sim_ops 4) (int 2) 0x400000 None sim_free = Ret (p, s1) \<and> freepages p s1 = Ret s2"
proof -
  have "{1..<1 + 2} \<subseteq> free_frames sim_free" by auto
  from frames_round_trip [OF sim_free_ok(1) _ _ this, of "0x400000" "sim_ops 4" None] show ?thesis by auto
qed

text \<open>
  C21. Two successive allocations do not overlap. If \<open>getPages\<close> is called for \<open>n\<close> frames while there is a run of \<open>n\<close>
  free frames, and then for \<open>m\<close> frames, for the same or another address space and page, while there is a run of \<open>m\<close>
  free ones, then the two blocks of memory that the calls return have no byte in common. Without a free run
  this need not hold: a call for one frame then takes the frame of another page.
\<close>

theorem allocations_disjoint:
  assumes "core_ok s" "0 < n" "0 < m" "va AND 3 = 0" "wa AND 3 = 0" "{g..<g + n} \<subseteq> free_frames s"
    and "getPages E (int n) va as s = Ret (p, s1)" "{h..<h + m} \<subseteq> free_frames s1"
    and "getPages E (int m) wa bs s1 = Ret (q, s2)" "i < n * 4096" "k < m * 4096"
  shows "p + of_nat i \<noteq> q + of_nat k"
proof -
  obtain f where f: "p = frame_addr s f" "f + n \<le> coremapSize s" "free_frames s1 = free_frames s - {f..<f + n}" "core_ok s1"
    "frame_addr s1 = frame_addr s" "coremapSize s1 = coremapSize s"
  proof -
    have "\<exists>f. p = frame_addr s f \<and> {f..<f + n} \<subseteq> free_frames s \<and> f + n \<le> coremapSize s \<and>
        free_frames s1 = free_frames s - {f..<f + n} \<and> (core_ok s1 \<and> va AND 3 = 0) \<and> frame_addr s1 = frame_addr s \<and>
        coremapSize s1 = coremapSize s" by (rule cm.alloc_run [OF _ assms(2,6,7)]) (use assms(1,4) in simp)
    then show ?thesis by (elim exE conjE) (rule that)
  qed
  obtain l where l: "q = frame_addr s l" "{l..<l + m} \<subseteq> free_frames s1" "l + m \<le> coremapSize s"
  proof -
    have "\<exists>l. q = frame_addr s1 l \<and> {l..<l + m} \<subseteq> free_frames s1 \<and> l + m \<le> coremapSize s1 \<and>
        free_frames s2 = free_frames s1 - {l..<l + m} \<and> (core_ok s2 \<and> wa AND 3 = 0) \<and> frame_addr s2 = frame_addr s1 \<and>
        coremapSize s2 = coremapSize s1" by (rule cm.alloc_run [OF _ assms(3,8,9)]) (use f(4) assms(5) in simp)
    then show ?thesis unfolding f(5,6) by (elim exE conjE) (rule that)
  qed
  have byte: "frame_addr s b + of_nat x = frame_addr s (b + x div 4096) + of_nat (x mod 4096)" for b x
  proof -
    have "of_nat x = (of_nat (x div 4096) * 4096 + of_nat (x mod 4096) :: w32)"
      by (metis div_mult_mod_eq of_nat_add of_nat_mult of_nat_numeral)
    then show ?thesis by (simp add: frame_addr_def PAGE_SIZE_def algebra_simps)
  qed
  have in_run: "f + i div 4096 \<in> {f..<f + n}" "l + k div 4096 \<in> {l..<l + m}" using assms(10,11) by auto
  then have "f + i div 4096 \<noteq> l + k div 4096" using f(3) l(2) by (metis Diff_iff subsetD)
  then have ne: "f + i div 4096 \<noteq> l + k div 4096" "f + i div 4096 < coremapSize s" "l + k div 4096 < coremapSize s"
    using in_run f(2) l(3) by auto
  have "4096 \<le> unat (frame_addr s (f + i div 4096) + of_nat (i mod 4096) - frame_addr s (l + k div 4096))"
    by (rule frames_disjoint [OF assms(1)]) (use ne in auto)
  moreover have "unat (of_nat (k mod 4096) :: w32) < 4096" by (simp add: unat_of_nat)
  ultimately show ?thesis
    unfolding f(1) l(1) byte [of f i] byte [of l k] by (metis add_diff_cancel_left' not_less)
qed

theorem allocations_disjoint_witness:
  "\<exists>p q s1 s2. getPages (sim_ops 4) (int 1) 0x400000 None sim_free = Ret (p, s1) \<and>
     getPages (sim_ops 4) (int 2) 0x500000 (Some 1) s1 = Ret (q, s2) \<and> p + of_nat 5 \<noteq> q + of_nat 4109"
proof -
  have g: "{0..<0 + 1} \<subseteq> free_frames sim_free" "(0x400000 :: w32) AND 3 = 0" "(0x500000 :: w32) AND 3 = 0" by auto
  obtain p s1 where s1: "getPages (sim_ops 4) (int 1) 0x400000 None sim_free = Ret (p, s1)"
    "free_frames s1 = free_frames sim_free - {0..<0 + 1}" "core_ok s1"
    using cm.alloc_ok [of sim_free "0x400000" 1 0 "sim_ops 4" None] g by auto
  have "{1..<1 + 2} \<subseteq> free_frames sim_free" by auto
  then have h: "{1..<1 + 2} \<subseteq> free_frames s1" unfolding s1(2) by fastforce
  obtain q s2 where s2: "getPages (sim_ops 4) (int 2) 0x500000 (Some 1) s1 = Ret (q, s2)"
    using cm.alloc_ok [of s1 "0x500000" 2 1 "sim_ops 4" "Some 1", OF conjI [OF s1(3) g(3)] _ h] by (elim meta_impE exE conjE) (simp, rule that)
  from allocations_disjoint [OF sim_free_ok(1) _ _ g(2,3,1) s1(1) h s2, of 5 4109] have "p + of_nat 5 \<noteq> q + of_nat 4109" by simp
  with s1(1) s2 show ?thesis by (intro exI conjI)
qed

text \<open>
  C23. \<open>coremap_init\<close> on a machine with up to 512 MB: the frames it manages start above everything in
  use at boot and above the array that describes them, they are page aligned, they end within
  memory, and all are free.
\<close>

theorem coremap_init_bounds:
  assumes "unat firstfree + 4095 \<le> unat ramsize" "unat ramsize \<le> 0x20000000" "next_svic s = 0"
    and "0 < coremapSize (coremap_init ramsize firstfree s)"
  shows "core_ok (coremap_init ramsize firstfree s) \<and>
    free_frames (coremap_init ramsize firstfree s) = {..<coremapSize (coremap_init ramsize firstfree s)} \<and>
    unat firstfree + coremapSize (coremap_init ramsize firstfree s) * 12 \<le> unat (firstpaddr (coremap_init ramsize firstfree s)) \<and>
    unat (firstpaddr (coremap_init ramsize firstfree s)) + coremapSize (coremap_init ramsize firstfree s) * 4096 \<le> unat ramsize"
proof -
  note V = coremap_init_values [OF assms(1,2)]
  have "unat firstfree + coremapSize (coremap_init ramsize firstfree s) * 12 \<le> unat (firstpaddr (coremap_init ramsize firstfree s))"
    using V(4,6) unfolding V(1) [of s] V(2) [of s] by linarith
  moreover have "unat (firstpaddr (coremap_init ramsize firstfree s)) + coremapSize (coremap_init ramsize firstfree s) * 4096 \<le> unat ramsize"
    using V(5) unfolding V(1) [of s] V(2) [of s] .
  ultimately show ?thesis using coremap_init_ok [OF assms] by blast
qed

theorem coremap_init_bounds_witness:
  "core_ok (coremap_init 0x100000 0x32A00 (sim_vm [] sim_pt))"
proof -
  have "0 < coremapSize (coremap_init 0x100000 0x32A00 (sim_vm [] sim_pt))"
    using coremap_init_values(1) [of "0x32A00" "0x100000" "sim_vm [] sim_pt"] by simp
  then show ?thesis using coremap_init_bounds [of "0x32A00" "0x100000" "sim_vm [] sim_pt"] by simp
qed

text \<open>
  C36. When memory is full and the request comes without an address space (the kernel's own
  \<open>alloc_kpages\<close>), \<open>getPage\<close> neither fails nor evicts: it returns the first frame of memory, which is
  in use, and returns with \<open>coremap_lock\<close> held.
\<close>

theorem getPage_full_hands_out_used_frame:
  assumes "core_ok s" "sched_ok s" "\<forall>i<coremapSize s. \<not> frame_free s i"
  shows "\<exists>t. getPage E res va None s = Ret (frame_addr s 0, t) \<and> \<not> frame_free s 0 \<and>
    c_spinlocks (cur_cpu t) = c_spinlocks (cur_cpu s) + 1 \<and> coremap t = coremap s"
proof -
  have "first_idx (frame_free s) 0 (coremapSize s) = None" using assms(3) by (simp add: no_free_first)
  moreover have "0 < coremapSize s" using core_okD(3) [OF assms(1)] by simp
  ultimately show ?thesis
    using getPage_full_no_as [OF assms(1), of E res va] assms(2,3)
    by (intro exI [of _ "spinlock_acquire s"]) (simp add: frame_addr_def)
qed

theorem getPage_full_hands_out_used_frame_witness:
  "\<exists>t. getPage (sim_ops 4) False 0 None (sim_vm [] sim_pt) = Ret (0x20000, t)"
proof -
  have "sched_ok (sim_vm [] sim_pt)" using sim_vm_state(3) by (simp add: can_lock_def)
  then show ?thesis
    using getPage_full_hands_out_used_frame [of "sim_vm [] sim_pt" "sim_ops 4" False 0] vm_invD(6) [OF sim_vm_inv]
    by (auto simp: sim_frame_def CUSED_def)
qed

section \<open>Address spaces\<close>

text \<open>
  C22. The regions an executable defines: \<open>as_define_region\<close> appends a segment that starts and ends on
  page boundaries, covers exactly the pages the byte range [vaddr, vaddr + memsize) touches, and
  remembers where in its first page the range starts, for every range below the kernel's half of the
  address space.
\<close>

theorem as_define_region_covers:
  assumes "unat va + unat memsize \<le> 2 ^ 31" "kmem s = True # km"
  shows "\<exists>g t. as_define_region a va memsize filesize r w x off s = (None, t) \<and>
    as_segment (aspaces t a) = as_segment (aspaces s a) @ [g] \<and> seg_ok g \<and>
    unat (seg_start g) \<le> unat va \<and> unat va < unat (seg_start g) + 4096 \<and>
    unat va + unat memsize \<le> seg_end g \<and> seg_end g < unat va + unat memsize + 4096 \<and>
    unat (initoffset g) = unat va - unat (seg_start g) \<and> seg_filesize g = filesize \<and>
    (\<forall>b. b \<noteq> a \<longrightarrow> aspaces t b = aspaces s b)"
  using region_bounds [OF assms(1), of "region va memsize filesize r w x off" filesize r w x off]
  by (simp add: as_define_region_eq [OF assms(2)] upd_as_def) (simp add: region_def Let_def)

theorem as_define_region_covers_witness:
  "\<exists>g t. as_define_region 0 0x400074 0x1000 0x1000 4 0 1 0 (sim_free\<lparr>kmem := [True]\<rparr>) = (None, t) \<and>
    as_segment (aspaces t 0) = as_segment (aspaces (sim_free\<lparr>kmem := [True]\<rparr>) 0) @ [g] \<and> seg_ok g \<and>
    unat (seg_start g) \<le> 0x400074 \<and> 0x400074 < unat (seg_start g) + 4096 \<and>
    0x401074 \<le> seg_end g \<and> seg_end g < 0x402074"
  using as_define_region_covers [where va = "0x400074" and memsize = "0x1000" and s = "sim_free\<lparr>kmem := [True]\<rparr>" and km = "[]" and a = 0 and filesize = "0x1000" and r = 4 and w = 0 and x = 1 and off = 0]
  by auto

text \<open>
  C11. \<open>as_prepare_load\<close> on a new address space \<open>a\<close>: with memory for its segment and its page table, it
  adds the stack segment, builds one page table entry per page of the segments in their order, none
  of them in memory or in the swap file, takes just the frames of the page table, and keeps the
  invariant of the VM system, now for \<open>a\<close> too; the pages of every other address space keep their
  contents.
\<close>

theorem as_prepare_load_correct:
  assumes "loadable E n A a s"
  shows "\<exists>f t. as_prepare_load E a s = Ret (None, t) \<and> vm_inv E n (insert a A) t \<and>
    as_segment (aspaces t a) = load_segs s a \<and> ptabs t a = pt_of_segments (load_segs s a) \<and>
    pt_at t a f (pt_frames (length (ptabs t a))) \<and>
    {f..<f + pt_frames (length (ptabs t a))} \<subseteq> free_frames s \<and>
    free_frames t = free_frames s - {f..<f + pt_frames (length (ptabs t a))} \<and>
    (\<forall>b\<in>A. ptabs t b = ptabs s b \<and> (\<forall>k. content E t b k = content E s b k))"
  by (rule loadableE [OF assms]) (intro exI conjI; simp)

theorem as_prepare_load_correct_witness:
  "\<exists>t. as_prepare_load (sim_vm_ops 4) 0 sim_new = Ret (None, t) \<and> vm_inv (sim_vm_ops 4) 4 {0} t \<and>
    length (ptabs t 0) = 19"
  using as_prepare_load_correct [OF sim_new_loadable] sim_new_pages
  by (elim exE conjE) (intro exI conjI, assumption+, simp)

text \<open>
  C12. \<open>as_destroy\<close> gives back all an address space holds and nothing else: its page table's frames, the
  frames of its resident pages and the swap slots of its other pages are free again, the invariant
  holds for the address spaces that remain, and each page of theirs keeps its contents.
\<close>

theorem as_destroy_releases:
  assumes "vm_inv E n A s" "a \<in> A" "close_laws E" "pt_at s a f k"
  shows "\<exists>t. as_destroy E a s = Ret t \<and> vm_inv E n (A - {a}) t \<and>
    free_frames t = free_frames s \<union> {f..<f + k} \<union> {i. i < coremapSize s \<and> owner s i = Some a} \<and>
    slot_bytes E t = slot_bytes E s |` (- swapped_slots (ptabs s a) 0) \<and>
    (\<forall>b\<in>A - {a}. ptabs t b = ptabs s b \<and> (\<forall>j<length (ptabs s b). content E t b j = content E s b j))"
  by (rule as_destroy_ok [OF assms])

theorem as_destroy_releases_witness:
  "\<exists>t. as_destroy (sim_vm_ops 4) 0 sim_dying = Ret t \<and> vm_inv (sim_vm_ops 4) 4 {} t \<and> free_frames t = {0, 1}"
  using as_destroy_releases [OF sim_dying_inv(1) insertI1 sim_close sim_dying_inv(2)]
  unfolding sim_dying_inv(3,4) by (elim exE conjE) (intro exI conjI, assumption+, simp, force)

text \<open>
  C13. The life of an address space leaks nothing: destroying an address space that \<open>as_prepare_load\<close>
  set up leaves the same free frames and the same swap slots as before the load, and the other
  address spaces as they were.
\<close>

theorem as_lifecycle:
  assumes "loadable E n A a s" "close_laws E"
  shows "\<exists>t u. as_prepare_load E a s = Ret (None, t) \<and> as_destroy E a t = Ret u \<and> vm_inv E n A u \<and>
    free_frames u = free_frames s \<and> slot_bytes E u = slot_bytes E s \<and>
    (\<forall>b\<in>A. ptabs u b = ptabs s b \<and> (\<forall>j<length (ptabs s b). content E u b j = content E s b j))"
  by (rule prepare_destroy [OF assms])

theorem as_lifecycle_witness:
  "\<exists>t u. as_prepare_load (sim_vm_ops 4) 0 sim_new = Ret (None, t) \<and> as_destroy (sim_vm_ops 4) 0 t = Ret u \<and>
    free_frames u = {..<3}"
  using as_lifecycle [OF sim_new_loadable sim_close] sim_new_free
  by (elim exE conjE) (intro exI conjI, assumption+, simp)

section \<open>Virtual memory as the user sees it\<close>

text \<open>
  C1. Demand paging is invisible to a program. Take any sequence of loads and stores by the running
  process on writable pages (pages it has used before, or pages of its stack): each access runs to
  its end, the loads return the bytes a flat array of bytes would return, and the bytes of all its
  writable pages afterwards are those of the array, however few frames there are and whatever
  the kernel had to evict, as long as the swap file has a slot for every page and the process has,
  or can get, one frame. The pages of all other address spaces keep their contents.
\<close>

theorem paging_refines_flat_memory:
  assumes "running E n A a s" "view E s a m" "\<forall>c\<in>set cs. usable E s a (op_addr c)"
  shows "\<exists>t. user_run E cs s = Ret (fst (flat_run cs m), t) \<and> running E n A a t \<and>
    view E t a (snd (flat_run cs m)) \<and> others_kept E A a s t"
  using user_run_flat [OF assms] by blast

theorem paging_refines_flat_memory_witness:
  "\<exists>t. user_run (sim_ops 4) [Store 0x7FFFF123 5, Store 0x400010 7, Load 0x7FFFF123, Load 0x400010, Load 0x400011]
     (sim_vm [] sim_pt) = Ret ([5, 7, 0], t)"
proof -
  have st: "stack_page (sim_vm [] sim_pt) 0 1" by (simp add: stack_page_def sim_pt_def)
  have "usable (sim_ops 4) (sim_vm [] sim_pt) 0 va" if "va \<in> {0x7FFFF123, 0x400010, 0x400011}" for va
    unfolding usable_def
    using that st by (intro exI [of _ "if va = 0x7FFFF123 then 1 else 0"])
      (auto simp: sim_pt_def PAGE_FRAME_def readonly_def content_def)
  then have us: "\<forall>c\<in>set [Store 0x7FFFF123 5, Store 0x400010 7, Load 0x7FFFF123, Load 0x400010, Load 0x400011].
      usable (sim_ops 4) (sim_vm [] sim_pt) 0 (op_addr c)" by (simp add: op_addr_def)
  have fl: "fst (flat_run [Store 0x7FFFF123 5, Store 0x400010 7, Load 0x7FFFF123, Load 0x400010, Load 0x400011] (\<lambda>_. 0)) =
      [5, 7, 0]" by simp
  show ?thesis
    using paging_refines_flat_memory [OF sim_vm_running sim_vm_view us] unfolding fl by (elim exE conjE) (rule exI)
qed

section \<open>Threads\<close>

text \<open>
  C25. Scheduling on a CPU is round robin: after \<open>n\<close> calls of \<open>thread_yield\<close>, each with the context switch
  it causes, the threads of the CPU are in the order of before rotated \<open>n\<close> times. So every thread in the
  run queue runs again within one round.
\<close>

theorem thread_yield_round_robin:
  assumes "rr_ok s"
  shows "(\<exists>u. yields E cpu_idle n s = Ret u \<and> run_order u = rotate n (run_order s)) \<and>
    (t \<in> set (run_order s) \<longrightarrow> (\<exists>k<length (run_order s). \<exists>u. yields E cpu_idle k s = Ret u \<and> curthread u = t))"
proof (intro conjI impI)
  show "\<exists>u. yields E cpu_idle n s = Ret u \<and> run_order u = rotate n (run_order s)"
    using yields_rotate [OF assms, of E cpu_idle n] by blast
  assume "t \<in> set (run_order s)"
  then obtain k where k: "k < length (run_order s)" "run_order s ! k = t" by (auto simp: in_set_conv_nth)
  from yields_rotate [OF assms, of E cpu_idle k] obtain u
    where u: "yields E cpu_idle k s = Ret u" "run_order u = rotate k (run_order s)" by (elim exE conjE)
  have "curthread u = hd (run_order u)" by (simp add: run_order_def)
  also have "\<dots> = t" using u(2) k by (simp add: hd_rotate_conv_nth run_order_def)
  finally show "\<exists>k<length (run_order s). \<exists>u. yields E cpu_idle k s = Ret u \<and> curthread u = t" using u(1) k(1) by blast
qed

theorem thread_yield_round_robin_witness:
  "\<exists>k<5. \<exists>u. yields (sim_vm_ops 4) id k sim_threads = Ret u \<and> curthread u = 3"
proof -
  have "length (run_order sim_threads) = 5" "3 \<in> set (run_order sim_threads)" by (simp_all add: run_order_def)
  with thread_yield_round_robin [OF sim_threads_ok(1), of "sim_vm_ops 4" id 0 3] show ?thesis by metis
qed

text \<open>
  C15. \<open>thread_consider_migration\<close> loses no thread and duplicates none: the threads on the run queues are
  the same afterwards, each on the queue of the CPU it belongs to; the running thread stays on its CPU;
  and no CPU gets more than its share.
\<close>

theorem migration_keeps_threads:
  assumes "sched_ok s" "home_ok s" "distinct (all_queued s)"
  shows "\<exists>u. thread_consider_migration s = Ret u \<and> mset (all_queued u) = mset (all_queued s) \<and> home_ok u \<and>
    t_cpu (threads u (curthread s)) = t_cpu (threads s (curthread s)) \<and>
    length (queue_of u (curcpu s)) \<le> length (queue_of s (curcpu s)) \<and>
    (\<forall>d. d \<noteq> curcpu s \<longrightarrow> length (queue_of u d) \<le>
       max ((length (all_queued s) + (length (allcpus s) - 1)) div length (allcpus s)) (length (queue_of s d)))"
  using migration_ok [OF assms] by (elim exE conjE) (intro exI conjI, assumption+, simp_all add: cpu_keeps_def)

theorem migration_keeps_threads_witness:
  "\<exists>u. thread_consider_migration sim_threads = Ret u \<and> mset (all_queued u) = {#1, 2, 3, 4#} \<and>
    length (queue_of u 1) \<le> 2"
proof -
  have q: "all_queued sim_threads = [1, 2, 3, 4]" "queue_of sim_threads 1 = []"
    by (simp_all add: all_queued_def queue_of_def sim_cpu_def)
  have n: "length (all_queued sim_threads) = 4" "length (allcpus sim_threads) = 2" by (simp_all add: q)
  from migration_keeps_threads [OF sim_threads_ok(4,2,3)] obtain u
    where "thread_consider_migration sim_threads = Ret u" "mset (all_queued u) = mset (all_queued sim_threads)"
      "\<forall>d. d \<noteq> curcpu sim_threads \<longrightarrow> length (queue_of u d) \<le>
       max ((length (all_queued sim_threads) + (length (allcpus sim_threads) - 1)) div length (allcpus sim_threads))
         (length (queue_of sim_threads d))"
    by (elim exE conjE)
  moreover from this(3) have "length (queue_of u 1) \<le> 2" unfolding n using q(2) by (auto dest: spec [of _ 1])
  ultimately show ?thesis using q by (intro exI [of _ u]) simp
qed

text \<open>
  C28. \<open>thread_fork\<close> that fails for lack of memory fails with \<open>ENOMEM\<close> and leaves nothing behind: no block of
  kernel memory is leaked, no run queue, process or existing thread has changed.
\<close>

theorem thread_fork_no_leak:
  assumes "thread_fork name proc e s = Ret (Some err, u)" "curthread s < next_thread s"
  shows "err = ENOMEM \<and> kheap u = kheap s \<and> allcpus u = allcpus s \<and> procs u = procs s \<and> curthread u = curthread s \<and>
    (\<forall>t<next_thread s. threads u t = threads s t)"
  by (rule fork_error [OF assms])

theorem thread_fork_no_leak_witness:
  "\<exists>u. thread_fork ''t'' (Some 0) 7 (sim_threads\<lparr>kmem := [True, True, False]\<rparr>) = Ret (Some ENOMEM, u) \<and> kheap u = 0"
proof -
  let ?s = "sim_threads\<lparr>kmem := [True, True, False]\<rparr>"
  obtain u where u: "thread_fork ''t'' (Some 0) 7 ?s = Ret (Some ENOMEM, u)"
    by (simp add: thread_fork_def thread_create_def kmalloc_def thread_destroy_def Let_def)
  with thread_fork_no_leak [OF u] show ?thesis by simp
qed

text \<open>
  C27. \<open>thread_fork\<close> that succeeds puts a new thread at the end of the run queue of the caller's CPU: ready
  to run the entry point it was given, in the process it was given, with the stack guard in place.
\<close>

theorem thread_fork_queues:
  assumes "thread_fork name (Some p) e s = Ret (None, u)" "curthread s < next_thread s"
    and "t_cpu (threads s (curthread s)) = Some c" "c < length (allcpus s)" "4 \<le> length (stack_block s)"
  shows "queue_of u c = queue_of s c @ [next_thread s] \<and> t_state (threads u (next_thread s)) = S_READY \<and>
    t_proc (threads u (next_thread s)) = Some p \<and> guard_ok (threads u (next_thread s)) \<and>
    t_entry u (next_thread s) = Some e \<and> p_numthreads (procs u p) = p_numthreads (procs s p) + 1 \<and>
    (\<forall>x. x \<noteq> next_thread s \<longrightarrow> threads u x = threads s x)"
  using fork_success [OF assms] by simp

theorem thread_fork_queues_witness:
  "\<exists>u. thread_fork ''t'' (Some 0) 7 sim_threads = Ret (None, u) \<and> queue_of u 0 = [1, 2, 3, 4, 5] \<and> t_entry u 5 = Some 7"
proof -
  have "\<exists>u. thread_fork ''t'' (Some 0) 7 sim_threads = Ret (None, u)"
    by (rule fork_total [where c = 0 and km = "replicate 17 True"]) (simp_all add: sim_thread_def numeral_eq_Suc)
  then obtain u where u: "thread_fork ''t'' (Some 0) 7 sim_threads = Ret (None, u)" by blast
  have "curthread sim_threads < next_thread sim_threads" "t_cpu (threads sim_threads (curthread sim_threads)) = Some 0"
    "0 < length (allcpus sim_threads)" "4 \<le> length (stack_block sim_threads)" by (simp_all add: sim_thread_def)
  from thread_fork_queues [OF u this] u show ?thesis by (simp add: queue_of_def sim_cpu_def)
qed

text \<open>
  C26. A thread that exits is gone for good: it leaves its process, the next thread of the run queue runs,
  and the first thing that thread does is to free all memory of the dead one.
\<close>

theorem thread_exit_reclaims:
  assumes "sched_ok s" "\<not> c_isidle (cur_cpu s)" "guard_ok (threads s (curthread s))" "stats_ok s"
    and "c_runqueue (cur_cpu s) = t # q" "t \<noteq> curthread s" "c_zombies (cur_cpu s) = []"
    and "t_proc (threads s (curthread s)) = Some p" "0 < p_numthreads (procs s p)"
  shows "\<exists>u v. thread_exit cpu_idle s = Ret u \<and> p_numthreads (procs u p) = p_numthreads (procs s p) - 1 \<and>
    thread_switch_in E u = Ret v \<and> curthread v = t \<and> t_state (threads v t) = S_RUN \<and>
    c_runqueue (cur_cpu v) = q \<and> c_zombies (cur_cpu v) = [] \<and>
    kheap v = kheap s - thread_blocks (threads s (curthread s))"
  by (rule exit_reaped [OF assms])

theorem thread_exit_reclaims_witness:
  "\<exists>u v. thread_exit id (sim_threads\<lparr>kheap := 10\<rparr>) = Ret u \<and> thread_switch_in (sim_vm_ops 4) u = Ret v \<and>
    curthread v = 1 \<and> kheap v = 8"
proof -
  let ?s = "sim_threads\<lparr>kheap := 10\<rparr>"
  have c: "cur_cpu ?s = cur_cpu sim_threads" "stats_ok ?s" "sched_ok ?s"
    using sim_threads_stats sim_threads_ok(4) by (simp_all add: cur_cpu_def stats_ok_def sched_ok_def)
  have "\<exists>u v. thread_exit id ?s = Ret u \<and> p_numthreads (procs u 0) = p_numthreads (procs ?s 0) - 1 \<and>
    thread_switch_in (sim_vm_ops 4) u = Ret v \<and> curthread v = 1 \<and> t_state (threads v 1) = S_RUN \<and>
    c_runqueue (cur_cpu v) = [2, 3, 4] \<and> c_zombies (cur_cpu v) = [] \<and>
    kheap v = kheap ?s - thread_blocks (threads ?s (curthread ?s))"
    by (rule thread_exit_reclaims) (use c in \<open>simp_all add: sim_cpu_def sim_thread_def sim_proc_def guard_ok_def\<close>)
  then show ?thesis by (elim exE conjE) (intro exI conjI, assumption+, simp add: thread_blocks_def sim_thread_def)
qed

section \<open>System calls\<close>

text \<open>
  C7. A \<open>write\<close> system call to the console prints the program's buffer: the characters that appear are the
  bytes of the program's flat memory, wherever the kernel keeps its pages. The program continues behind
  the \<open>syscall\<close> instruction with the number of bytes and no error, its memory and the other processes'
  pages are unchanged, and nothing else in the kernel changes.
\<close>

theorem syscall_write_prints_memory:
  assumes no: "sysno_of E (tf_v0 tf) = Some SYS_write" and fd: "tf_a0 tf \<in> {1, 2}" and spl: "spl_ok s"
    and R: "running E n A a s" "view E s a m" and sz: "tf_a2 tf < 0x80000000"
    and us: "\<forall>i<unat (tf_a2 tf). usable E s a (tf_a1 tf + of_nat i)"
  shows "\<exists>t. syscall X E tf s = Ret (Some (tf\<lparr>tf_v0 := tf_a2 tf, tf_a3 := 0, tf_epc := tf_epc tf + 4\<rparr>), t) \<and>
    console t = console s @ map (\<lambda>i. m (tf_a1 tf + of_nat i)) [0..<unat (tf_a2 tf)] \<and>
    running E n A a t \<and> view E t a m \<and> others_kept E A a s (io t (console s) (con_in s))"
  by (rule syscall_writes [OF assms])

theorem syscall_write_prints_memory_witness:
  "\<exists>t. syscall sim_ext (sim_kern_ops False 4) (sim_tf 55 1 0x7FFFF120 3) (sim_kern []) =
      Ret (Some ((sim_tf 3 1 0x7FFFF120 3)\<lparr>tf_epc := 0x400104\<rparr>), t) \<and> console t = [0, 0, 0]"
proof -
  let ?tf = "sim_tf 55 1 0x7FFFF120 3"
  have tf: "tf_v0 ?tf = 55" "tf_a0 ?tf = 1" "tf_a1 ?tf = 0x7FFFF120" "tf_a2 ?tf = 3" by (simp_all add: sim_tf_def)
  have no: "sysno_of (sim_kern_ops False 4) (tf_v0 ?tf) = Some SYS_write" "tf_a0 ?tf \<in> {1, 2}" "tf_a2 ?tf < 0x80000000"
    by (simp_all add: tf sim_sysno_def)
  have us: "\<forall>i<unat (tf_a2 ?tf). usable (sim_kern_ops False 4) (sim_kern []) 0 (tf_a1 ?tf + of_nat i)"
    unfolding tf by (rule sim_page_usable)
  have e: "?tf\<lparr>tf_v0 := tf_a2 ?tf, tf_a3 := 0, tf_epc := tf_epc ?tf + 4\<rparr> = (sim_tf 3 1 0x7FFFF120 3)\<lparr>tf_epc := 0x400104\<rparr>"
    "console (sim_kern []) @ map (\<lambda>i. 0) [0..<unat (tf_a2 ?tf)] = [0, 0, 0 :: byte]"
    unfolding tf upt3 by (simp_all add: sim_tf_def)
  from syscall_write_prints_memory [OF no(1,2) sim_kern_spl sim_kern_running no(3) us, of sim_ext] show ?thesis
    unfolding e by (elim exE conjE) (intro exI conjI)
qed

text \<open>
  C8. A \<open>read\<close> system call from the console stores the next characters of the input in the program's
  buffer and in no other byte of its memory, and returns their number.
\<close>

theorem syscall_read_stores_input:
  assumes no: "sysno_of E (tf_v0 tf) = Some SYS_read" and fd: "tf_a0 tf = 0" and spl: "spl_ok s"
    and R: "running E n A a s" "view E s a m" and sz: "tf_a2 tf < 0x80000000" "unat (tf_a2 tf) = length bs"
    and us: "\<forall>i<unat (tf_a2 tf). usable E s a (tf_a1 tf + of_nat i)"
    and c: "con_in s = bs @ cs" "\<forall>b\<in>set bs. sint b \<ge> 0"
  shows "\<exists>t. syscall X E tf s = Ret (Some (tf\<lparr>tf_v0 := tf_a2 tf, tf_a3 := 0, tf_epc := tf_epc tf + 4\<rparr>), t) \<and>
    con_in t = cs \<and> running E n A a t \<and> view E t a (mem_write (tf_a1 tf) bs m) \<and>
    others_kept E A a s (io t (console s) (con_in s))"
  by (rule syscall_reads [OF assms])

theorem syscall_read_stores_input_witness:
  "\<exists>t. syscall sim_ext (sim_kern_ops False 4) (sim_tf 50 0 0x7FFFF120 3) (sim_kern [104, 105, 10, 120]) =
      Ret (Some ((sim_tf 3 0 0x7FFFF120 3)\<lparr>tf_epc := 0x400104\<rparr>), t) \<and> con_in t = [120] \<and>
      view (sim_kern_ops False 4) t 0 (mem_write 0x7FFFF120 [104, 105, 10] (\<lambda>_. 0))"
proof -
  let ?tf = "sim_tf 50 0 0x7FFFF120 3"
  have tf: "tf_v0 ?tf = 50" "tf_a0 ?tf = 0" "tf_a1 ?tf = 0x7FFFF120" "tf_a2 ?tf = 3" by (simp_all add: sim_tf_def)
  have no: "sysno_of (sim_kern_ops False 4) (tf_v0 ?tf) = Some SYS_read" "tf_a2 ?tf < 0x80000000"
    "unat (tf_a2 ?tf) = length [104, 105, 10 :: byte]" "con_in (sim_kern [104, 105, 10, 120]) = [104, 105, 10] @ [120]"
    "\<forall>b\<in>set [104, 105, 10 :: byte]. 0 \<le> sint b"
    by (simp_all add: tf sim_sysno_def)
  have us: "\<forall>i<unat (tf_a2 ?tf). usable (sim_kern_ops False 4) (sim_kern [104, 105, 10, 120]) 0 (tf_a1 ?tf + of_nat i)"
    unfolding tf by (rule sim_page_usable)
  have e: "?tf\<lparr>tf_v0 := tf_a2 ?tf, tf_a3 := 0, tf_epc := tf_epc ?tf + 4\<rparr> = (sim_tf 3 0 0x7FFFF120 3)\<lparr>tf_epc := 0x400104\<rparr>"
    unfolding tf by (simp_all add: sim_tf_def)
  from syscall_read_stores_input [OF no(1) tf(2) sim_kern_spl sim_kern_running no(2,3) us no(4,5), of sim_ext] show ?thesis
    unfolding e tf(3) by (elim exE conjE) (intro exI conjI)
qed

section \<open>Processes\<close>

text \<open>
  C6. What a process passes to \<open>_exit\<close> reaches its parent, and its memory and pid are released. The parent
  sleeps in \<open>proc_wait\<close>; \<open>_exit\<close> wakes it and gives it the CPU, and \<open>proc_wait\<close> returns the low eight bits of
  the status. The frames, the page table and the swap slots of the child are free again, its pid is free,
  the other address spaces keep every page, and the invariant of the VM system holds.
\<close>

theorem exit_wait_delivers:
  assumes inv: "vm_inv E n A s" and cl: "close_laws E" and a: "a \<in> A" "p_addrspace (procs s p) = Some a" and pt: "pt_at s a f k"
    and ok: "\<not> c_isidle (cur_cpu s)" "guard_ok (threads s (curthread s))" "c_runqueue (cur_cpu s) = []" "c_zombies (cur_cpu s) = []"
    and p: "curproc s = Some p" "p_numthreads (procs s p) = 1" "kproc s \<noteq> Some p"
      "0 < p_pid (procs s p)" "p_pid (procs s p) \<le> MAX_PROC"
    and sem: "p_sem (procs s p) = Some sem" "wc_threads (sem_wchan sem) = [w]" "sem_count sem = 0"
    and w: "w \<noteq> curthread s" "t_cpu (threads s w) = Some (curcpu s)" "t_proc (threads s w) \<noteq> Some p" "\<not> t_in_interrupt (threads s w)"
  shows "\<exists>u v x. sys__exit cpu_idle status s = Ret u \<and> curthread u = w \<and> thread_switch_in E u = Ret v \<and>
    proc_wait E p v = Ret (status AND 0xff, x) \<and> vm_inv E n (A - {a}) x \<and>
    free_frames x = free_frames s \<union> {f..<f + k} \<union> {i. i < coremapSize s \<and> owner s i = Some a} \<and>
    slot_bytes E x = slot_bytes E s |` (- swapped_slots (ptabs s a) 0) \<and>
    (\<forall>b\<in>A - {a}. ptabs x b = ptabs s b \<and> (\<forall>j<length (ptabs s b). content E x b j = content E s b j)) \<and>
    ptab_proc x = (ptab_proc s)[p_pid (procs s p) := None]"
  by (rule exit_wait [OF assms])

theorem exit_wait_delivers_witness:
  "\<exists>u v x. sys__exit id 263 sim_child = Ret u \<and> thread_switch_in (sim_vm_ops 4) u = Ret v \<and>
    proc_wait (sim_vm_ops 4) 1 v = Ret (7, x) \<and> vm_inv (sim_vm_ops 4) 4 {} x \<and> free_frames x = {0, 1}"
proof -
  note S = same_storeD [OF sim_child_store]
  have pt: "pt_at sim_child 0 1 1" using sim_dying_inv(2) unfolding pt_at_def S .
  have "\<exists>u v x. sys__exit id 263 sim_child = Ret u \<and> curthread u = 1 \<and> thread_switch_in (sim_vm_ops 4) u = Ret v \<and>
    proc_wait (sim_vm_ops 4) 1 v = Ret (263 AND 0xff, x) \<and> vm_inv (sim_vm_ops 4) 4 ({0} - {0}) x \<and>
    free_frames x = free_frames sim_child \<union> {1..<1 + 1} \<union> {i. i < coremapSize sim_child \<and> owner sim_child i = Some 0} \<and>
    slot_bytes (sim_vm_ops 4) x = slot_bytes (sim_vm_ops 4) sim_child |` (- swapped_slots (ptabs sim_child 0) 0) \<and>
    (\<forall>b\<in>{0} - {0}. ptabs x b = ptabs sim_child b \<and> (\<forall>j<length (ptabs sim_child b).
       content (sim_vm_ops 4) x b j = content (sim_vm_ops 4) sim_child b j)) \<and>
    ptab_proc x = (ptab_proc sim_child)[p_pid (procs sim_child 1) := None]"
    by (rule exit_wait_delivers [OF sim_child_inv sim_close insertI1 _ pt, of 1 sim_wait_sem 1])
      (simp_all add: sim_cpu_def sim_thread_def sim_proc_def sim_wait_sem_def guard_ok_def curproc_def MAX_PROC_def)
  moreover have "free_frames sim_child = {}" "{i. i < coremapSize sim_child \<and> owner sim_child i = Some 0} = {0}"
    unfolding S by (rule sim_dying_inv(3), rule sim_dying_inv(4))
  ultimately show ?thesis by (elim exE conjE) (intro exI conjI, assumption, assumption, simp, simp, auto)
qed

text \<open>
  C40. When the program of a menu command cannot be opened, the thread that was to run it ends without
  signalling the semaphore of its process: whoever waits for that process sleeps for good, since
  \<open>proc_wait\<close> sleeps in every state with that semaphore. The failed \<open>as_create\<close> also keeps a block of memory.
\<close>

theorem missing_program_never_signals:
  assumes lk: "can_lock s" "proc_getas s = None" "kmem s = True # km" and op: "vfs_open E prog (disk s) = (Some e, v, prog', d)"
    and ok: "\<not> c_isidle (cur_cpu s)" "guard_ok (threads s (curthread s))" "stats_ok s" "c_runqueue (cur_cpu s) = t # q"
    and p: "curproc s = Some p" "0 < p_numthreads (procs s p)" "p_sem (procs s p) = Some sem" "sem_count sem = 0"
  shows "\<exists>s1 u. cmd_progthread X E (Some prog # rest) s = Ret (None, s1) \<and> kheap s1 = kheap s + 1 \<and>
    thread_exit cpu_idle s1 = Ret u \<and> curthread u = t \<and> p_sem (procs u p) = Some sem \<and>
    (\<forall>v. p_sem (procs v p) = p_sem (procs u p) \<longrightarrow> can_lock v \<longrightarrow> kproc v \<noteq> Some p \<longrightarrow> proc_wait E p v = Sleeps)"
  by (rule open_fails_no_signal [OF assms])

theorem missing_program_never_signals_witness:
  "\<exists>s1 u. cmd_progthread sim_ext sim_nofile_ops [Some ''nosuchfile''] sim_prog = Ret (None, s1) \<and>
    thread_exit id s1 = Ret u \<and> curthread u = 2 \<and>
    (\<forall>v. p_sem (procs v 0) = p_sem (procs u 0) \<longrightarrow> can_lock v \<longrightarrow> kproc v \<noteq> Some 0 \<longrightarrow> proc_wait sim_nofile_ops 0 v = Sleeps)"
proof -
  have "\<exists>s1 u. cmd_progthread sim_ext sim_nofile_ops [Some ''nosuchfile''] sim_prog = Ret (None, s1) \<and> kheap s1 = kheap sim_prog + 1 \<and>
    thread_exit id s1 = Ret u \<and> curthread u = 2 \<and> p_sem (procs u 0) = Some sim_wait_sem \<and>
    (\<forall>v. p_sem (procs v 0) = p_sem (procs u 0) \<longrightarrow> can_lock v \<longrightarrow> kproc v \<noteq> Some 0 \<longrightarrow> proc_wait sim_nofile_ops 0 v = Sleeps)"
    by (rule missing_program_never_signals [OF _ _ _ sim_nofile_open])
      (simp_all add: can_lock_def sched_ok_def in_interrupt_def proc_getas_def curproc_def sim_cpu_def sim_thread_def sim_proc_def
        sim_wait_sem_def guard_ok_def)
  then show ?thesis by (elim exE conjE) (intro exI conjI)
qed

section \<open>Locks, processes and the start of the system\<close>

text \<open>
  C14. Mutual exclusion under any interleaving. Any number of threads use a lock made by \<open>lock_create\<close>,
  preempted at any point between the protected parts of \<open>P\<close>, \<open>V\<close>, \<open>lock_acquire\<close> and \<open>lock_release\<close>. At
  most one thread is between the return of \<open>lock_acquire\<close> and its \<open>lock_release\<close>, and it is the owner of
  the lock; the assertion that the lock has no owner holds whenever a thread is about to become the
  owner; and when no thread has the lock, the next \<open>P\<close> gets it, and if a thread is asleep on the
  semaphore then one has been woken, so that no wake-up is lost.
\<close>

theorem lock_mutual_exclusion:
  assumes "lock_create nm s = (Some lk0, s0)" "lock_reach lk0 (lk, pc)"
  shows "(pc t = Critical \<and> pc u = Critical \<longrightarrow> t = u) \<and> (pc t = Critical \<longleftrightarrow> lk_owner lk = Some t) \<and>
    (pc t = Took \<longrightarrow> lk_owner lk = None) \<and>
    ((\<forall>t. pc t \<noteq> Took \<and> pc t \<noteq> Critical) \<longrightarrow>
      (\<not> in_interrupt s1 \<longrightarrow> (\<exists>sem. sem_P s1 (lk_sem lk) = Ret sem)) \<and>
      (pc t = Asleep \<longrightarrow> (\<exists>t. pc t = Asleep \<and> t \<notin> set (wc_threads (sem_wchan (lk_sem lk))))))"
proof -
  from lock_inv_reach [OF assms(2) lock_create_idle [OF assms(1)]] obtain h where h: "lock_inv_at h lk pc" by auto
  note F = lock_inv_facts [OF h]
  show ?thesis using F(1,2) [of t] F(3) [of t] F(4) [of s1] F(5) [of t] by blast
qed

theorem lock_mutual_exclusion_witness:
  "\<exists>lk0 lk pc. lock_reach lk0 (lk, pc) \<and> pc 1 = Critical \<and> pc 2 = Asleep \<and> (\<forall>u. pc u = Critical \<longrightarrow> u = 1)"
proof -
  let ?s = "\<lambda>t. (sched.truncate (sim_vm [] sim_pt))\<lparr>curthread := t, kmem := [True, True, True, True, True]\<rparr>"
  let ?l = "\<lparr>lk_name = ''l'', lk_sem = \<lparr>sem_name = ''l'', sem_wchan = \<lparr>wc_name = ''l'', wc_threads = []\<rparr>, sem_count = 1\<rparr>,
    lk_owner = None\<rparr>"
  let ?pc = "(\<lambda>_. Outside)(1 := Critical)"
  have c: "lock_create ''l'' (?s 0) = (Some ?l, snd (lock_create ''l'' (?s 0)))"
    by (simp add: lock_create_def sem_create_def wchan_create_def kmalloc_def)
  have i: "\<not> in_interrupt (?s t)" for t by (simp add: in_interrupt_def sched.truncate_def sim_vm_def sim_thread_def)
  have "lock_acquire (?s 1) ?l = Ret (lock_by 1 ?l)"
    using lock_acquire_idle [OF i, of ?l 1] by (simp add: lock_idle_def)
  from lock_acquire_steps [OF this _ lock_reach.init]
  have r1: "lock_reach ?l (lock_by 1 ?l, ?pc)" by simp
  have "lock_step (lock_by 1 ?l, ?pc) (lock_by 1 ?l, ?pc(curthread (?s 2) := Acquiring))"
    by (rule lock_step.enter) (use i [of 2] in simp_all)
  with r1 have r2: "lock_reach ?l (lock_by 1 ?l, ?pc(2 := Acquiring))" using lock_reach.step by fastforce
  have "sem_P (?s 2) (lk_sem (lock_by 1 ?l)) = Sleeps"
    using i [of 2] by (simp add: sem_P_def wchan_sleep_def lock_by_def KASSERT_def cur_cpu_def in_interrupt_def
        spinlock_acquire_def upd_cpu_def sched.truncate_def sim_vm_def sim_cpu_def)
  from lock_reach.step [OF r2 lock_step.sleep [OF _ this]]
  obtain lk where r3: "lock_reach ?l (lk, ?pc(2 := Acquiring, 2 := Asleep))" by auto
  show ?thesis
    using lock_mutual_exclusion [where u = 1, OF c r3] r3
    by (intro exI [of _ ?l] exI [of _ lk] exI [of _ "?pc(2 := Acquiring, 2 := Asleep)"]) auto
qed

text \<open>
  C16. The table of pids is well typed and stays so: each entry is a process whose pid is its index, so
  that no two processes in the table share a pid, and pid 0 is not used. \<open>proc_create\<close> always ends on such
  a table: the new process gets a pid between 1 and \<open>MAX_PROC\<close> that was free, or, with every slot other
  than that of the last pid in use, the kernel panics. \<open>proc_end_waitpid\<close> keeps the table well formed.
\<close>

theorem pid_table_wellformed:
  assumes "ptab_ok s" "kmem s = True # True # km"
  shows "((\<exists>t i. proc_create name s = Ret (Some (next_proc s), t) \<and> ptab_ok t \<and> p_pid (procs t (next_proc s)) = i \<and>
      1 \<le> i \<and> i \<le> MAX_PROC \<and> ptab_proc s ! i = None \<and> ptab_proc t = (ptab_proc s)[i := Some (next_proc s)]) \<or>
    proc_create name s = Panic ''too many processes. proc table is full'' \<and>
      (\<forall>i. 1 \<le> i \<and> i \<le> MAX_PROC \<and> i \<noteq> ptab_last_i s \<longrightarrow> ptab_proc s ! i \<noteq> None)) \<and>
    (\<forall>p t. proc_end_waitpid p s = Ret t \<longrightarrow> ptab_ok t)"
  using proc_create_pid [OF assms] proc_end_waitpid_ok [OF assms(1)] by blast

theorem pid_table_wellformed_witness:
  "\<exists>t. proc_create ''p'' ((sim_vm [] sim_pt)\<lparr>ptab_proc := replicate 101 None, ptab_last_i := 0, kmem := [True, True]\<rparr>) =
    Ret (Some (next_proc (sim_vm [] sim_pt)), t) \<and> ptab_ok t"
proof -
  let ?s = "(sim_vm [] sim_pt)\<lparr>ptab_proc := replicate 101 None, ptab_last_i := 0, kmem := [True, True]\<rparr>"
  have "ptab_ok ?s" by (simp add: ptab_ok_def MAX_PROC_def)
  moreover have "kmem ?s = True # True # []" by simp
  moreover have "ptab_proc ?s ! 1 = None" "1 \<noteq> ptab_last_i ?s" by simp_all
  ultimately show ?thesis using pid_table_wellformed [of ?s "[]" "''p''"] by (fastforce simp: MAX_PROC_def)
qed

text \<open>
  C9. The VM system starts in a good state. With memory for its two locks, a swap file of \<open>n\<close> pages and
  up to 512 MB of RAM, \<open>vm_bootstrap\<close> returns and the invariant of the VM system, which every operation
  on memory keeps, holds for no address spaces; the statistics agree, all frames are free, no swap slot
  is in use and ten blocks of kernel memory have been taken, five for each lock. The memory of the bitmap is not
  among them: it belongs to \<open>bitmap_create\<close>, which is outside the sources.
\<close>

theorem vm_bootstrap_establishes_invariant:
  fixes s :: "('h, 'd, 'b, 'a) core_st_scheme" and E :: "('h, 'd, 'b, 'x) vm_ops_scheme"
  assumes "tlb_laws E" "vnode_laws E" "bitmap_laws E n"
    and "bitmap_create E n = Some b" "0 < n" "n < 65536" "used s = 0" "n \<le> unat firstfree"
    and "tlb_wf E s" "can_lock s" "kmem s = replicate 10 True @ km"
    and "unat firstfree + 4095 \<le> unat ramsize" "unat ramsize \<le> 0x20000000" "next_svic s = 0"
      "0 < coremapSize (coremap_init ramsize firstfree s)"
  shows "\<exists>t. vm_bootstrap E (None, Some v) (None, int n * 4096) ramsize firstfree s = Ret t \<and> vm_inv E n {} t \<and>
     stats_consistent t \<and> free_frames t = {..<coremapSize t} \<and> coremapSize t = coremapSize (coremap_init ramsize firstfree s) \<and>
     slot_bytes E t = Map.empty \<and> kheap t = kheap s + 10"
  by (rule vm_bootstrap_ok [OF assms])

theorem vm_bootstrap_establishes_invariant_witness:
  "\<exists>t. vm_bootstrap (sim_vm_ops 4) (None, Some 7) (None, int 4 * 4096) 0x100000 0x32A00
      ((sim_vm [] sim_pt)\<lparr>kmem := replicate 10 True\<rparr>) = Ret t \<and> vm_inv (sim_vm_ops 4) 4 {} t"
proof -
  let ?s = "(sim_vm [] sim_pt)\<lparr>kmem := replicate 10 True\<rparr>"
  have c: "0 < coremapSize (coremap_init 0x100000 0x32A00 ?s)"
    using coremap_init_values(1) [of "0x32A00" "0x100000" ?s] by simp
  have w: "tlb_wf (sim_vm_ops 4) ?s = tlb_wf (sim_vm_ops 4) (sim_vm [] sim_pt)" by (rule tlb_cong) simp_all
  have l: "tlb_laws (sim_vm_ops 4)" "vnode_laws (sim_vm_ops 4)" "bitmap_laws (sim_vm_ops 4) 4"
    "bitmap_create (sim_vm_ops 4) 4 = Some (\<lambda>_. False)" "0 < (4 :: nat)" "(4 :: nat) < 65536" by simp_all
  have "can_lock ?s" "used ?s = 0" "next_svic ?s = 0"
    using sim_vm_state(3) [of "[]" sim_pt]
    by (simp_all add: can_lock_def sched_ok_def in_interrupt_def cur_cpu_def sim_vm_def sim_boot_def)
  moreover have "kmem ?s = replicate 10 True @ []" "tlb_wf (sim_vm_ops 4) ?s" unfolding w by simp_all
  moreover have "4 \<le> unat (0x32A00 :: paddr_t)" "unat (0x32A00 :: paddr_t) + 4095 \<le> unat (0x100000 :: paddr_t)"
    "unat (0x100000 :: paddr_t) \<le> 0x20000000" by simp_all
  ultimately show ?thesis
    using vm_bootstrap_establishes_invariant [where v = 7, OF l _ _ _ _ _ _ _ _ c] by blast
qed

text \<open>
  C32. The parser of the menu, which chops a line with \<open>strtok_r\<close> in two nested loops that destroy the
  buffer, runs a line as the specification says: the commands are the maximal blocks without a
  semicolon, the words of a command its maximal blocks without a blank or a tab; empty commands do
  nothing, commands with more than \<open>MAXMENUARGS\<close> words or an unknown first word fail, and a failure ends
  the line only for the kernel's own arguments.
\<close>

theorem menu_line_equivalence:
  "menu_execute X E line isargs s = run_commands X E isargs (commands_of line) s"
  by (rule menu_execute_commands)

section \<open>Programs\<close>

text \<open>
  C5. A program starts with its arguments. When the file is a proper executable and there is memory for the
  address space, \<open>runprogramWithArgs\<close> creates and activates the address space, reads the ELF headers, sets up
  the segments, the page table and the stack, and copies the arguments to the user stack through page
  faults. It enters user mode at the entry point of the file, with \<open>argc\<close> the number of arguments and \<open>argv\<close> the
  address of an array in the memory of the program whose elements point to the arguments, each a string
  with its final zero, and that ends with a null pointer; the stack pointer is below all of it and a
  multiple of eight. The arguments are those of the command from the second one on. The first one is what
  \<open>vfs_open\<close> left in the buffer of the program name, which is copied only after the file has been opened, and so the
  name as it was given exactly if \<open>vfs_open\<close> did not change it. All other processes keep their pages.
\<close>

theorem program_starts_with_arguments:
  assumes "startable E n A (hd args0) prog' v eh phs s" "finite A" "writes_ok E"
    and "args0 \<noteq> []" "args = prog' # tl args0" "args_size args \<le> 0x12000"
    and "card (all_pages A s) + length (pt_of_segments (ph_segs phs @ [stack_seg])) \<le> n"
    and "pt_frames (length (pt_of_segments (ph_segs phs @ [stack_seg]))) < card (free_frames s)"
    and "copyout_laws E n (insert (next_as s) A) (next_as s) cpo"
  shows "\<exists>t m. runprogramWithArgs cpo E (map Some args0) s = Ret (Inr \<lparr>um_argc = length args,
      um_argv = of_nat (argv_addr USERSTACK args 0), um_stackptr = of_nat (argv_addr USERSTACK args 0 div 8 * 8),
      um_entry = e_entry eh\<rparr>, map Some args, t) \<and>
    running E n (insert (next_as s) A) (next_as s) t \<and> view E t (next_as s) m \<and>
    (\<forall>j\<le>length args. bytes_at m (argv_addr USERSTACK args j) (be32 (arg_ptr USERSTACK args j))) \<and>
    (\<forall>j<length args. bytes_at m (arg_addr USERSTACK args j) (cstr (args ! j))) \<and>
    length args = length args0 \<and> (args = args0 \<longleftrightarrow> prog' = hd args0) \<and>
    pages_kept E (all_pages A s) s t"
proof -
  have "length args = length args0" "args = args0 \<longleftrightarrow> prog' = hd args0" using assms(4,5) by (cases args0; simp)+
  then show ?thesis using program_starts [OF assms] by blast
qed

theorem program_starts_with_arguments_witness:
  "\<exists>t m. runprogramWithArgs (sim_copyout sim_run_ops) sim_run_ops [Some ''emu0:cat'', Some ''file''] sim_start =
      Ret (Inr \<lparr>um_argc = 2, um_argv = 0x7FFFFFE4, um_stackptr = 0x7FFFFFE0, um_entry = 0x400000\<rparr>,
        [Some ''emu0'', Some ''file''], t) \<and>
    view sim_run_ops t 1 m \<and> bytes_at m 0x7FFFFFE4 [0x7F, 0xFF, 0xFF, 0xF0] \<and>
    bytes_at m 0x7FFFFFF0 [0x65, 0x6D, 0x75, 0x30, 0] \<and> bytes_at m 0x7FFFFFF8 [0x66, 0x69, 0x6C, 0x65, 0]"
proof -
  let ?cmd = "[''emu0:cat'', ''file'']" and ?args = "[''emu0'', ''file'']"
  have z: "args_size ?args = 28" by (simp add: args_size_def arg_room_def)
  have c: "card (all_pages {} sim_start) = 0" by (simp add: all_pages_def)
  have k: "pt_frames 19 = 1" "card (free_frames sim_start) = 3" by (simp_all add: pt_frames_def sim_start_free)
  have p: "argv_addr USERSTACK ?args 0 = 0x7FFFFFE4" "arg_addr USERSTACK ?args 0 = 0x7FFFFFF0" "arg_addr USERSTACK ?args 1 = 0x7FFFFFF8"
    by (simp_all add: argv_addr_def z USERSTACK_def arg_addr_def arg_room_def)
  have b: "be32 (arg_ptr USERSTACK ?args 0) = [0x7F, 0xFF, 0xFF, 0xF0]" "cstr ''emu0'' = [0x65, 0x6D, 0x75, 0x30, 0]"
    "cstr ''file'' = [0x66, 0x69, 0x6C, 0x65, 0]"
    by (simp_all add: arg_ptr_def p be32_def cstr_def)
  have st: "startable sim_run_ops 32 {} (hd ?cmd) ''emu0'' 2 sim_run_elf [sim_run_phdr] sim_start"
    using sim_startable [of "hd ?cmd"] by simp
  from program_starts_with_arguments [where args = ?args, OF st finite.emptyI sim_writes_ok _ _ _ _ _ sim_copyout_laws,
      unfolded sim_run_pages c k z p]
  obtain t m where t: "runprogramWithArgs (sim_copyout sim_run_ops) sim_run_ops (map Some ?cmd) sim_start =
      Ret (Inr \<lparr>um_argc = length ?args, um_argv = of_nat 0x7FFFFFE4, um_stackptr = of_nat (0x7FFFFFE4 div 8 * 8),
        um_entry = e_entry sim_run_elf\<rparr>, map Some ?args, t)" "view sim_run_ops t 1 m"
    "\<forall>j\<le>length ?args. bytes_at m (argv_addr USERSTACK ?args j) (be32 (arg_ptr USERSTACK ?args j))"
    "\<forall>j<length ?args. bytes_at m (arg_addr USERSTACK ?args j) (cstr (?args ! j))" by auto
  have "e_entry sim_run_elf = 0x400000" by (simp add: sim_run_elf_def)
  then show ?thesis
    using t(1,2) t(3) [rule_format, of 0] t(4) [rule_format, of 0] t(4) [rule_format, of 1] b p
    by (intro exI [of _ t] exI [of _ m]) simp
qed

section \<open>Open files and user pointers\<close>

text \<open>
  C29. Open files are counted. In the tables of the processes and of the system every descriptor in use
  refers to an entry in use, and each entry counts its descriptors. When the file opens, \<open>sys_open\<close> fails with
  \<open>ENFILE\<close> exactly if the system table has no free entry, and keeps the tables; it fails with \<open>EMFILE\<close> exactly if the
  system table has one but the process has no free descriptor above the standard ones, and then an entry that
  nobody refers to stays in use; in all other cases it succeeds with the lowest free descriptor above the
  standard ones, which refers to the first free entry, now with the file, and keeps the counts. \<open>sys_close\<close> fails
  and changes nothing for a descriptor that is not in use or out of range, except for the number \<open>OPEN_MAX\<close>,
  for which it reads behind the table. It succeeds for every descriptor in use, frees the descriptor and keeps
  the counts, and frees the entry exactly when the descriptor was the last one for it.
\<close>

theorem open_files_counted:
  assumes "files_ok E P s" "curproc s = Some p" "p \<in> P"
    and "vfs_openu X path flags mode s = Ret (None, v, s1)" "fileTable s1 = fileTable s"
      "systemFileTable s1 = systemFileTable s" "curproc s1 = Some p"
  shows "((\<forall>k. \<not> free_file E s k) \<longrightarrow> (\<exists>t. sys_open X E path flags mode s = Ret (-1, Some ENFILE, t) \<and> files_ok E P t \<and>
      fileTable t = fileTable s \<and> systemFileTable t = systemFileTable s)) \<and>
    ((\<exists>k. free_file E s k) \<and> (\<forall>fd. \<not> free_fd E p s fd) \<longrightarrow>
      (\<exists>k t. sys_open X E path flags mode s = Ret (-1, Some EMFILE, t) \<and> free_file E s k \<and> \<not> files_ok E P t \<and>
        fileTable t = fileTable s \<and> systemFileTable t = (systemFileTable s)[k := opened_file v])) \<and>
    ((\<exists>k. free_file E s k) \<and> (\<exists>fd. free_fd E p s fd) \<longrightarrow>
      (\<exists>k fd t. sys_open X E path flags mode s = Ret (int fd, None, t) \<and> free_file E s k \<and> (\<forall>j<k. \<not> free_file E s j) \<and>
        free_fd E p s fd \<and> (\<forall>j<fd. \<not> free_fd E p s j) \<and> files_ok E P t \<and>
        fileTable t = (fileTable s)(p := (fileTable s p)[fd := Some k]) \<and>
        systemFileTable t = (systemFileTable s)[k := opened_file v])) \<and>
    (\<forall>fd. fd < 0 \<or> int (open_max E) < fd \<or> fd \<noteq> int (open_max E) \<and> fileTable s p ! nat fd = None \<longrightarrow>
      sys_close E fd s = Ret (-1, s)) \<and>
    (\<forall>fd k. 0 \<le> fd \<and> fd < int (open_max E) \<and> fileTable s p ! nat fd = Some k \<longrightarrow>
      (\<exists>t. sys_close E fd s = Ret (0, t) \<and> files_ok E P t \<and> fileTable t = (fileTable s)(p := (fileTable s p)[nat fd := None]) \<and>
        (of_vn (systemFileTable t ! k) = None \<longleftrightarrow> fd_refs P s k = {(p, nat fd)}) \<and>
        (\<forall>j. j \<noteq> k \<longrightarrow> systemFileTable t ! j = systemFileTable s ! j)))"
proof -
  note O = sys_open_cases [OF assms] and C = sys_close_cases [OF assms(1-3)]
  have c: "sys_close E fd s = Ret (-1, s)"
    if "fd < 0 \<or> int (open_max E) < fd \<or> fd \<noteq> int (open_max E) \<and> fileTable s p ! nat fd = None" for fd
    using that C(1,2) [of fd] by linarith
  show ?thesis
    by (intro conjI allI impI; (elim conjE)?) (erule O(1), erule O(2), assumption, erule O(3), assumption, rule c, assumption, rule C(3))
qed

theorem open_files_counted_witness:
  "\<exists>t. sys_open sim_ext (sim_kern_ops True 4) 0 0 0 (sim_kern []) = Ret (3, None, t) \<and> files_ok (sim_kern_ops True 4) {0} t \<and>
    fileTable t 0 ! 3 = Some 0"
proof -
  let ?E = "sim_kern_ops True 4" and ?s = "sim_kern []"
  have c: "curproc ?s = Some 0"
    using truncate_fields(1,4) [OF sim_kern_truncate [of "[]"]] by (simp add: curproc_def sim_vm_def sim_thread_def)
  have r: "fd_refs {0} ?s k = {}" for k by (auto simp: fd_refs_def)
  have ok: "files_ok ?E {0} ?s" unfolding files_ok_def r by (simp add: SYSTEM_OPEN_MAX_def)
  have v: "vfs_openu sim_ext 0 0 0 ?s = Ret (None, 2, ?s)" by (simp add: sim_ext_def)
  have f: "free_file ?E ?s 0" "free_fd ?E 0 ?s 3" by (simp_all add: free_file_def free_fd_def SYSTEM_OPEN_MAX_def)
  then have "(\<exists>k. free_file ?E ?s k) \<and> (\<exists>fd. free_fd ?E 0 ?s fd)" by (intro conjI exI)
  from open_files_counted [OF ok c insertI1 v refl refl c, THEN conjunct2, THEN conjunct2, THEN conjunct1, rule_format, OF this]
  obtain k fd t where
    t: "sys_open sim_ext ?E 0 0 0 ?s = Ret (int fd, None, t)" "\<forall>j<k. \<not> free_file ?E ?s j" "free_fd ?E 0 ?s fd"
      "\<forall>j<fd. \<not> free_fd ?E 0 ?s j" "files_ok ?E {0} t"
      "fileTable t = (fileTable ?s)(0 := (fileTable ?s 0)[fd := Some k])" by (elim exE conjE) (rule that)
  have "\<not> 0 < k" "\<not> 3 < fd" "3 \<le> fd" using t(2-4) f by (auto simp: free_fd_def)
  then have "k = 0" "fd = 3" by simp_all
  then show ?thesis using t by simp
qed

text \<open>
  C31. Copying the table of a process for \<open>fork\<close>: to an empty table, \<open>proc_file_table_copy\<close> makes an equal one
  and keeps the counts of the open files. But \<open>sys_fork\<close> gives it the child as the source and the parent as the
  destination: when the child's table is empty, as \<open>proc_create\<close> leaves it, the parent loses all its
  descriptors, and if it had any the counts are wrong from then on.
\<close>

theorem fork_file_table_copy:
  assumes "files_ok E P s" "parent \<in> P" "child \<in> P" "child \<noteq> parent" "card P * open_max E < 2 ^ 32"
    and "\<forall>i<open_max E. fileTable s child ! i = None" "fd < open_max E" "fileTable s parent ! fd = Some k"
  shows "files_ok E P (proc_file_table_copy parent child 0 (open_max E) s) \<and>
    fileTable (proc_file_table_copy parent child 0 (open_max E) s) = (fileTable s)(child := fileTable s parent) \<and>
    (\<forall>i<open_max E. fileTable (proc_file_table_copy child parent 0 (open_max E) s) parent ! i = None) \<and>
    \<not> files_ok E P (proc_file_table_copy child parent 0 (open_max E) s)"
proof -
  have "0 + open_max E = open_max E" "\<forall>i. 0 \<le> i \<and> i < 0 + open_max E \<longrightarrow> fileTable s child ! i = None"
    using assms(6) by simp_all
  from proc_file_table_copy_ok [OF assms(2,3) assms(4) [symmetric] assms(5,1) this]
    empty_copy_breaks_counts [OF assms(1,3,2,4,6-8)]
  show ?thesis by simp
qed

theorem fork_file_table_copy_witness:
  "\<exists>s :: (sim_tlb, sim_disk, sim_bitmap) kern_st. fileTable s 0 ! 3 = Some 5 \<and>
    fileTable (proc_file_table_copy 0 1 0 8 s) 1 ! 3 = Some 5 \<and> fileTable (proc_file_table_copy 1 0 0 8 s) 0 ! 3 = None"
proof -
  let ?E = "sim_kern_ops True 4"
  define s where "s = (sim_kern [])\<lparr>fileTable := (\<lambda>p. (replicate 8 None)[3 := (if p = 0 then Some 5 else None)]),
    systemFileTable := (replicate 80 \<lparr>of_vn = None, of_offset = 0, countRef = 0\<rparr>)[5 := \<lparr>of_vn = Some 2, of_offset = 0, countRef = 1\<rparr>]\<rparr>"
  have r: "fd_refs {0, 1} s k = (if k = 5 then {(0, 3)} else {})" for k
    by (auto simp: fd_refs_def s_def nth_list_update split: if_splits)
  have "files_ok ?E {0, 1} s"
    unfolding files_ok_def r by (simp add: s_def SYSTEM_OPEN_MAX_def nth_list_update)
  moreover have "\<forall>i<open_max ?E. fileTable s 1 ! i = None" by (auto simp: s_def nth_list_update)
  moreover have f: "fileTable s 0 ! 3 = Some 5" by (simp add: s_def)
  ultimately show ?thesis
    using fork_file_table_copy [of ?E "{0, 1}" s 0 1 3 5] by (intro exI [of _ s]) simp
qed

text \<open>
  C30. The console calls do not check their pointer. Given an address in the direct mapped segment of the
  kernel, \<open>sys_write\<close> prints physical memory, and \<open>sys_read\<close> overwrites it with what is typed; both report
  success. Any program can read and change the kernel and all other processes this way.
\<close>

theorem console_calls_reach_kernel_memory:
  assumes "0x80000000 \<le> unat p" "unat p + unat sz \<le> 0xA0000000" "unat sz = length bs" "con_in s = bs @ cs" "\<forall>b\<in>set bs. sint b \<ge> 0"
  shows "sys_write X E 1 p sz s =
      Ret (sint sz, s\<lparr>console := console s @ map (\<lambda>i. physmem s (p - MIPS_KSEG0 + of_nat i)) [0..<unat sz]\<rparr>) \<and>
    sys_read X E 0 p sz s = Ret (sint sz, s\<lparr>con_in := cs, physmem := mem_write (p - MIPS_KSEG0) bs (physmem s)\<rparr>)"
proof -
  have "sz < 0x80000000" using assms(1,2) by (simp add: word_less_nat_alt)
  note n = nat_sint [OF this]
  show ?thesis
    using n write_loop_kernel [OF assms(1,2), of E s] read_loop_kernel [OF assms(1) assms(2) [unfolded assms(3)] assms(4,5), of E 0] assms(3)
    by (simp add: sys_write_def sys_read_def STDOUT_FILENO_def STDERR_FILENO_def STDIN_FILENO_def)
qed

theorem console_calls_reach_kernel_memory_witness:
  "sys_read sim_ext (sim_kern_ops False 4) 0 0x80000100 2 (sim_kern [0x41, 0x42]) =
    Ret (2, (sim_kern [0x41, 0x42])\<lparr>con_in := [], physmem := mem_write 0x100 [0x41, 0x42] (physmem (sim_kern [0x41, 0x42]))\<rparr>)"
  using console_calls_reach_kernel_memory [of "0x80000100" 2 "[0x41, 0x42]" "sim_kern [0x41, 0x42]" "[]" sim_ext "sim_kern_ops False 4"]
  by (simp add: MIPS_KSEG0_def)

end
